(* ===== verification/C_Prelude.thy ===== *)
theory C_Prelude
  imports Main "HOL-Library.Word"
begin

text \<open>
  The part of C and of its standard library that the programs of the repository share:
  machine integers, C strings, number parsing (\<^verbatim>\<open>strtol\<close>, \<^verbatim>\<open>strtoull\<close>) and printing
  (\<^verbatim>\<open>%d\<close>, \<^verbatim>\<open>%x\<close>), line input (\<^verbatim>\<open>getline\<close>), the output events of a program, its outcome, and
  reachability in a step relation.  Nothing here is code of the repository, so nothing here
  is mapped to it.
\<close>

unbundle bit_operations_syntax

named_theorems c_eval \<open>equations that evaluate the library model on closed arguments\<close>

section \<open>Machine integers\<close>

type_synonym byte = "8 word"
type_synonym u32 = "32 word"
type_synonym size_t = "64 word"

definition INT_MAX :: int where "INT_MAX = 2147483647"
definition INT_MIN :: int where "INT_MIN = - 2147483648"
definition LONG_MAX :: int where "LONG_MAX = 9223372036854775807"
definition LONG_MIN :: int where "LONG_MIN = - 9223372036854775808"
definition ULLONG_MAX :: nat where "ULLONG_MAX = 18446744073709551615"
definition SIZE_MAX :: nat where "SIZE_MAX = 18446744073709551615"

text \<open>The conversion of a wider signed value to a 32-bit \<^verbatim>\<open>int\<close> keeps the low 32 bits.\<close>

definition to_int :: "int \<Rightarrow> int" where
  "to_int v = (v + 2147483648) mod 4294967296 - 2147483648"

definition in_int :: "int \<Rightarrow> bool" where
  "in_int v \<longleftrightarrow> INT_MIN \<le> v \<and> v \<le> INT_MAX"

lemma to_int_range: "in_int (to_int v)"
  using pos_mod_sign [of 4294967296 "v + 2147483648"] pos_mod_bound [of 4294967296 "v + 2147483648"]
  by (simp add: to_int_def in_int_def INT_MIN_def INT_MAX_def)

lemma to_int_id [simp]: "in_int v \<Longrightarrow> to_int v = v"
  by (simp add: to_int_def in_int_def INT_MIN_def INT_MAX_def)

text \<open>C division and remainder truncate towards zero.\<close>

definition c_div :: "int \<Rightarrow> int \<Rightarrow> int" where
  "c_div a b = sgn a * sgn b * (\<bar>a\<bar> div \<bar>b\<bar>)"

definition c_mod :: "int \<Rightarrow> int \<Rightarrow> int" where
  "c_mod a b = a - b * c_div a b"

lemma c_div_nonneg: "0 \<le> a \<Longrightarrow> 0 < b \<Longrightarrow> c_div a b = a div b"
  by (cases "a = 0") (simp_all add: c_div_def)

lemma c_mod_nonneg: "0 \<le> a \<Longrightarrow> 0 < b \<Longrightarrow> c_mod a b = a mod b"
  by (simp add: c_mod_def c_div_nonneg minus_mult_div_eq_mod)

section \<open>Output events and outcomes\<close>

text \<open>
  \<open>Stdout\<close> and \<open>Stderr\<close> carry the text written; \<open>Error n s\<close> is a call
  \<^verbatim>\<open>error(_, n, s)\<close>, whose text also holds \<^verbatim>\<open>strerror(n)\<close>; \<open>Syslog p s\<close> is
  \<^verbatim>\<open>syslog(p, s)\<close>.
\<close>

datatype event = Stdout string | Stderr string | Error int string | Syslog int string

datatype fault = NullDeref | OutOfBounds | BufferOverflow | AssertFailed | SignedOverflow | DivByZero

datatype 'a outcome = Done 'a | Exit int | Fault fault

definition EXIT_SUCCESS :: int where "EXIT_SUCCESS = 0"
definition EXIT_FAILURE :: int where "EXIT_FAILURE = 1"

lemma exit_codes_distinct [simp]: "EXIT_SUCCESS \<noteq> EXIT_FAILURE" "EXIT_FAILURE \<noteq> EXIT_SUCCESS"
  by (simp_all add: EXIT_SUCCESS_def EXIT_FAILURE_def)

text \<open>The text a program wrote to its standard output.\<close>

fun stdout_of :: "event list \<Rightarrow> string" where
  "stdout_of [] = []"
| "stdout_of (Stdout s # es) = s @ stdout_of es"
| "stdout_of (_ # es) = stdout_of es"

lemma stdout_of_append [simp]: "stdout_of (xs @ ys) = stdout_of xs @ stdout_of ys"
  by (induction xs rule: stdout_of.induct) simp_all

section \<open>Strings\<close>

definition nl :: char where "nl = CHR 0x0A"
definition nul :: char where "nul = CHR 0x00"

text \<open>What a C string function sees of a buffer: the bytes before the first NUL.\<close>

definition cstr :: "string \<Rightarrow> string" where
  "cstr s = takeWhile (\<lambda>c. c \<noteq> nul) s"

lemma cstr_id: "nul \<notin> set s \<Longrightarrow> cstr s = s"
  unfolding cstr_def by (subst takeWhile_eq_all_conv) auto

definition is_space :: "char \<Rightarrow> bool" where
  "is_space c \<longleftrightarrow> c \<in> {CHR '' '', CHR 0x09, CHR 0x0A, CHR 0x0B, CHR 0x0C, CHR 0x0D}"

definition to_lower :: "char \<Rightarrow> char" where
  "to_lower c = (let n = of_char c :: nat in if 65 \<le> n \<and> n \<le> 90 then char_of (n + 32) else c)"

definition to_upper :: "char \<Rightarrow> char" where
  "to_upper c = (let n = of_char c :: nat in if 97 \<le> n \<and> n \<le> 122 then char_of (n - 32) else c)"

fun is_prefix :: "'a list \<Rightarrow> 'a list \<Rightarrow> bool" where
  "is_prefix [] _ = True"
| "is_prefix (_ # _) [] = False"
| "is_prefix (x # xs) (y # ys) = (x = y \<and> is_prefix xs ys)"

lemma is_prefix_iff: "is_prefix xs ys \<longleftrightarrow> (\<exists>zs. ys = xs @ zs)"
  by (induction xs ys rule: is_prefix.induct) auto

text \<open>\<^verbatim>\<open>basename\<close>: the text after the last slash.\<close>

definition basename :: "string \<Rightarrow> string" where
  "basename path = rev (takeWhile (\<lambda>c. c \<noteq> CHR ''/'') (rev path))"

text \<open>\<^verbatim>\<open>strstr\<close>: the offset of the first occurrence of the needle.\<close>

fun strstr :: "string \<Rightarrow> string \<Rightarrow> nat option" where
  "strstr hay needle =
     (if is_prefix needle hay then Some 0
      else case hay of [] \<Rightarrow> None | _ # hs \<Rightarrow> map_option Suc (strstr hs needle))"

declare strstr.simps [simp del]

lemma strstr_Some: "strstr hay needle = Some k \<Longrightarrow> k \<le> length hay \<and> is_prefix needle (drop k hay)"
proof (induction hay arbitrary: k)
  case Nil
  then show ?case by (subst (asm) strstr.simps) (simp split: if_splits)
next
  case (Cons h hs)
  then show ?case by (subst (asm) strstr.simps) (auto split: if_splits)
qed

lemma all_le_Suc: "(\<forall>k \<le> Suc n. P k) \<longleftrightarrow> P 0 \<and> (\<forall>k \<le> n. P (Suc k))"
  by (metis Suc_le_mono not0_implies_Suc zero_le)

lemma strstr_None: "strstr hay needle = None \<longleftrightarrow> (\<forall>k \<le> length hay. \<not> is_prefix needle (drop k hay))"
proof (induction hay)
  case Nil
  show ?case by (subst strstr.simps) simp
next
  case (Cons h hs)
  have "(\<forall>k \<le> length (h # hs). \<not> is_prefix needle (drop k (h # hs))) \<longleftrightarrow>
      \<not> is_prefix needle (h # hs) \<and> (\<forall>k \<le> length hs. \<not> is_prefix needle (drop k hs))"
    by (simp add: all_le_Suc)
  with Cons show ?case by (subst strstr.simps) simp
qed

section \<open>Line input\<close>

text \<open>The successive results of \<^verbatim>\<open>getline\<close> on a stream with the given contents.\<close>

fun input_lines :: "string \<Rightarrow> string list" where
  "input_lines [] = []"
| "input_lines (c # cs) =
     (if c = nl then [c] # input_lines cs
      else case input_lines cs of [] \<Rightarrow> [[c]] | l # ls \<Rightarrow> (c # l) # ls)"

lemma concat_input_lines [simp]: "concat (input_lines s) = s"
  by (induction s) (auto split: list.splits)

lemma input_lines_nonempty: "l \<in> set (input_lines s) \<Longrightarrow> l \<noteq> []"
  by (induction s arbitrary: l) (auto split: list.splits if_splits)

lemma input_lines_line: "nl \<notin> set l \<Longrightarrow> input_lines (l @ nl # s) = (l @ [nl]) # input_lines s"
  by (induction l) auto

section \<open>Numbers: printing\<close>

definition digit_char :: "nat \<Rightarrow> char" where
  "digit_char d = char_of (if d < 10 then 48 + d else 87 + d)"

lemma digit_char_simps [simp]:
  "digit_char 0 = CHR ''0''" "digit_char 1 = CHR ''1''" "digit_char (Suc 0) = CHR ''1''"
  "digit_char 2 = CHR ''2''" "digit_char 3 = CHR ''3''" "digit_char 4 = CHR ''4''"
  "digit_char 5 = CHR ''5''" "digit_char 6 = CHR ''6''" "digit_char 7 = CHR ''7''"
  "digit_char 8 = CHR ''8''" "digit_char 9 = CHR ''9''"
  by (simp_all add: digit_char_def char_of_def bit_0)

fun show_base :: "nat \<Rightarrow> nat \<Rightarrow> string" where
  "show_base b n =
     (if b < 2 \<or> n < b then [digit_char n] else show_base b (n div b) @ [digit_char (n mod b)])"

declare show_base.simps [simp del]
lemmas [c_eval] = show_base.simps

definition show_nat :: "nat \<Rightarrow> string" where [c_eval]: "show_nat = show_base 10"

definition show_int :: "int \<Rightarrow> string" where
  [c_eval]: "show_int i = (if i < 0 then CHR ''-'' # show_nat (nat (- i)) else show_nat (nat i))"

definition pad_left :: "nat \<Rightarrow> char \<Rightarrow> string \<Rightarrow> string" where
  [c_eval]: "pad_left w c s = replicate (w - length s) c @ s"

section \<open>Numbers: parsing\<close>

definition digit_val :: "char \<Rightarrow> nat option" where
  "digit_val c = (let n = of_char c :: nat in
     if 48 \<le> n \<and> n \<le> 57 then Some (n - 48)
     else if 97 \<le> n \<and> n \<le> 122 then Some (n - 87)
     else if 65 \<le> n \<and> n \<le> 90 then Some (n - 55) else None)"

definition is_digit :: "nat \<Rightarrow> char \<Rightarrow> bool" where
  "is_digit b c = (case digit_val c of None \<Rightarrow> False | Some d \<Rightarrow> d < b)"

definition digits_value :: "nat \<Rightarrow> string \<Rightarrow> nat" where
  "digits_value b ds = foldl (\<lambda>v c. v * b + (case digit_val c of None \<Rightarrow> 0 | Some d \<Rightarrow> d)) 0 ds"

text \<open>
  The common scan of the \<^verbatim>\<open>strto*\<close> functions: leading space, a sign, for base 16 an optional
  \<^verbatim>\<open>0x\<close> that a hexadecimal digit follows, and the longest run of digits.  \<open>None\<close> is "no
  conversion"; otherwise the sign, the magnitude and the rest of the string (the text at
  \<^verbatim>\<open>*endp\<close>).
\<close>

definition skip_0x :: "nat \<Rightarrow> string \<Rightarrow> string" where
  "skip_0x b s =
     (case s of z # x # d # r \<Rightarrow>
        if b = 16 \<and> z = CHR ''0'' \<and> x \<in> {CHR ''x'', CHR ''X''} \<and> is_digit 16 d then d # r else s
      | _ \<Rightarrow> s)"

definition take_sign :: "string \<Rightarrow> bool \<times> string" where
  "take_sign s = (case s of c # r \<Rightarrow>
      if c = CHR ''-'' then (True, r) else if c = CHR ''+'' then (False, r) else (False, s)
    | [] \<Rightarrow> (False, []))"

definition strto_scan :: "nat \<Rightarrow> string \<Rightarrow> (bool \<times> nat \<times> string) option" where
  "strto_scan b s =
     (let (neg, t) = take_sign (dropWhile is_space s);
          u = skip_0x b t;
          ds = takeWhile (is_digit b) u
      in if ds = [] then None else Some (neg, digits_value b ds, dropWhile (is_digit b) u))"

text \<open>
  \<^verbatim>\<open>strtol(s, &endp, b)\<close>: the value (clamped to \<^verbatim>\<open>long\<close>), the text at \<^verbatim>\<open>endp\<close>, and whether
  \<^verbatim>\<open>errno\<close> was set to \<^verbatim>\<open>ERANGE\<close>.  \<^verbatim>\<open>endp == s\<close> holds exactly when the rest is all of \<open>s\<close>.
\<close>

definition strtol :: "nat \<Rightarrow> string \<Rightarrow> int \<times> string \<times> bool" where
  "strtol b s = (case strto_scan b s of
      None \<Rightarrow> (0, s, False)
    | Some (neg, n, r) \<Rightarrow>
        (let v = (if neg then - int n else int n)
         in if v > LONG_MAX then (LONG_MAX, r, True)
            else if v < LONG_MIN then (LONG_MIN, r, True) else (v, r, False)))"

definition strtoull :: "nat \<Rightarrow> string \<Rightarrow> nat \<times> string \<times> bool" where
  "strtoull b s = (case strto_scan b s of
      None \<Rightarrow> (0, s, False)
    | Some (neg, n, r) \<Rightarrow>
        (if n > ULLONG_MAX then (ULLONG_MAX, r, True)
         else ((if neg \<and> n \<noteq> 0 then ULLONG_MAX + 1 - n else n), r, False)))"

lemma digit_char_val: "d < 36 \<Longrightarrow> digit_val (digit_char d) = Some d"
  by (simp add: digit_val_def digit_char_def Let_def of_char_of)

lemma digit_char_is_digit [simp]: "d < b \<Longrightarrow> b \<le> 36 \<Longrightarrow> is_digit b (digit_char d)"
  by (simp add: is_digit_def digit_char_val)

lemma show_base_digits: "2 \<le> b \<Longrightarrow> b \<le> 36 \<Longrightarrow> c \<in> set (show_base b n) \<Longrightarrow> is_digit b c"
proof (induction b n arbitrary: c rule: show_base.induct)
  case (1 b n)
  then have "c \<in> set (if n < b then [digit_char n] else show_base b (n div b) @ [digit_char (n mod b)])"
    by (simp add: show_base.simps [of b n])
  with 1 show ?case by (auto split: if_splits)
qed

lemma digits_value_snoc:
  "digits_value b (ds @ [c]) = digits_value b ds * b + (case digit_val c of None \<Rightarrow> 0 | Some d \<Rightarrow> d)"
  by (simp add: digits_value_def)

lemma digits_value_show_base: "2 \<le> b \<Longrightarrow> b \<le> 36 \<Longrightarrow> digits_value b (show_base b n) = n"
proof (induction b n rule: show_base.induct)
  case (1 b n)
  show ?case
  proof (cases "n < b")
    case True
    with "1.prems" show ?thesis
      by (subst show_base.simps) (simp add: digits_value_def digit_char_val)
  next
    case False
    with 1 have "digits_value b (show_base b (n div b)) = n div b" by simp
    moreover from "1.prems" have "n mod b < 36" using mod_less_divisor [of b n] by linarith
    ultimately show ?thesis using False "1.prems"
      by (subst show_base.simps) (simp add: digits_value_snoc digit_char_val)
  qed
qed

lemma show_base_nonempty [simp]: "show_base b n \<noteq> []"
  by (subst show_base.simps) simp

lemma digits_value_zeros: "digits_value b (replicate k (CHR ''0'') @ ds) = digits_value b ds"
proof (induction k)
  case (Suc k)
  have "digits_value b (CHR ''0'' # xs) = digits_value b xs" for xs
    by (simp add: digits_value_def digit_val_def)
  with Suc show ?case by simp
qed simp

lemma digit_not_sign: "is_digit 10 c \<Longrightarrow> \<not> is_space c \<and> c \<noteq> CHR ''-'' \<and> c \<noteq> CHR ''+''"
  by (auto simp: is_digit_def digit_val_def is_space_def split: option.splits)

lemma strto_scan_digits:
  assumes "ds \<noteq> []" "\<And>c. c \<in> set ds \<Longrightarrow> is_digit 10 c"
  shows "strto_scan 10 ds = Some (False, digits_value 10 ds, [])"
proof -
  obtain c cs where c: "ds = c # cs" using assms(1) by (cases ds) auto
  with assms(2) digit_not_sign have "\<not> is_space c" "c \<noteq> CHR ''-''" "c \<noteq> CHR ''+''" by auto
  with c have "take_sign (dropWhile is_space ds) = (False, ds)" by (simp add: take_sign_def)
  moreover have "skip_0x 10 ds = ds" by (simp add: skip_0x_def split: list.splits)
  moreover have "takeWhile (is_digit 10) ds = ds" "dropWhile (is_digit 10) ds = []" using assms(2) by simp_all
  ultimately show ?thesis using assms(1) by (simp only: strto_scan_def Let_def prod.case if_False)
qed

lemma strtol_show_nat:
  "strtol 10 (show_nat n) = (if int n > LONG_MAX then (LONG_MAX, [], True) else (int n, [], False))"
  using strto_scan_digits [of "show_nat n"] show_base_digits [of 10 _ n]
  by (simp add: strtol_def show_nat_def digits_value_show_base LONG_MIN_def)

lemma show_nat_nonempty [simp]: "show_nat n \<noteq> []"
  by (simp add: show_nat_def)

lemma show_nat_digit: "c \<in> set (show_nat n) \<Longrightarrow> is_digit 10 c"
  using show_base_digits [of 10 c n] by (simp add: show_nat_def)

section \<open>Counting the threads in a set of states\<close>

lemma length_filter_update:
  "i < length xs \<Longrightarrow> length (filter P (xs[i := x])) + (if P (xs ! i) then 1 else 0) = length (filter P xs) + (if P x then 1 else 0)"
proof (induction xs arbitrary: i)
  case (Cons y ys)
  then show ?case by (cases i) auto
qed simp

section \<open>Reachability in a step relation\<close>

inductive reaches :: "('s \<Rightarrow> 's \<Rightarrow> bool) \<Rightarrow> 's \<Rightarrow> 's \<Rightarrow> bool" for step s0 where
  reaches_refl: "reaches step s0 s0"
| reaches_step: "reaches step s0 s \<Longrightarrow> step s t \<Longrightarrow> reaches step s0 t"

lemma reaches_compose: "reaches step t u \<Longrightarrow> reaches step s t \<Longrightarrow> reaches step s u"
  by (induction rule: reaches.induct) (assumption, rule reaches_step)

lemma reaches_front: "step s t \<Longrightarrow> reaches step t u \<Longrightarrow> reaches step s u"
  by (rule reaches_compose [OF _ reaches_step [OF reaches_refl]])

text \<open>
  The contract of a state machine with an invariant: what a component shows of its step
  relation, and what every client of a component then has of each reachable state.
\<close>

locale invariant_system =
  fixes init :: "'s \<Rightarrow> bool" and step :: "'s \<Rightarrow> 's \<Rightarrow> bool" and inv :: "'s \<Rightarrow> bool"
  assumes inv_init: "init s \<Longrightarrow> inv s"
    and inv_step: "inv s \<Longrightarrow> step s t \<Longrightarrow> inv t"
begin

lemma inv_reaches: "reaches step s t \<Longrightarrow> inv s \<Longrightarrow> inv t"
  by (induction rule: reaches.induct) (auto intro: inv_step)

lemma inv_reachable: "init s \<Longrightarrow> reaches step s t \<Longrightarrow> inv t"
  by (rule inv_reaches) (auto intro: inv_init)

end

text \<open>
  A second system that a first one refines: every step of the first is matched by a step of the second or by
  none, as long as the invariant of the first holds.  Then each of its runs is matched by a run.
\<close>

locale simulation = invariant_system init step inv
  for init :: "'s \<Rightarrow> bool" and step :: "'s \<Rightarrow> 's \<Rightarrow> bool" and inv :: "'s \<Rightarrow> bool" +
  fixes spec_step :: "'a \<Rightarrow> 'a \<Rightarrow> bool" and represents :: "'s \<Rightarrow> 'a \<Rightarrow> bool"
  assumes matched: "inv s \<Longrightarrow> represents s a \<Longrightarrow> step s t \<Longrightarrow> represents t a \<or> (\<exists>b. spec_step a b \<and> represents t b)"
begin

lemma run_matched: "reaches step s t \<Longrightarrow> inv s \<Longrightarrow> represents s a \<Longrightarrow> \<exists>b. reaches spec_step a b \<and> represents t b"
proof (induction rule: reaches.induct)
  case (reaches_step t u)
  obtain b where b: "reaches spec_step a b" "represents t b" using reaches_step.IH [OF reaches_step.prems] by (elim exE conjE) (rule that)
  have "inv t" by (rule inv_reaches [OF reaches_step.hyps(1) reaches_step.prems(1)])
  from matched [OF this b(2) reaches_step.hyps(2)] show ?case
  proof (elim disjE exE conjE)
    assume "represents u b"
    with b(1) show ?thesis by (intro exI conjI)
  next
    fix c assume "spec_step b c" "represents u c"
    then show ?thesis using reaches.reaches_step [OF b(1), of c] by (intro exI conjI)
  qed
qed (rule exI, rule conjI, rule reaches_refl)

lemma refines: "init s \<Longrightarrow> represents s a \<Longrightarrow> reaches step s t \<Longrightarrow> \<exists>b. reaches spec_step a b \<and> represents t b"
  by (rule run_matched [OF _ inv_init])

end

end
