(* ===== verification/Crc32.thy ===== *)
theory Crc32
  imports C_Prelude
begin

text \<open>
  \<^verbatim>\<open>hw01\<close>: the CRC-32 routines (\<^verbatim>\<open>crc.c\<close>), the reading loop (\<^verbatim>\<open>get_crc.c\<close>) and the two programs
  \<^verbatim>\<open>crc32sum\<close> and \<^verbatim>\<open>crc32check\<close>.  The operating system enters as an environment record: what
  \<^verbatim>\<open>open\<close>, the successive \<^verbatim>\<open>read\<close>s and \<^verbatim>\<open>close\<close> return for a file name.
\<close>

section \<open>The context and its operations (crc.c, crc.h)\<close>

record crc32 =
  hash :: u32

definition crc32_reverse :: "u32 \<Rightarrow> u32" where
  "crc32_reverse x0 =
     (let x1 = push_bit 1 (x0 AND 0x55555555) OR (drop_bit 1 x0 AND 0x55555555);
          x2 = push_bit 2 (x1 AND 0x33333333) OR (drop_bit 2 x1 AND 0x33333333);
          x3 = push_bit 4 (x2 AND 0x0F0F0F0F) OR (drop_bit 4 x2 AND 0x0F0F0F0F)
      in push_bit 24 x3 OR push_bit 8 (x3 AND 0xFF00) OR (drop_bit 8 x3 AND 0xFF00) OR drop_bit 24 x3)"

definition crc32_init :: "crc32 \<Rightarrow> crc32" where
  "crc32_init context = context\<lparr>hash := 0xffffffff\<rparr>"

text \<open>The inner loop over \<^verbatim>\<open>j\<close>, with the number of rounds left.\<close>

fun crc32_rounds :: "nat \<Rightarrow> u32 \<Rightarrow> u32 \<Rightarrow> u32" where
  "crc32_rounds 0 byt crc = crc"
| "crc32_rounds (Suc j) byt crc =
     crc32_rounds j (push_bit 1 byt)
       (if sint (crc XOR byt) < 0 then push_bit 1 crc XOR 0x4c11db7 else push_bit 1 crc)"

fun crc32_bytes :: "u32 \<Rightarrow> byte list \<Rightarrow> u32" where
  "crc32_bytes crc [] = crc"
| "crc32_bytes crc (m # mem) = crc32_bytes (crc32_rounds 8 (crc32_reverse (ucast m)) crc) mem"

definition crc32_update :: "crc32 \<Rightarrow> byte list \<Rightarrow> crc32" where
  "crc32_update context buffer = context\<lparr>hash := crc32_bytes (hash context) buffer\<rparr>"

definition crc32_finalize :: "crc32 \<Rightarrow> crc32" where
  "crc32_finalize context = context\<lparr>hash := crc32_reverse (NOT (hash context))\<rparr>"

section \<open>Reading a descriptor (get\_crc.c)\<close>

text \<open>
  The successive results of \<^verbatim>\<open>read\<close> on one descriptor: a block of bytes or an error number.  An
  empty block and the end of the list are the result 0 (end of file).
\<close>

datatype read_result = Block "byte list" | ReadError int

definition BUFFER_SIZE :: nat where "BUFFER_SIZE = 4096"

text \<open>The loop: the last size read (0 or -1), the error number and the context.\<close>

fun read_loop :: "crc32 \<Rightarrow> read_result list \<Rightarrow> int \<times> int \<times> crc32" where
  "read_loop context [] = (0, 0, context)"
| "read_loop context (ReadError e # _) = (- 1, e, context)"
| "read_loop context (Block bs # rs) =
     (if bs = [] then (0, 0, context) else read_loop (crc32_update context bs) rs)"

text \<open>The descriptor is \<open>None\<close> for \<^verbatim>\<open>-1\<close>.\<close>

definition get_crc32 :: "read_result list option \<Rightarrow> crc32 \<Rightarrow> event list \<times> bool \<times> crc32" where
  "get_crc32 fd context =
     (case fd of
        None \<Rightarrow> ([], False, context)
      | Some rs \<Rightarrow>
          (let (size, err, context') = read_loop (crc32_init context) rs
           in if size < 0 then ([Error err ''read''], False, context')
              else ([], size = 0, crc32_finalize context')))"

section \<open>The environment of the programs\<close>

text \<open>
  \<open>open_reads name\<close> is the error number of \<^verbatim>\<open>open(name, O_RDONLY)\<close> or the results of the
  reads that follow; \<open>close_err\<close> gives 0 or the error number of \<^verbatim>\<open>close\<close>.
\<close>

record file_env =
  open_reads :: "string \<Rightarrow> int + read_result list"
  stdin_reads :: "read_result list"
  close_err :: "string \<Rightarrow> int"

definition EBADF :: int where "EBADF = 9"

section \<open>crc32sum.c\<close>

definition hex8 :: "u32 \<Rightarrow> string" where
  "hex8 w = pad_left 8 (CHR ''0'') (show_base 16 (unat w))"

definition sum_line :: "u32 \<Rightarrow> string \<Rightarrow> string" where
  "sum_line w name = hex8 w @ '' '' @ name @ [nl]"

text \<open>
  One round of the loop on an open descriptor: the standard input can be read once, since the
  round closes it (\<^verbatim>\<open>read\<close> and \<^verbatim>\<open>close\<close> then fail with \<^verbatim>\<open>EBADF\<close>).  The context of the round is a
  fresh automatic variable whose initial value is \<open>garbage\<close>.
\<close>

definition sum_one :: "read_result list \<Rightarrow> int \<Rightarrow> crc32 \<Rightarrow> string \<Rightarrow> int \<Rightarrow> event list \<times> int" where
  "sum_one reads close_errno garbage name errors =
     (let (evs, ok, context) = get_crc32 (Some reads) garbage;
          (evs1, errors1) =
            (if ok then ([Stdout (sum_line (hash context) name)], errors)
             else ([Error (case last evs of Error e _ \<Rightarrow> e | _ \<Rightarrow> 0) (''get_crc32('' @ name @ '')'')], errors + 1));
          (evs2, errors2) =
            (if close_errno = 0 then ([], errors1)
             else ([Error close_errno (''fclose('' @ name @ '')'')], errors1 + 1))
      in (evs @ evs1 @ evs2, errors2))"

fun sum_loop :: "file_env \<Rightarrow> crc32 \<Rightarrow> bool \<Rightarrow> string list \<Rightarrow> int \<Rightarrow> event list \<times> int" where
  "sum_loop env garbage stdin_open [] errors = ([], errors)"
| "sum_loop env garbage stdin_open (fn # fns) errors =
     (if fn = ''-'' then
        (let (evs, errors') =
               (if stdin_open then sum_one (stdin_reads env) (close_err env fn) garbage fn errors
                else sum_one [ReadError EBADF] EBADF garbage fn errors);
             (evs', errors'') = sum_loop env garbage False fns errors'
         in (evs @ evs', errors''))
      else case open_reads env fn of
        Inl e \<Rightarrow> (let (evs', errors') = sum_loop env garbage stdin_open fns errors in (Error e fn # evs', errors'))
      | Inr reads \<Rightarrow>
          (let (evs, errors') = sum_one reads (close_err env fn) garbage fn errors;
               (evs', errors'') = sum_loop env garbage stdin_open fns errors'
           in (evs @ evs', errors'')))"

text \<open>\<^verbatim>\<open>main\<close> with the arguments after \<^verbatim>\<open>argv[0]\<close>; the count of errors is computed and dropped.\<close>

definition crc32sum_main :: "file_env \<Rightarrow> crc32 \<Rightarrow> string list \<Rightarrow> event list \<times> int" where
  "crc32sum_main env garbage args =
     (let (evs, errors) = sum_loop env garbage True (if args = [] then [''-''] else args) 0
      in (evs, EXIT_SUCCESS))"

section \<open>crc32check.c\<close>

text \<open>\<^verbatim>\<open>strtok\<close>: the token and the rest of the string, from which the next call goes on.\<close>

definition strtok :: "char list \<Rightarrow> string \<Rightarrow> (string \<times> string) option" where
  "strtok delims s =
     (let t = dropWhile (\<lambda>c. c \<in> set delims) s
      in if t = [] then None
         else Some (takeWhile (\<lambda>c. c \<notin> set delims) t, drop 1 (dropWhile (\<lambda>c. c \<notin> set delims) t)))"

definition parse_line :: "string \<Rightarrow> (string \<times> string) option" where
  "parse_line line =
     (case strtok [CHR '' '', nl] (cstr line) of
        None \<Rightarrow> None
      | Some (crcstr, rest) \<Rightarrow>
          (case strtok [nl] rest of None \<Rightarrow> None | Some (name, _) \<Rightarrow> Some (crcstr, name)))"

definition verify_one :: "file_env \<Rightarrow> crc32 \<Rightarrow> u32 \<Rightarrow> string \<Rightarrow> read_result list \<Rightarrow> event list \<times> int" where
  "verify_one env garbage crc name reads =
     (let (evs, ok, context) = get_crc32 (Some reads) garbage;
          (evs1, n) =
            (if \<not> ok then ([Error (case last evs of Error e _ \<Rightarrow> e | _ \<Rightarrow> 0) name], 1)
             else if crc = hash context then ([Stdout (name @ '': OK'' @ [nl])], 0)
             else ([Stdout (name @ '': FAILED'' @ [nl])], 1));
          evs2 = (if close_err env name = 0 then [] else [Error (close_err env name) name])
      in (evs @ evs1 @ evs2, n))"

fun bundle_loop :: "file_env \<Rightarrow> crc32 \<Rightarrow> string \<Rightarrow> int \<Rightarrow> int \<Rightarrow> string list \<Rightarrow> event list \<times> int" where
  "bundle_loop env garbage fn lineno errors [] = ([], errors)"
| "bundle_loop env garbage fn lineno errors (line # ls) =
     (let lineno' = lineno + 1 in
      case parse_line line of
        None \<Rightarrow> ([Error 0 (fn @ '':'' @ show_int lineno' @ '': invalid format'')], errors + 1)
      | Some (crcstr, name) \<Rightarrow>
          (let (v, endp, _) = strtoull 16 crcstr; crc = word_of_nat v :: u32
           in if endp \<noteq> [] then
                ([Error 0 (fn @ '':'' @ show_int lineno' @ '': invalid hash '' @ [CHR 0x27] @ crcstr @ [CHR 0x27])], errors + 1)
              else case open_reads env name of
                Inl e \<Rightarrow>
                  (let (evs, n) = bundle_loop env garbage fn lineno' (errors + 1) ls in (Error e name # evs, n))
              | Inr reads \<Rightarrow>
                  (let (evs, k) = verify_one env garbage crc name reads;
                       (evs', n) = bundle_loop env garbage fn lineno' (errors + k) ls
                   in (evs @ evs', n))))"

text \<open>\<open>fdopen_ok\<close> is the success of \<^verbatim>\<open>fdopen\<close>, \<open>bundle\<close> the contents of the stream.\<close>

definition process_bundle :: "file_env \<Rightarrow> crc32 \<Rightarrow> bool \<Rightarrow> string \<Rightarrow> string \<Rightarrow> event list \<times> int" where
  "process_bundle env garbage fdopen_ok fn bundle =
     (if \<not> fdopen_ok then ([], 0)
      else let (evs, errors) = bundle_loop env garbage fn 0 0 (input_lines bundle)
           in (evs @ (if errors \<noteq> 0
                      then [Stdout (''WARNING: there were '' @ show_int errors @ '' errors'' @ [nl])] else []),
               errors))"

text \<open>
  \<^verbatim>\<open>main\<close> with all of \<^verbatim>\<open>argv\<close>: \<open>bundles\<close> gives the contents of the bundle that \<^verbatim>\<open>open\<close> finds under a
  name, \<open>stdin_text\<close> those of the standard input; the last component is the exit status.
\<close>

definition crc32check_main ::
    "file_env \<Rightarrow> crc32 \<Rightarrow> bool \<Rightarrow> (string \<Rightarrow> string option) \<Rightarrow> string \<Rightarrow> string list \<Rightarrow> event list \<times> int" where
  "crc32check_main env garbage fdopen_ok bundles stdin_text argv =
     (case argv of
        [_] \<Rightarrow>
          (let (evs, errors) = process_bundle env garbage fdopen_ok ''stdin'' stdin_text
           in (evs, if errors \<noteq> 0 then EXIT_FAILURE else EXIT_SUCCESS))
      | [_, a] \<Rightarrow>
          (case bundles a of
             None \<Rightarrow> ([Error 0 a], EXIT_FAILURE)
           | Some text \<Rightarrow>
               (let (evs, errors) = process_bundle env garbage fdopen_ok a text
                in if close_err env a \<noteq> 0 then (evs @ [Error (close_err env a) a], EXIT_FAILURE)
                   else (evs, if errors \<noteq> 0 then EXIT_FAILURE else EXIT_SUCCESS)))
      | _ \<Rightarrow> ([Stderr (''usage: '' @ hd (argv @ [[]]) @ '' [BUNDLE]'' @ [nl])], EXIT_FAILURE))"

section \<open>The reference: the reflected CRC-32 of ISO 3309\<close>

definition crc_ref_round :: "u32 \<Rightarrow> u32" where
  "crc_ref_round c = (if bit c 0 then drop_bit 1 c XOR 0xEDB88320 else drop_bit 1 c)"

definition crc_ref_byte :: "u32 \<Rightarrow> byte \<Rightarrow> u32" where
  "crc_ref_byte c b = (crc_ref_round ^^ 8) (c XOR ucast b)"

definition crc_ref :: "byte list \<Rightarrow> u32" where
  "crc_ref bs = NOT (foldl crc_ref_byte 0xffffffff bs)"

section \<open>Bit reversal\<close>

definition swap_bits :: "nat \<Rightarrow> u32 \<Rightarrow> u32 \<Rightarrow> u32" where
  "swap_bits k m x = push_bit k (x AND m) OR (drop_bit k x AND m)"

definition swap_bytes :: "u32 \<Rightarrow> u32" where
  "swap_bytes x = push_bit 24 x OR push_bit 8 (x AND 0xFF00) OR (drop_bit 8 x AND 0xFF00) OR drop_bit 24 x"

lemma crc32_reverse_stages:
  "crc32_reverse x =
     swap_bytes (swap_bits 4 0x0F0F0F0F (swap_bits 2 0x33333333 (swap_bits 1 0x55555555 x)))"
  by (simp only: crc32_reverse_def swap_bits_def swap_bytes_def Let_def)

lemma less_32_cases:
  "n < (32 :: nat) \<Longrightarrow> n \<in> set [0, 1, 2, 3, 4, 5, 6, 7, 8, 9, 10, 11, 12, 13, 14, 15,
     16, 17, 18, 19, 20, 21, 22, 23, 24, 25, 26, 27, 28, 29, 30, 31]"
  by (simp add: nat_less_iff) presburger

lemma bit_swap_bits:
  "n < 32 \<Longrightarrow> bit (swap_bits k m x) n \<longleftrightarrow>
     (k \<le> n \<and> bit x (n - k) \<and> bit m (n - k)) \<or> (n + k < 32 \<and> bit x (n + k) \<and> bit m n)"
  by (auto simp: swap_bits_def bit_simps add.commute dest: bit_imp_le_length)

lemma bit_swap_bytes:
  "n < 32 \<Longrightarrow> bit (swap_bytes x) n \<longleftrightarrow>
     (24 \<le> n \<and> bit x (n - 24)) \<or> (8 \<le> n \<and> bit x (n - 8) \<and> bit (0xFF00 :: u32) (n - 8)) \<or>
     (n + 8 < 32 \<and> bit x (n + 8) \<and> bit (0xFF00 :: u32) n) \<or> (n + 24 < 32 \<and> bit x (n + 24))"
  unfolding swap_bytes_def bit_or_iff bit_and_iff bit_push_bit_iff bit_drop_bit_eq comp_def
  by (auto simp: add.commute dest: bit_imp_le_length)

lemma swap_bits_1:
  "n < 32 \<Longrightarrow> bit (swap_bits 1 0x55555555 x) n = bit x (if even n then n + 1 else n - 1)"
  by (drule less_32_cases) (auto simp: bit_swap_bits)

lemma swap_bits_2:
  "n < 32 \<Longrightarrow> bit (swap_bits 2 0x33333333 x) n = bit x (if n mod 4 < 2 then n + 2 else n - 2)"
  by (drule less_32_cases) (auto simp: bit_swap_bits)

lemma swap_bits_4:
  "n < 32 \<Longrightarrow> bit (swap_bits 4 0x0F0F0F0F x) n = bit x (if n mod 8 < 4 then n + 4 else n - 4)"
  by (drule less_32_cases) (auto simp: bit_swap_bits)

lemma swap_bytes_8: "n < 32 \<Longrightarrow> bit (swap_bytes x) n = bit x (8 * (3 - n div 8) + n mod 8)"
  by (drule less_32_cases) (auto simp: bit_swap_bytes, simp_all add: numeral_2_eq_2)

lemma bit_crc32_reverse: "n < 32 \<Longrightarrow> bit (crc32_reverse x) n = bit x (31 - n)"
  unfolding crc32_reverse_stages
  by (drule less_32_cases)
    (auto simp: swap_bits_1 [simplified] swap_bits_2 swap_bits_4 swap_bytes_8,
      simp_all add: numeral_2_eq_2 numeral_3_eq_3)

lemma u32_eqI: "(\<And>n. n < 32 \<Longrightarrow> bit a n = bit b n) \<Longrightarrow> a = (b :: u32)"
  by (rule bit_word_eqI) simp

lemma crc32_reverse_twice [simp]: "crc32_reverse (crc32_reverse x) = x"
  by (rule u32_eqI) (simp add: bit_crc32_reverse)

lemma crc32_reverse_xor: "crc32_reverse (a XOR b) = crc32_reverse a XOR crc32_reverse b"
  by (rule u32_eqI) (simp add: bit_crc32_reverse bit_xor_iff)

lemma crc32_reverse_not: "crc32_reverse (NOT a) = NOT (crc32_reverse a)"
  by (rule u32_eqI) (auto simp: bit_crc32_reverse bit_not_iff)

lemma crc32_reverse_push: "crc32_reverse (push_bit 1 a) = drop_bit 1 (crc32_reverse a)"
proof (rule u32_eqI)
  fix n :: nat
  assume n: "n < 32"
  have "bit (crc32_reverse (push_bit 1 a)) n \<longleftrightarrow> 1 \<le> 31 - n \<and> bit a (31 - n - 1)"
    unfolding bit_crc32_reverse [OF n] bit_push_bit_iff using n by auto
  also have "\<dots> \<longleftrightarrow> bit (crc32_reverse a) (1 + n)"
  proof (cases "n = 31")
    case True
    then show ?thesis by (auto dest: bit_imp_le_length)
  next
    case False
    with n show ?thesis by (simp add: bit_crc32_reverse Suc_le_eq)
  qed
  finally show "bit (crc32_reverse (push_bit 1 a)) n = bit (drop_bit 1 (crc32_reverse a)) n"
    by (simp only: bit_drop_bit_eq comp_apply)
qed

section \<open>The loop against the reference\<close>

definition msb_round :: "u32 \<Rightarrow> u32" where
  "msb_round z = (if sint z < 0 then push_bit 1 z XOR 0x4c11db7 else push_bit 1 z)"

lemma push_bit_xor_u32: "push_bit n (a XOR b) = push_bit n a XOR (push_bit n b :: u32)"
  by (rule push_bit_xor)

lemma crc32_rounds_msb:
  "crc32_rounds j byt crc = (msb_round ^^ j) (crc XOR byt) XOR push_bit j byt"
proof (induction j arbitrary: byt crc)
  case 0
  show ?case by (simp add: xor.assoc)
next
  case (Suc j)
  have "(if sint (crc XOR byt) < 0 then push_bit 1 crc XOR 0x4c11db7 else push_bit 1 crc) XOR push_bit 1 byt
      = msb_round (crc XOR byt)"
    by (simp only: msb_round_def push_bit_xor_u32 split: if_split) (simp add: xor.assoc xor.commute)
  then show ?case
    by (simp only: crc32_rounds.simps Suc funpow_Suc_right comp_apply push_bit_push_bit) simp
qed

lemma push_reversed_byte: "push_bit 8 (crc32_reverse (ucast (m :: byte))) = 0"
  by (rule u32_eqI) (auto simp: bit_push_bit_iff bit_crc32_reverse bit_simps dest: bit_imp_le_length)

lemma msb_round_reverse: "crc32_reverse (msb_round z) = crc_ref_round (crc32_reverse z)"
proof -
  have poly: "crc32_reverse 0x4c11db7 = 0xEDB88320" by (simp add: crc32_reverse_def)
  have "sint z < 0 \<longleftrightarrow> bit (crc32_reverse z) 0"
    using bit_last_iff [of z] by (simp add: bit_crc32_reverse)
  then show ?thesis
    by (auto simp only: msb_round_def crc_ref_round_def crc32_reverse_xor crc32_reverse_push poly split: if_split)
qed

lemma msb_rounds_reverse: "crc32_reverse ((msb_round ^^ j) z) = (crc_ref_round ^^ j) (crc32_reverse z)"
  by (induction j) (simp_all add: msb_round_reverse)

lemma crc32_bytes_reverse: "crc32_reverse (crc32_bytes crc bs) = foldl crc_ref_byte (crc32_reverse crc) bs"
proof (induction bs arbitrary: crc)
  case (Cons m bs)
  have "crc32_reverse (crc32_rounds 8 (crc32_reverse (ucast m)) crc)
      = (crc_ref_round ^^ 8) (crc32_reverse crc XOR ucast m)"
    by (simp only: crc32_rounds_msb push_reversed_byte xor.right_neutral
        msb_rounds_reverse crc32_reverse_xor crc32_reverse_twice)
  with Cons show ?case by (simp only: crc32_bytes.simps crc_ref_byte_def foldl.simps)
qed simp

lemma crc32_bytes_append: "crc32_bytes crc (xs @ ys) = crc32_bytes (crc32_bytes crc xs) ys"
  by (induction xs arbitrary: crc) simp_all

lemma crc32_hash:
  "hash (crc32_finalize (crc32_update (crc32_init c) bs)) = crc_ref bs"
proof -
  have "crc32_reverse 0xffffffff = 0xffffffff" by (simp add: crc32_reverse_def)
  then show ?thesis
    by (simp add: crc32_finalize_def crc32_update_def crc32_init_def crc_ref_def
        crc32_reverse_not crc32_bytes_reverse)
qed

section \<open>The contract of an incremental digest\<close>

text \<open>
  What a client of the digest needs: data given in pieces counts as its concatenation.  A
  reading loop then computes the digest of the whole file, however the reads cut it.
\<close>

locale incremental_digest =
  fixes init :: "'c \<Rightarrow> 'c" and update :: "'c \<Rightarrow> 'b list \<Rightarrow> 'c" and final :: "'c \<Rightarrow> 'c"
  assumes update_nil: "update c [] = c"
    and update_append: "update c (xs @ ys) = update (update c xs) ys"
begin

lemma foldl_update: "foldl update c bss = update c (concat bss)"
  by (induction bss arbitrary: c) (simp_all add: update_nil update_append)

lemma digest_blocks: "concat bss = concat bss' \<Longrightarrow> final (foldl update (init c) bss) = final (foldl update (init c) bss')"
  by (simp add: foldl_update)

end

interpretation crc: incremental_digest crc32_init crc32_update crc32_finalize
  by unfold_locales (simp_all add: crc32_update_def crc32_bytes_append)

text \<open>A stream of reads that succeeds: non-empty blocks up to the end of file.\<close>

definition clean_reads :: "byte list \<Rightarrow> read_result list \<Rightarrow> bool" where
  "clean_reads bs rs \<longleftrightarrow>
     (\<exists>bss rest. rs = map Block bss @ rest \<and> (rest = [] \<or> hd rest = Block []) \<and> [] \<notin> set bss \<and> concat bss = bs)"

lemma read_loop_blocks:
  "[] \<notin> set bss \<Longrightarrow> rest = [] \<or> hd rest = Block [] \<Longrightarrow>
     read_loop c (map Block bss @ rest) = (0, 0, foldl crc32_update c bss)"
proof (induction bss arbitrary: c)
  case Nil
  then show ?case by (cases rest) auto
qed auto

lemma read_loop_clean: "clean_reads bs rs \<Longrightarrow> read_loop c rs = (0, 0, crc32_update c bs)"
  unfolding clean_reads_def using read_loop_blocks [of _ _ c] by (auto simp: crc.foldl_update)

lemma get_crc32_clean:
  "clean_reads bs rs \<Longrightarrow> get_crc32 (Some rs) c = ([], True, crc32_finalize (crc32_update (crc32_init c) bs))"
  by (simp add: get_crc32_def read_loop_clean)

lemma get_crc32_hash: "clean_reads bs rs \<Longrightarrow> hash (snd (snd (get_crc32 (Some rs) c))) = crc_ref bs"
  by (simp add: get_crc32_clean crc32_hash)

section \<open>The line format\<close>

lemma hex8_nonempty [simp]: "hex8 w \<noteq> []"
  by (simp add: hex8_def pad_left_def)

lemma hex8_digits: "c \<in> set (hex8 w) \<Longrightarrow> is_digit 16 c"
  using show_base_digits [of 16 c "unat w"]
  by (auto simp: hex8_def pad_left_def is_digit_def digit_val_def)

lemma not_digit [simp]:
  "\<not> is_digit 16 (CHR '' '')" "\<not> is_digit 16 nl" "\<not> is_digit 16 nul"
  "\<not> is_digit 16 (CHR ''x'')" "\<not> is_digit 16 (CHR ''X'')" "\<not> is_digit 16 (CHR ''-'')" "\<not> is_digit 16 (CHR ''+'')"
  by (simp_all add: is_digit_def digit_val_def nl_def nul_def)

lemma digit_not_space: "is_digit 16 c \<Longrightarrow> \<not> is_space c"
  by (auto simp: is_space_def is_digit_def digit_val_def)

lemma hex8_hd: "\<exists>c cs. hex8 w = c # cs \<and> is_digit 16 c"
  using hex8_digits [of _ w] hex8_nonempty [of w] by (cases "hex8 w") auto

lemma skip_0x_digits: "list_all (is_digit 16) s \<Longrightarrow> skip_0x 16 s = s"
  by (auto simp: skip_0x_def split: list.splits)

lemma strtoull_hex8: "strtoull 16 (hex8 w) = (unat w, [], False)"
proof -
  have all: "list_all (is_digit 16) (hex8 w)" by (auto simp: list_all_iff dest: hex8_digits)
  obtain c cs where c: "hex8 w = c # cs" "is_digit 16 c" using hex8_hd [of w] by blast
  have "dropWhile is_space (hex8 w) = hex8 w" using c by (simp add: digit_not_space)
  moreover have "take_sign (hex8 w) = (False, hex8 w)" using c by (auto simp: take_sign_def)
  moreover have "takeWhile (is_digit 16) (hex8 w) = hex8 w" "dropWhile (is_digit 16) (hex8 w) = []"
    using all by (auto simp: list_all_iff takeWhile_eq_all_conv)
  moreover have "digits_value 16 (hex8 w) = unat w"
    by (simp add: hex8_def pad_left_def digits_value_zeros digits_value_show_base)
  ultimately have "strto_scan 16 (hex8 w) = Some (False, unat w, [])"
    using hex8_nonempty [of w] by (simp only: strto_scan_def skip_0x_digits [OF all] Let_def prod.case if_False)
  moreover have "unat w \<le> ULLONG_MAX"
    using unsigned_less [of w, where ?'a = nat] by (simp add: ULLONG_MAX_def)
  ultimately show ?thesis by (simp add: strtoull_def)
qed

definition plain_name :: "string \<Rightarrow> bool" where
  "plain_name name \<longleftrightarrow> name \<noteq> [] \<and> nl \<notin> set name \<and> nul \<notin> set name"

lemma takeWhile_stop: "list_all P xs \<Longrightarrow> \<not> P y \<Longrightarrow> takeWhile P (xs @ y # ys) = xs"
  by (simp add: list_all_iff takeWhile_append2)

lemma dropWhile_stop: "list_all P xs \<Longrightarrow> \<not> P y \<Longrightarrow> dropWhile P (xs @ y # ys) = y # ys"
  by (simp add: list_all_iff dropWhile_append2)

lemma strtok_token:
  assumes "list_all (\<lambda>c. c \<notin> set ds) tok" and "tok \<noteq> []" and "d \<in> set ds"
  shows "strtok ds (tok @ d # rest) = Some (tok, rest)"
proof -
  have "dropWhile (\<lambda>c. c \<in> set ds) (tok @ d # rest) = tok @ d # rest"
    using assms by (cases tok) auto
  with assms show ?thesis by (simp add: strtok_def takeWhile_stop dropWhile_stop)
qed

lemma parse_sum_line: "plain_name name \<Longrightarrow> parse_line (sum_line w name) = Some (hex8 w, name)"
proof -
  assume name: "plain_name name"
  have hex: "\<forall>c \<in> set (hex8 w). c \<noteq> nul \<and> c \<noteq> nl \<and> c \<noteq> CHR '' ''"
    by (auto dest!: hex8_digits)
  have "nul \<notin> set (sum_line w name)"
    using hex name by (auto simp: sum_line_def plain_name_def nl_def nul_def)
  then have "cstr (sum_line w name) = hex8 w @ CHR '' '' # name @ [nl]"
    by (simp add: cstr_id sum_line_def)
  moreover have "strtok [CHR '' '', nl] (hex8 w @ CHR '' '' # name @ [nl]) = Some (hex8 w, name @ [nl])"
    using hex by (intro strtok_token) (auto simp: list_all_iff)
  moreover have "strtok [nl] (name @ nl # []) = Some (name, [])"
    using name by (intro strtok_token) (auto simp: list_all_iff plain_name_def)
  ultimately show ?thesis by (simp add: parse_line_def)
qed

lemma sum_line_is_line:
  "plain_name name \<Longrightarrow> input_lines (sum_line w name @ s) = sum_line w name # input_lines s"
proof -
  assume "plain_name name"
  moreover have "\<forall>c \<in> set (hex8 w). c \<noteq> nl" by (auto dest!: hex8_digits)
  ultimately have "nl \<notin> set (hex8 w @ '' '' @ name)" by (auto simp: plain_name_def nl_def)
  from input_lines_line [OF this, of s] show ?thesis by (simp add: sum_line_def)
qed

section \<open>From crc32sum to crc32check\<close>

text \<open>A file that can be opened, read and closed, with contents \<open>bs\<close>.\<close>

definition readable :: "file_env \<Rightarrow> string \<Rightarrow> byte list \<Rightarrow> bool" where
  "readable env name bs \<longleftrightarrow>
     (\<exists>rs. open_reads env name = Inr rs \<and> clean_reads bs rs) \<and> close_err env name = 0"

lemma sum_loop_readable:
  "list_all (\<lambda>n. n \<noteq> ''-'' \<and> readable env n (files n)) names \<Longrightarrow>
     sum_loop env g so names errors =
       (map (\<lambda>n. Stdout (sum_line (crc_ref (files n)) n)) names, errors)"
proof (induction names arbitrary: so)
  case (Cons n names)
  then obtain rs where "open_reads env n = Inr rs" "clean_reads (files n) rs" "close_err env n = 0"
    by (auto simp: readable_def)
  with Cons show ?case by (simp add: sum_one_def get_crc32_clean crc32_hash)
qed simp

lemma verify_readable:
  assumes "open_reads env n = Inr rs" "clean_reads bs rs" "close_err env n = 0"
  shows "verify_one env g w n rs =
    (if w = crc_ref bs then ([Stdout (n @ '': OK'' @ [nl])], 0) else ([Stdout (n @ '': FAILED'' @ [nl])], 1))"
  using assms by (simp add: verify_one_def get_crc32_clean crc32_hash)

text \<open>Checking a bundle of lines \<open>(hash, name)\<close> over readable files: one verdict per line.\<close>

definition verdict :: "(string \<Rightarrow> byte list) \<Rightarrow> u32 \<times> string \<Rightarrow> event" where
  "verdict files p =
     Stdout (snd p @ (if fst p = crc_ref (files (snd p)) then '': OK'' else '': FAILED'') @ [nl])"

lemma bundle_loop_verdicts:
  "list_all (\<lambda>(w, n). plain_name n \<and> readable env n (files n)) ps \<Longrightarrow>
     bundle_loop env g fn k errors (map (\<lambda>(w, n). sum_line w n) ps) =
       (map (verdict files) ps, errors + int (length (filter (\<lambda>(w, n). w \<noteq> crc_ref (files n)) ps)))"
proof (induction ps arbitrary: k errors)
  case (Cons p ps)
  obtain w n where p: "p = (w, n)" by fastforce
  from Cons.prems p obtain rs where rs: "open_reads env n = Inr rs" "clean_reads (files n) rs" "close_err env n = 0"
    and n: "plain_name n" by (auto simp: readable_def)
  have "word_of_nat (unat w) = w" by simp
  with Cons p rs n show ?case
    by (simp add: parse_sum_line strtoull_hex8 verify_readable [OF rs] verdict_def)
qed simp

lemma input_lines_bundle:
  "list_all (\<lambda>(w, n). plain_name n) ps \<Longrightarrow>
     input_lines (concat (map (\<lambda>(w, n). sum_line w n) ps)) = map (\<lambda>(w, n). sum_line w n) ps"
  by (induction ps) (auto simp: sum_line_is_line)

lemma stdout_of_map: "stdout_of (map (\<lambda>x. Stdout (f x)) xs) = concat (map f xs)"
  by (induction xs) simp_all

lemma process_bundle_verdicts:
  assumes "list_all (\<lambda>(w, n). plain_name n \<and> readable env n (files n)) ps"
    and "\<And>w n. (w, n) \<in> set ps \<Longrightarrow> w = crc_ref (files n)"
  shows "process_bundle env g True fn (concat (map (\<lambda>(w, n). sum_line w n) ps)) = (map (verdict files) ps, 0)"
proof -
  have "list_all (\<lambda>(w, n). plain_name n) ps" using assms(1) by (auto simp: list_all_iff)
  moreover have "filter (\<lambda>(w, n). w \<noteq> crc_ref (files n)) ps = []" using assms(2) by (auto simp: filter_empty_conv)
  ultimately show ?thesis
    by (simp add: process_bundle_def input_lines_bundle bundle_loop_verdicts [OF assms(1)])
qed

section \<open>Error detection\<close>

lemma drop_bit_1_inj:
  "bit a 0 = bit b 0 \<Longrightarrow> drop_bit 1 a = drop_bit 1 b \<Longrightarrow> a = (b :: u32)"
proof (rule u32_eqI)
  fix n
  assume h: "bit a 0 = bit b 0" "drop_bit 1 a = drop_bit 1 b"
  show "bit a n = bit b n"
  proof (cases n)
    case 0
    with h(1) show ?thesis by simp
  next
    case (Suc m)
    from h(2) have "bit (drop_bit 1 a) m = bit (drop_bit 1 b) m" by simp
    with Suc show ?thesis by (simp only: bit_drop_bit_eq comp_apply) simp
  qed
qed

lemma crc_ref_round_top: "bit (crc_ref_round a) 31 = bit a 0"
proof -
  have "\<not> bit (drop_bit 1 a) 31"
    by (simp only: bit_drop_bit_eq comp_apply) (auto dest: bit_imp_le_length)
  then show ?thesis by (auto simp: crc_ref_round_def bit_xor_iff)
qed

lemma crc_ref_round_inj: "crc_ref_round a = crc_ref_round b \<Longrightarrow> a = b"
proof (rule drop_bit_1_inj)
  assume eq: "crc_ref_round a = crc_ref_round b"
  then show low: "bit a 0 = bit b 0" using crc_ref_round_top [of a] crc_ref_round_top [of b] by simp
  have cancel: "x XOR p = y XOR p \<Longrightarrow> x = y" for x y p :: u32
    by (metis xor.assoc xor.right_neutral xor_self_eq)
  show "drop_bit 1 a = drop_bit 1 b"
    using eq low by (auto simp only: crc_ref_round_def split: if_splits intro: cancel)
qed

lemma crc_ref_rounds_inj: "(crc_ref_round ^^ k) a = (crc_ref_round ^^ k) b \<Longrightarrow> a = b"
  by (induction k) (auto dest: crc_ref_round_inj)

lemma xor_cancel: "c XOR x = c XOR y \<Longrightarrow> x = (y :: u32)"
  by (metis xor.assoc xor.left_neutral xor_self_eq)

lemma crc_ref_byte_inj_state: "crc_ref_byte c m = crc_ref_byte d m \<Longrightarrow> c = d"
proof -
  assume "crc_ref_byte c m = crc_ref_byte d m"
  then have "c XOR ucast m = d XOR ucast m" unfolding crc_ref_byte_def by (rule crc_ref_rounds_inj)
  then have "ucast m XOR c = ucast m XOR d" by (simp only: xor.commute)
  then show ?thesis by (rule xor_cancel)
qed

lemma crc_ref_byte_inj_byte:
  assumes "crc_ref_byte c m = crc_ref_byte c n"
  shows "m = n"
proof -
  from assms have "c XOR ucast m = c XOR ucast n" unfolding crc_ref_byte_def by (rule crc_ref_rounds_inj)
  then have "(ucast m :: u32) = ucast n" by (rule xor_cancel)
  then have eq: "bit (ucast m :: u32) k = bit (ucast n :: u32) k" for k by simp
  show ?thesis
  proof (rule bit_word_eqI)
    fix k
    assume "k < LENGTH(8)"
    with eq [of k] show "bit m k = bit n k" by (simp add: bit_simps)
  qed
qed

lemma foldl_crc_inj: "foldl crc_ref_byte c bs = foldl crc_ref_byte d bs \<Longrightarrow> c = d"
  by (induction bs arbitrary: c d) (auto dest: crc_ref_byte_inj_state)

lemma crc_ref_one_byte: "m \<noteq> n \<Longrightarrow> crc_ref (xs @ m # ys) \<noteq> crc_ref (xs @ n # ys)"
proof
  assume "m \<noteq> n" and "crc_ref (xs @ m # ys) = crc_ref (xs @ n # ys)"
  then have "foldl crc_ref_byte (crc_ref_byte (foldl crc_ref_byte 0xffffffff xs) m) ys =
      foldl crc_ref_byte (crc_ref_byte (foldl crc_ref_byte 0xffffffff xs) n) ys"
    by (simp add: crc_ref_def)
  then have "m = n" by (intro crc_ref_byte_inj_byte) (rule foldl_crc_inj)
  with \<open>m \<noteq> n\<close> show False by simp
qed

section \<open>The properties\<close>

lemma crc_ref_byte_unfold:
  "crc_ref_byte c b =
     crc_ref_round (crc_ref_round (crc_ref_round (crc_ref_round
       (crc_ref_round (crc_ref_round (crc_ref_round (crc_ref_round (c XOR ucast b))))))))"
  by (simp add: crc_ref_byte_def numeral_eq_Suc)

text \<open>
  C1: whatever way the reads cut a file of contents \<open>bs\<close> into blocks, \<^verbatim>\<open>get_crc32\<close> succeeds without
  a message and leaves in the context the CRC-32 of the whole of \<open>bs\<close>, as the reflected
  reference algorithm of ISO 3309 defines it.
\<close>

theorem get_crc32_reference:
  assumes "clean_reads bs rs"
  shows "get_crc32 (Some rs) c = ([], True, c\<lparr>hash := crc_ref bs\<rparr>)"
proof -
  have "crc32_finalize (crc32_update (crc32_init c) bs) = c\<lparr>hash := crc_ref bs\<rparr>"
    using crc32_hash [of c bs] by (simp add: crc32_finalize_def crc32_update_def crc32_init_def)
  with get_crc32_clean [OF assms] show ?thesis by simp
qed

theorem get_crc32_reference_witness:
  "clean_reads [0x31, 0x32, 0x33] [Block [0x31], Block [0x32, 0x33]] \<and>
     get_crc32 (Some [Block [0x31], Block [0x32, 0x33]]) \<lparr>hash = 7\<rparr> = ([], True, \<lparr>hash = 0x884863D2\<rparr>)"
proof -
  have clean: "clean_reads [0x31, 0x32, 0x33] [Block [0x31], Block [0x32, 0x33]]"
    unfolding clean_reads_def by (rule exI [of _ "[[0x31], [0x32, 0x33]]"]) simp
  have "crc_ref [0x31, 0x32, 0x33] = 0x884863D2"
    by (simp add: crc_ref_def crc_ref_byte_unfold crc_ref_round_def)
  with get_crc32_reference [OF clean, of "\<lparr>hash = 7\<rparr>"] clean show ?thesis by simp
qed

text \<open>
  C2: a bundle written by \<^verbatim>\<open>crc32sum\<close> over files that can be read (with names a line can hold)
  is accepted by \<^verbatim>\<open>crc32check\<close> as long as the files stay the same: it prints one \<^verbatim>\<open>OK\<close> line for each
  file, in order, no warning, and exits with success.
\<close>

theorem sum_check_roundtrip:
  assumes files: "list_all (\<lambda>n. n \<noteq> ''-'' \<and> plain_name n \<and> readable env n (files n)) names"
    and "names \<noteq> []"
    and written: "bundles b = Some (stdout_of (fst (crc32sum_main env g names)))"
    and "close_err env b = 0"
  shows "crc32check_main env g' True bundles stdin_text [prog, b] =
    (map (\<lambda>n. Stdout (n @ '': OK'' @ [nl])) names, EXIT_SUCCESS)"
proof -
  let ?ps = "map (\<lambda>n. (crc_ref (files n), n)) names"
  have "list_all (\<lambda>n. n \<noteq> ''-'' \<and> readable env n (files n)) names"
    using files by (simp add: list_all_iff)
  from sum_loop_readable [OF this] have "stdout_of (fst (crc32sum_main env g names)) =
      concat (map (\<lambda>(w, n). sum_line w n) ?ps)"
    using assms(2) by (simp add: crc32sum_main_def stdout_of_map comp_def)
  moreover have "process_bundle env g' True b (concat (map (\<lambda>(w, n). sum_line w n) ?ps)) =
      (map (verdict files) ?ps, 0)"
    using files by (intro process_bundle_verdicts) (auto simp: list_all_iff)
  ultimately show ?thesis
    using written assms(4) by (simp add: crc32check_main_def verdict_def)
qed

definition demo_env :: file_env where
  "demo_env = \<lparr>open_reads = (\<lambda>n. if n = ''a'' then Inr [Block [0x31], Block [0x32]] else Inl 2),
     stdin_reads = [], close_err = (\<lambda>_. 0)\<rparr>"

lemma demo_env_readable: "readable demo_env ''a'' [0x31, 0x32]"
  unfolding readable_def clean_reads_def demo_env_def
  by (auto intro!: exI [of _ "[[0x31], [0x32]]"])

theorem sum_check_roundtrip_witness:
  "crc32check_main demo_env \<lparr>hash = 0\<rparr> True
     (\<lambda>_. Some (stdout_of (fst (crc32sum_main demo_env \<lparr>hash = 0\<rparr> [''a''])))) [] [''crc32check'', ''b''] =
   ([Stdout (''a: OK'' @ [nl])], EXIT_SUCCESS)"
proof -
  have "list_all (\<lambda>n. n \<noteq> ''-'' \<and> plain_name n \<and> readable demo_env n [0x31, 0x32]) [''a'']"
    by (simp add: plain_name_def nl_def nul_def demo_env_readable)
  from sum_check_roundtrip [OF this, of "\<lambda>_. Some (stdout_of (fst (crc32sum_main demo_env \<lparr>hash = 0\<rparr> [''a''])))"]
  show ?thesis by (simp add: demo_env_def)
qed

text \<open>
  C3: when one byte of a file has changed since its line was written, \<^verbatim>\<open>crc32check\<close> always
  notices: it reports the file as \<^verbatim>\<open>FAILED\<close>, warns of one error and exits with failure.
\<close>

theorem check_detects_changed_byte:
  assumes "m \<noteq> m'" and "plain_name n" and "readable env n (xs @ m' # ys)"
  shows "crc32check_main env g True bundles (sum_line (crc_ref (xs @ m # ys)) n) [prog] =
    ([Stdout (n @ '': FAILED'' @ [nl]), Stdout (''WARNING: there were 1 errors'' @ [nl])], EXIT_FAILURE)"
proof -
  let ?w = "crc_ref (xs @ m # ys)"
  have ne: "?w \<noteq> crc_ref (xs @ m' # ys)" using assms(1) by (rule crc_ref_one_byte)
  have "input_lines (sum_line ?w n) = [sum_line ?w n]"
    using sum_line_is_line [OF assms(2), of ?w "[]"] by simp
  moreover have "bundle_loop env g ''stdin'' 0 0 [sum_line ?w n] = ([Stdout (n @ '': FAILED'' @ [nl])], 1)"
    using bundle_loop_verdicts [of env "\<lambda>_. xs @ m' # ys" "[(?w, n)]" g "''stdin''" 0 0] assms ne
    by (simp add: verdict_def del: bundle_loop.simps)
  ultimately show ?thesis
    by (simp add: crc32check_main_def process_bundle_def c_eval)
qed

theorem check_detects_changed_byte_witness:
  "crc32check_main demo_env \<lparr>hash = 0\<rparr> True (\<lambda>_. None) (sum_line (crc_ref [0x31, 0x33]) ''a'') [''crc32check''] =
    ([Stdout (''a: FAILED'' @ [nl]), Stdout (''WARNING: there were 1 errors'' @ [nl])], EXIT_FAILURE)"
  using check_detects_changed_byte [of "0x33" "0x32" "''a''" demo_env "[0x31]" "[]"] demo_env_readable
  by (simp add: plain_name_def nl_def nul_def)

text \<open>The count of errors does not reach the exit status of \<^verbatim>\<open>crc32sum\<close>.\<close>

lemma crc32sum_ignores_errors:
  "snd (sum_loop demo_env \<lparr>hash = 0\<rparr> True [''-'', ''-''] 0) = 2 \<and>
     snd (crc32sum_main demo_env \<lparr>hash = 0\<rparr> [''-'', ''-'']) = EXIT_SUCCESS"
  by (simp add: crc32sum_main_def sum_one_def get_crc32_def demo_env_def EBADF_def)

end
