(* ===== verification/Guess.thy ===== *)
theory Guess
  imports C_Prelude "HOL-Library.Multiset"
begin

text \<open>
  \<^verbatim>\<open>hw02\<close>: the guessing game.  A strategy is a shared library with the four functions of
  \<^verbatim>\<open>strategy.h\<close>, which the program calls through pointers (\<^verbatim>\<open>struct strategy_impl\<close>); the model
  keeps them as a record of functions over an untyped \<^verbatim>\<open>void *\<close> state.  The three libraries
  \<^verbatim>\<open>libbinary\<close>, \<^verbatim>\<open>liblinear\<close>, \<^verbatim>\<open>liboracle\<close>, the loading of libraries, the clean-up and the game
  loop are modelled; the pseudo-random generator and the dynamic loader are parameters.
\<close>

section \<open>The C library's random numbers\<close>

text \<open>\<open>'w\<close> is the hidden state of \<^verbatim>\<open>rand\<close>.\<close>

record 'w libc =
  c_rand :: "'w \<Rightarrow> int \<times> 'w"
  c_srand :: "int \<Rightarrow> 'w \<Rightarrow> 'w"
  c_time :: int

text \<open>The documented range of \<^verbatim>\<open>rand\<close>.\<close>

definition rand_ok :: "'w libc \<Rightarrow> bool" where
  "rand_ok c \<longleftrightarrow> (\<forall>w. 0 \<le> fst (c_rand c w) \<and> fst (c_rand c w) \<le> INT_MAX)"

section \<open>The state behind the void pointer\<close>

record binary_lib =
  b_min :: int
  b_max :: int

record linear_lib =
  l_min :: int
  l_max :: int
  l_state :: bool

record oracle_lib =
  o_min :: int
  o_max :: int
  o_tries :: u32

datatype void = VBinary binary_lib | VLinear linear_lib | VOracle oracle_lib

text \<open>What the process holds: arrays, loaded libraries, function tables, strategy states.\<close>

datatype held = FunctionsArray | HandlesArray | StrategiesArray | Handle nat | Impl nat | Data nat

record 'w strategy_impl =
  impl_init :: "bool \<Rightarrow> int \<Rightarrow> int \<Rightarrow> void option"
  impl_destroy :: "nat \<Rightarrow> held list \<Rightarrow> held list"
  impl_guess :: "'w libc \<Rightarrow> 'w \<Rightarrow> void \<Rightarrow> (int \<times> 'w) outcome"
  impl_notify :: "void \<Rightarrow> int \<Rightarrow> void outcome"

section \<open>libbinary.c\<close>

text \<open>The first argument of an \<open>init\<close> says whether its \<^verbatim>\<open>malloc\<close> succeeds.\<close>

definition binary_init :: "bool \<Rightarrow> int \<Rightarrow> int \<Rightarrow> void option" where
  "binary_init malloc_ok mn mx = (if \<not> malloc_ok then None else Some (VBinary \<lparr>b_min = mn, b_max = mx\<rparr>))"

definition binary_destroy :: "nat \<Rightarrow> held list \<Rightarrow> held list" where
  "binary_destroy i held = remove1 (Data i) held"

text \<open>\<^verbatim>\<open>(min + max) / 2\<close> in \<^verbatim>\<open>int\<close>, after the members were narrowed from \<^verbatim>\<open>long\<close>.\<close>

definition midpoint :: "binary_lib \<Rightarrow> int outcome" where
  "midpoint lib =
     (let mx = to_int (b_max lib); mn = to_int (b_min lib)
      in if in_int (mn + mx) then Done (c_div (mn + mx) 2) else Fault SignedOverflow)"

fun binary_guess :: "'w libc \<Rightarrow> 'w \<Rightarrow> void \<Rightarrow> (int \<times> 'w) outcome" where
  "binary_guess c w (VBinary lib) = map_outcome (\<lambda>g. (g, w)) (midpoint lib)"
| "binary_guess c w _ = Fault OutOfBounds"

fun binary_notify :: "void \<Rightarrow> int \<Rightarrow> void outcome" where
  "binary_notify (VBinary lib) sign =
     (if sign = 1 then map_outcome (\<lambda>g. VBinary (lib\<lparr>b_min := g\<rparr>)) (midpoint lib)
      else if sign = - 1 then map_outcome (\<lambda>g. VBinary (lib\<lparr>b_max := g\<rparr>)) (midpoint lib)
      else Exit EXIT_FAILURE)"
| "binary_notify _ sign = Fault OutOfBounds"

section \<open>liblinear.c\<close>

definition linear_init :: "bool \<Rightarrow> int \<Rightarrow> int \<Rightarrow> void option" where
  "linear_init malloc_ok mn mx =
     (if \<not> malloc_ok then None else Some (VLinear \<lparr>l_min = mn, l_max = mx, l_state = False\<rparr>))"

definition linear_destroy :: "nat \<Rightarrow> held list \<Rightarrow> held list" where
  "linear_destroy i held = remove1 (Data i) held"

fun linear_guess :: "'w libc \<Rightarrow> 'w \<Rightarrow> void \<Rightarrow> (int \<times> 'w) outcome" where
  "linear_guess c w (VLinear lib) = Done (if l_state lib then l_min lib else l_max lib, w)"
| "linear_guess c w _ = Fault OutOfBounds"

fun linear_notify :: "void \<Rightarrow> int \<Rightarrow> void outcome" where
  "linear_notify (VLinear lib) sign =
     (let lib' = lib\<lparr>l_state := \<not> l_state lib\<rparr>
      in if \<not> l_state lib'
         then if l_min lib' + 1 > LONG_MAX then Fault SignedOverflow else Done (VLinear (lib'\<lparr>l_min := l_min lib' + 1\<rparr>))
         else if l_max lib' - 1 < LONG_MIN then Fault SignedOverflow else Done (VLinear (lib'\<lparr>l_max := l_max lib' - 1\<rparr>)))"
| "linear_notify _ sign = Fault OutOfBounds"

section \<open>liboracle.c\<close>

definition oracle_init :: "bool \<Rightarrow> int \<Rightarrow> int \<Rightarrow> void option" where
  "oracle_init malloc_ok mn mx =
     (if \<not> malloc_ok then None else Some (VOracle \<lparr>o_min = mn, o_max = mx, o_tries = 0\<rparr>))"

definition oracle_destroy :: "nat \<Rightarrow> held list \<Rightarrow> held list" where
  "oracle_destroy i held = remove1 (Data i) held"

fun oracle_guess :: "'w libc \<Rightarrow> 'w \<Rightarrow> void \<Rightarrow> (int \<times> 'w) outcome" where
  "oracle_guess c w (VOracle lib) =
     (let mx = to_int (o_max lib); mn = to_int (o_min lib);
          w1 = (if o_tries lib < 2 then c_srand c (c_time c - uint (o_tries lib)) w else w);
          (r, w2) = c_rand c w1
      in if \<not> in_int (mx - mn) then Fault SignedOverflow
         else if mx - mn = 0 then Fault DivByZero
         else if \<not> in_int (c_mod r (mx - mn) + mn) then Fault SignedOverflow
         else Done (c_mod r (mx - mn) + mn, w2))"
| "oracle_guess c w _ = Fault OutOfBounds"

fun oracle_notify :: "void \<Rightarrow> int \<Rightarrow> void outcome" where
  "oracle_notify (VOracle lib) sign = Done (VOracle (lib\<lparr>o_tries := o_tries lib + 1\<rparr>))"
| "oracle_notify _ sign = Fault OutOfBounds"

definition libbinary :: "'w strategy_impl" where
  "libbinary = \<lparr>impl_init = binary_init, impl_destroy = binary_destroy, impl_guess = binary_guess, impl_notify = binary_notify\<rparr>"

definition liblinear :: "'w strategy_impl" where
  "liblinear = \<lparr>impl_init = linear_init, impl_destroy = linear_destroy, impl_guess = linear_guess, impl_notify = linear_notify\<rparr>"

definition liboracle :: "'w strategy_impl" where
  "liboracle = \<lparr>impl_init = oracle_init, impl_destroy = oracle_destroy, impl_guess = oracle_guess, impl_notify = oracle_notify\<rparr>"

section \<open>utils.c: the game loop\<close>

text \<open>
  The \<^verbatim>\<open>do\<close> loop from the value \<open>counter\<close> of \<^verbatim>\<open>rotating_counter\<close>: the output, and the final
  counter with the states the strategies are left in.
\<close>

function game_rounds :: "'w libc \<Rightarrow> int \<Rightarrow> 'w strategy_impl list \<Rightarrow> 'w \<Rightarrow> void list \<Rightarrow> nat \<Rightarrow>
    event list \<times> (nat \<times> void list) outcome" where
  "game_rounds c number_to_guess fs w sts counter =
     (if fs = [] then ([], Fault DivByZero)
      else let index = counter mod length fs in
        case impl_guess (fs ! index) c w (sts ! index) of
          Exit e \<Rightarrow> ([], Exit e)
        | Fault f \<Rightarrow> ([], Fault f)
        | Done (g, w') \<Rightarrow>
            (let current_guess = to_int g;
                 evs = [Stdout (''Current guess is: '' @ show_int current_guess @ [nl])]
             in if current_guess \<noteq> number_to_guess then
                  (case impl_notify (fs ! index) (sts ! index) (if current_guess < number_to_guess then 1 else - 1) of
                     Exit e \<Rightarrow> (evs, Exit e)
                   | Fault f \<Rightarrow> (evs, Fault f)
                   | Done st' \<Rightarrow>
                       (if counter + 1 < 100
                        then let (evs', r) = game_rounds c number_to_guess fs w' (sts[index := st']) (counter + 1)
                             in (evs @ evs', r)
                        else (evs, Done (counter + 1, sts[index := st']))))
                else (evs @ [Stdout (nl # ''Correct! '')], Done (counter + 1, sts))))"
  by pat_completeness auto
termination
  by (relation "measure (\<lambda>(_, _, _, _, _, counter). 100 - counter)") auto

declare game_rounds.simps [simp del]

definition gameloop :: "'w libc \<Rightarrow> 'w \<Rightarrow> int \<Rightarrow> int \<Rightarrow> 'w strategy_impl list \<Rightarrow> void list \<Rightarrow>
    event list \<times> (nat \<times> void list) outcome" where
  "gameloop c w mn mx fs sts =
     (let (r, w') = c_rand c w in
      if mx - mn = 0 then ([], Fault DivByZero)
      else let number_to_guess = c_mod r (mx - mn) + mn;
               (evs, res) = game_rounds c number_to_guess fs w' sts 0
        in (Stdout (''Number to guess is: '' @ show_int number_to_guess @ [nl, nl]) # evs @
              (case res of Done (n, _) \<Rightarrow> if n \<ge> 100 then [Stdout (nl # ''Failed! '')] else [] | _ \<Rightarrow> []),
            res))"

section \<open>utils.c: clean-up and loading\<close>

definition BUFFER_LENGTH :: nat where "BUFFER_LENGTH = 80"

text \<open>A pointer that may be \<^verbatim>\<open>NULL\<close> is an \<open>option\<close>; \<open>gg_handles\<close> holds which handles are set.\<close>

record 'w guess_game =
  gg_length :: nat
  gg_functions :: "'w strategy_impl option list option"
  gg_handles :: "bool list option"
  gg_strategies :: "void option list option"

text \<open>The loop over \<^verbatim>\<open>destroy\<close>; a table that is \<^verbatim>\<open>NULL\<close> is dereferenced.\<close>

fun destroy_loop :: "'w strategy_impl option list \<Rightarrow> nat \<Rightarrow> held list \<Rightarrow> held list outcome" where
  "destroy_loop [] i held = Done held"
| "destroy_loop (None # fs) i held = Fault NullDeref"
| "destroy_loop (Some f # fs) i held = destroy_loop fs (Suc i) (impl_destroy f i held)"

fun free_impls :: "'w strategy_impl option list \<Rightarrow> nat \<Rightarrow> held list \<Rightarrow> held list" where
  "free_impls [] i held = held"
| "free_impls (None # fs) i held = free_impls fs (Suc i) held"
| "free_impls (Some f # fs) i held = free_impls fs (Suc i) (remove1 (Impl i) held)"

fun close_handles :: "bool list \<Rightarrow> nat \<Rightarrow> held list \<Rightarrow> held list" where
  "close_handles [] i held = held"
| "close_handles (h # hs) i held = (if \<not> h then held else close_handles hs (Suc i) (remove1 (Handle i) held))"

definition cleanup :: "'w guess_game \<Rightarrow> held list \<Rightarrow> held list outcome" where
  "cleanup resources held =
     (case (case gg_functions resources of
              None \<Rightarrow> Done held
            | Some fs \<Rightarrow>
                map_outcome (\<lambda>h. remove1 FunctionsArray (free_impls fs 0 h))
                  (case gg_strategies resources of
                     None \<Rightarrow> Done held
                   | Some _ \<Rightarrow> map_outcome (remove1 StrategiesArray) (destroy_loop fs 0 held))) of
        Done h \<Rightarrow>
          Done (case gg_handles resources of
                  None \<Rightarrow> h
                | Some hs \<Rightarrow> remove1 HandlesArray (close_handles hs 0 h))
      | Exit e \<Rightarrow> Exit e
      | Fault f \<Rightarrow> Fault f)"

text \<open>
  What the system answers: the arrays' \<^verbatim>\<open>calloc\<close>s, the \<^verbatim>\<open>malloc\<close> of each function table and of each
  strategy state, and for a library name either the \<^verbatim>\<open>dlopen\<close> error or the functions found
  together with the error that \<^verbatim>\<open>dlerror\<close> reports after the four \<^verbatim>\<open>dlsym\<close>s.
\<close>

record 'w guess_env =
  ge_functions_ok :: bool
  ge_handles_ok :: bool
  ge_strategies_ok :: bool
  ge_impl_ok :: "nat \<Rightarrow> bool"
  ge_data_ok :: "nat \<Rightarrow> bool"
  ge_dlopen :: "string \<Rightarrow> string + ('w strategy_impl \<times> string option)"

text \<open>
  The loop over the arguments, \<open>i\<close> counting from 0.  \<^verbatim>\<open>sprintf\<close> writes the name and its NUL into 80
  bytes before its result is looked at.  The outcome carries the resources, what is held and
  the return value (\<open>True\<close> is \<^verbatim>\<open>SUCCESS\<close>).
\<close>

fun init_libraries :: "'w guess_env \<Rightarrow> nat \<Rightarrow> string list \<Rightarrow> 'w guess_game \<Rightarrow> held list \<Rightarrow>
    event list \<times> ('w guess_game \<times> held list \<times> bool) outcome" where
  "init_libraries env i [] resources held = ([], Done (resources, held, True))"
| "init_libraries env i (a # as) resources held =
     (let name = ''lib'' @ a @ ''.so'';
          failed = (\<lambda>r h. map_outcome (\<lambda>h'. (r, h', False)) (cleanup r h))
      in if length name + 1 > BUFFER_LENGTH then ([], Fault BufferOverflow)
         else case ge_dlopen env name of
           Inl err \<Rightarrow> ([Stderr (err @ [nl])], failed resources held)
         | Inr (impl, err) \<Rightarrow>
             (let r1 = resources\<lparr>gg_handles := map_option (\<lambda>hs. hs[i := True]) (gg_handles resources)\<rparr>;
                  h1 = Handle i # held
              in if \<not> ge_impl_ok env i then ([Stderr ''Malloc failed''], failed r1 h1)
                 else let h2 = Impl i # h1 in
                 case err of
                   Some e \<Rightarrow> ([Stderr (e @ [nl])], failed r1 h2)
                 | None \<Rightarrow> init_libraries env (Suc i) as
                     (r1\<lparr>gg_functions := map_option (\<lambda>fs. fs[i := Some impl]) (gg_functions r1)\<rparr>) h2))"

section \<open>guess.c\<close>

text \<open>The loop over \<^verbatim>\<open>init\<close>: what is held, and the states unless one allocation failed.\<close>

fun init_strategies :: "'w guess_env \<Rightarrow> nat \<Rightarrow> 'w strategy_impl list \<Rightarrow> int \<Rightarrow> int \<Rightarrow> held list \<Rightarrow> void option list \<times> held list" where
  "init_strategies env i [] mn mx held = ([], held)"
| "init_strategies env i (f # fs) mn mx held =
     (case impl_init f (ge_data_ok env i) mn mx of
        None \<Rightarrow> (replicate (Suc (length fs)) None, held)
      | Some st \<Rightarrow> (let (sts, h) = init_strategies env (Suc i) fs mn mx (Data i # held) in (Some st # sts, h)))"

definition guess_main :: "'w guess_env \<Rightarrow> 'w libc \<Rightarrow> 'w \<Rightarrow> string list \<Rightarrow> event list \<times> (held list \<times> int) outcome" where
  "guess_main env c w args =
     (let n = length args;
          failed = (\<lambda>r h. map_outcome (\<lambda>h'. (h', EXIT_FAILURE)) (cleanup r h))
      in if args = [] then ([Stderr ''no args supplied''], Done ([], EXIT_FAILURE))
      else if \<not> ge_functions_ok env then ([Stderr ''Functions malloc failed!''], Done ([], EXIT_FAILURE))
      else let r0 = \<lparr>gg_length = n, gg_functions = Some (replicate n None), gg_handles = None, gg_strategies = None\<rparr>;
               h0 = [FunctionsArray] in
      if \<not> ge_handles_ok env then ([Stderr ''Handles malloc failed!''], failed r0 h0)
      else case init_libraries env 0 args (r0\<lparr>gg_handles := Some (replicate n False)\<rparr>) (HandlesArray # h0) of
        (evs, Exit e) \<Rightarrow> (evs, Exit e)
      | (evs, Fault f) \<Rightarrow> (evs, Fault f)
      | (evs, Done (r1, h1, ok)) \<Rightarrow>
          (if \<not> ok then (evs, Done (h1, EXIT_FAILURE))
           else if \<not> ge_strategies_ok env then (evs @ [Stderr ''Strategies malloc failed!''], failed r1 h1)
           else let fs = map the (the (gg_functions r1));
                    (sts, h2) = init_strategies env 0 fs 0 100 (StrategiesArray # h1);
                    r2 = r1\<lparr>gg_strategies := Some sts\<rparr>
             in if None \<in> set sts then (evs @ [Stderr ''Malloc in library init failed!''], failed r2 h2)
                else case gameloop c (c_srand c (c_time c) w) 0 100 fs (map the sts) of
                  (gevs, Exit e) \<Rightarrow> (evs @ gevs, Exit e)
                | (gevs, Fault f) \<Rightarrow> (evs @ gevs, Fault f)
                | (gevs, Done (game_length, _)) \<Rightarrow>
                    (evs @ gevs @ [Stdout (''Guessing took '' @ show_nat game_length @ '' tries in total.'' @ [nl])],
                     map_outcome (\<lambda>h'. (h', EXIT_SUCCESS)) (cleanup r2 h2))))"

section \<open>The contract of a strategy\<close>

text \<open>
  What the game loop relies on: with \<open>n\<close> more notifications to come (\<open>ok n\<close>), a guess returns and
  a notification with either sign returns and leaves \<open>n - 1\<close>.
\<close>

locale strategy =
  fixes f :: "'w strategy_impl" and ok :: "nat \<Rightarrow> void \<Rightarrow> bool"
  assumes guess_returns: "rand_ok c \<Longrightarrow> ok n st \<Longrightarrow> \<exists>g w'. impl_guess f c w st = Done (g, w')"
    and notify_returns: "ok (Suc n) st \<Longrightarrow> sign = 1 \<or> sign = - 1 \<Longrightarrow> \<exists>st'. impl_notify f st sign = Done st' \<and> ok n st'"
    and ok_fewer: "ok (Suc n) st \<Longrightarrow> ok n st"
    and init_ok: "impl_init f m 0 100 = Some st \<Longrightarrow> ok 100 st"
begin

lemma ok_le: "ok n st \<Longrightarrow> k \<le> n \<Longrightarrow> ok k st"
proof (induction n)
  case (Suc n)
  then show ?case by (cases "k = Suc n") (auto intro: ok_fewer)
qed simp

end

definition playable :: "nat \<Rightarrow> 'w strategy_impl \<Rightarrow> void \<Rightarrow> bool" where
  "playable n f st \<longleftrightarrow> (\<exists>ok. strategy f ok \<and> ok n st)"

lemma playable_guess: "playable n f st \<Longrightarrow> rand_ok c \<Longrightarrow> \<exists>g w'. impl_guess f c w st = Done (g, w')"
  unfolding playable_def using strategy.guess_returns by metis

lemma playable_notify: "playable (Suc n) f st \<Longrightarrow> sign = 1 \<or> sign = - 1 \<Longrightarrow> \<exists>st'. impl_notify f st sign = Done st' \<and> playable n f st'"
  unfolding playable_def using strategy.notify_returns by metis

lemma playable_fewer: "playable (Suc n) f st \<Longrightarrow> playable n f st"
  unfolding playable_def using strategy.ok_fewer by metis

definition correct_event :: event where "correct_event = Stdout (nl # ''Correct! '')"
definition failed_event :: event where "failed_event = Stdout (nl # ''Failed! '')"

lemma announcements_distinct [simp]:
  "correct_event \<noteq> failed_event" "failed_event \<noteq> correct_event"
  "c \<noteq> nl \<Longrightarrow> correct_event \<noteq> Stdout (c # x)" "c \<noteq> nl \<Longrightarrow> failed_event \<noteq> Stdout (c # x)"
  "c \<noteq> nl \<Longrightarrow> Stdout (c # x) \<noteq> correct_event" "c \<noteq> nl \<Longrightarrow> Stdout (c # x) \<noteq> failed_event"
  "CHR ''C'' \<noteq> nl" "CHR ''N'' \<noteq> nl"
  by (auto simp: correct_event_def failed_event_def nl_def)

text \<open>A game of strategies that keep the contract comes to an end without a fault.\<close>

lemma game_safe:
  assumes "rand_ok c" "fs \<noteq> []" "counter < 100" "list_all2 (playable (100 - counter)) fs sts"
  shows "\<exists>evs k sts'. game_rounds c number fs w sts counter = (evs, Done (k, sts')) \<and> counter < k \<and> k \<le> 100 \<and>
    length sts' = length sts \<and> (k < 100 \<longrightarrow> correct_event \<in> set evs) \<and> failed_event \<notin> set evs"
  using assms(3,4)
proof (induction "100 - counter" arbitrary: counter w sts)
  case (Suc d)
  let ?i = "counter mod length fs"
  have i: "?i < length fs" "?i < length sts" using assms(2) list_all2_lengthD [OF Suc.prems(2)]
    by (simp_all add: mod_less_divisor flip: length_greater_0_conv)
  have pl: "playable (Suc d) (fs ! ?i) (sts ! ?i)" using Suc.prems(2) Suc.hyps(2) i list_all2_nthD by fastforce
  obtain g w' where g: "impl_guess (fs ! ?i) c w (sts ! ?i) = Done (g, w')"
    using playable_guess [OF pl assms(1)] by blast
  show ?case
  proof (cases "to_int g = number")
    case True
    with g assms(2) Suc.prems(1) show ?thesis
      by (subst game_rounds.simps) (auto simp: Let_def correct_event_def [symmetric])
  next
    case False
    have "(if to_int g < number then 1 else - 1) = (1 :: int) \<or> (if to_int g < number then 1 else - 1) = (- 1 :: int)" by simp
    from playable_notify [OF pl this] obtain st' where
      st': "impl_notify (fs ! ?i) (sts ! ?i) (if to_int g < number then 1 else - 1) = Done st'" "playable d (fs ! ?i) st'"
      by blast
    have "list_all2 (playable d) fs (sts[?i := st'])"
      using Suc.prems(2) Suc.hyps(2) st'(2) i
      by (auto simp: list_all2_conv_all_nth nth_list_update intro: playable_fewer)
    moreover have "d = 100 - (counter + 1)" using Suc.hyps(2) by simp
    ultimately have rec: "counter + 1 < 100 \<Longrightarrow> \<exists>evs k sts''. game_rounds c number fs w' (sts[?i := st']) (counter + 1) = (evs, Done (k, sts'')) \<and>
        counter < k \<and> k \<le> 100 \<and> length sts'' = length sts \<and> (k < 100 \<longrightarrow> correct_event \<in> set evs) \<and> failed_event \<notin> set evs"
      using Suc.hyps(1) [of "counter + 1" "sts[?i := st']" w'] by (auto dest: Suc_lessD)
    show ?thesis
    proof (cases "counter + 1 < 100")
      case True
      from rec [OF this] obtain evs k sts'' where "game_rounds c number fs w' (sts[?i := st']) (counter + 1) = (evs, Done (k, sts''))"
        "counter < k" "k \<le> 100" "length sts'' = length sts" "k < 100 \<longrightarrow> correct_event \<in> set evs" "failed_event \<notin> set evs" by blast
      with g st'(1) False True assms(2) show ?thesis by (subst game_rounds.simps) (simp add: Let_def)
    next
      case over: False
      with over g st'(1) False assms(2) Suc.prems(1) show ?thesis by (subst game_rounds.simps) (simp add: Let_def)
    qed
  qed
qed simp

section \<open>The three libraries keep the contract\<close>

definition binary_ok :: "nat \<Rightarrow> void \<Rightarrow> bool" where
  "binary_ok n st \<longleftrightarrow> (case st of VBinary b \<Rightarrow> 0 \<le> b_min b \<and> b_min b \<le> 2 ^ 29 \<and> 0 \<le> b_max b \<and> b_max b \<le> 2 ^ 29 | _ \<Rightarrow> False)"

definition linear_ok :: "nat \<Rightarrow> void \<Rightarrow> bool" where
  "linear_ok n st \<longleftrightarrow> (case st of VLinear l \<Rightarrow> l_min l + int n \<le> LONG_MAX \<and> LONG_MIN \<le> l_max l - int n | _ \<Rightarrow> False)"

definition oracle_ok :: "nat \<Rightarrow> void \<Rightarrow> bool" where
  "oracle_ok n st \<longleftrightarrow> (case st of VOracle lib \<Rightarrow> o_min lib = 0 \<and> o_max lib = 100 | _ \<Rightarrow> False)"

lemma midpoint_ok:
  "0 \<le> b_min b \<Longrightarrow> b_min b \<le> 2 ^ 29 \<Longrightarrow> 0 \<le> b_max b \<Longrightarrow> b_max b \<le> 2 ^ 29 \<Longrightarrow>
     midpoint b = Done ((b_min b + b_max b) div 2)"
  by (simp add: midpoint_def in_int_def INT_MIN_def INT_MAX_def c_div_nonneg)

interpretation bin: strategy libbinary binary_ok
proof unfold_locales
  fix c :: "'a libc" and n st w assume "binary_ok n st"
  then show "\<exists>g w'. impl_guess libbinary c w st = Done (g, w')"
    by (auto simp: binary_ok_def libbinary_def midpoint_ok split: void.splits)
next
  fix n st and sign :: int assume "binary_ok (Suc n) st" "sign = 1 \<or> sign = - 1"
  then show "\<exists>st'. impl_notify libbinary st sign = Done st' \<and> binary_ok n st'"
    by (auto simp: binary_ok_def libbinary_def midpoint_ok split: void.splits)
qed (auto simp: binary_ok_def libbinary_def binary_init_def split: if_splits)

interpretation lin: strategy liblinear linear_ok
proof unfold_locales
  fix n st and sign :: int assume "linear_ok (Suc n) st" "sign = 1 \<or> sign = - 1"
  then show "\<exists>st'. impl_notify liblinear st sign = Done st' \<and> linear_ok n st'"
    by (auto simp: linear_ok_def liblinear_def Let_def split: void.splits)
qed (auto simp: linear_ok_def liblinear_def linear_init_def LONG_MAX_def LONG_MIN_def split: if_splits void.splits)

interpretation ora: strategy liboracle oracle_ok
proof unfold_locales
  fix c :: "'a libc" and n st w assume c: "rand_ok c" and ok: "oracle_ok n st"
  then obtain lib where lib: "st = VOracle lib" "o_min lib = 0" "o_max lib = 100" by (auto simp: oracle_ok_def split: void.splits)
  obtain r w2 where r: "c_rand c (if o_tries lib < 2 then c_srand c (c_time c - uint (o_tries lib)) w else w) = (r, w2)" by fastforce
  with c have "0 \<le> r" unfolding rand_ok_def by (metis fst_conv)
  then have "c_mod r 100 = r mod 100" by (simp add: c_mod_nonneg)
  moreover have "in_int (r mod 100)" by (simp add: in_int_def INT_MIN_def INT_MAX_def) (smt (verit) pos_mod_bound pos_mod_sign)
  moreover have "in_int 100" "in_int 0" by (simp_all add: in_int_def INT_MIN_def INT_MAX_def)
  ultimately show "\<exists>g w'. impl_guess liboracle c w st = Done (g, w')"
    using lib r by (simp add: liboracle_def Let_def)
qed (auto simp: oracle_ok_def liboracle_def oracle_init_def split: if_splits void.splits)

text \<open>\<open>libs\<close> is any mix of the three libraries, each freshly initialised with the range of \<^verbatim>\<open>main\<close>.\<close>

definition fresh_game :: "'w strategy_impl list \<Rightarrow> void list \<Rightarrow> bool" where
  "fresh_game fs sts \<longleftrightarrow> fs \<noteq> [] \<and> set fs \<subseteq> {libbinary, liblinear, liboracle} \<and>
     map Some sts = map (\<lambda>f. impl_init f True 0 100) fs"

lemma fresh_playable:
  assumes "fresh_game fs sts"
  shows "list_all2 (playable 100) fs sts"
proof -
  have "length sts = length fs" using assms unfolding fresh_game_def by (metis length_map)
  moreover have "playable 100 (fs ! i) (sts ! i)" if "i < length fs" for i
  proof -
    have "Some (sts ! i) = impl_init (fs ! i) True 0 100"
      using assms that \<open>length sts = length fs\<close> unfolding fresh_game_def by (metis nth_map)
    then have st: "impl_init (fs ! i) True 0 100 = Some (sts ! i)" by simp
    have "fs ! i \<in> {libbinary, liblinear, liboracle}" using assms nth_mem [OF that] unfolding fresh_game_def by blast
    then show ?thesis unfolding playable_def
      using bin.strategy_axioms lin.strategy_axioms ora.strategy_axioms
        bin.init_ok lin.init_ok ora.init_ok st by (metis insertE singletonD)
  qed
  ultimately show ?thesis by (simp add: list_all2_conv_all_nth)
qed

section \<open>Binary search\<close>

definition guess_line :: "int \<Rightarrow> event" where
  "guess_line g = Stdout (''Current guess is: '' @ show_int g @ [nl])"

lemma guess_line_distinct [simp]: "guess_line g \<noteq> correct_event" "guess_line g \<noteq> failed_event"
    "correct_event \<noteq> guess_line g" "failed_event \<noteq> guess_line g"
  by (simp_all add: guess_line_def)

text \<open>One round of a game with a single library.\<close>

lemma single_hit:
  "impl_guess f c w st = Done (g, w') \<Longrightarrow> in_int g \<Longrightarrow> g = s \<Longrightarrow>
     game_rounds c s [f] w [st] counter = ([guess_line g, correct_event], Done (counter + 1, [st]))"
  by (subst game_rounds.simps) (simp add: Let_def guess_line_def correct_event_def)

lemma single_miss:
  "impl_guess f c w st = Done (g, w') \<Longrightarrow> in_int g \<Longrightarrow> g \<noteq> s \<Longrightarrow>
     impl_notify f st (if g < s then 1 else - 1) = Done st' \<Longrightarrow>
     game_rounds c s [f] w [st] counter =
       (if counter + 1 < 100 then map_prod ((#) (guess_line g)) id (game_rounds c s [f] w' [st'] (counter + 1))
        else ([guess_line g], Done (counter + 1, [st'])))"
  by (subst game_rounds.simps) (simp add: Let_def guess_line_def split_beta map_prod_def)

lemma binary_guess_mid:
  assumes "0 \<le> mn" "mn \<le> mx" "mx \<le> 2 ^ 29"
  shows "impl_guess libbinary c w (VBinary \<lparr>b_min = mn, b_max = mx\<rparr>) = Done ((mn + mx) div 2, w)"
    "in_int ((mn + mx) div 2)"
    "impl_notify libbinary (VBinary \<lparr>b_min = mn, b_max = mx\<rparr>) 1 = Done (VBinary \<lparr>b_min = (mn + mx) div 2, b_max = mx\<rparr>)"
    "impl_notify libbinary (VBinary \<lparr>b_min = mn, b_max = mx\<rparr>) (- 1) = Done (VBinary \<lparr>b_min = mn, b_max = (mn + mx) div 2\<rparr>)"
  using assms by (auto simp: libbinary_def midpoint_ok in_int_def INT_MIN_def INT_MAX_def)

text \<open>
  The interval shrinks to half with each guess; its lower end can only still be the secret if no
  guess was too low, which saves one guess.
\<close>

lemma binary_finds:
  fixes c :: "'w libc"
  assumes "0 \<le> mn" "mx \<le> 2 ^ 29" "mn \<le> s" "s < mx" "counter + Suc k < 100"
    and "mx - mn < 2 ^ Suc k \<or> mn < s \<and> mx - mn \<le> 2 ^ Suc k"
  shows "\<exists>evs j sts. game_rounds c s [libbinary] w [VBinary \<lparr>b_min = mn, b_max = mx\<rparr>] counter = (evs, Done (j, sts)) \<and>
    j \<le> counter + Suc k \<and> correct_event \<in> set evs \<and> failed_event \<notin> set evs"
  using assms
proof (induction k arbitrary: mn mx counter)
  case 0
  then have g: "(mn + mx) div 2 = s" and le: "mn \<le> mx" by auto
  note single_hit [OF binary_guess_mid(1,2) [OF 0(1) le 0(2)] g, of c w counter]
  then show ?case by (intro exI conjI) auto
next
  case (Suc k)
  let ?g = "(mn + mx) div 2" and ?st = "VBinary \<lparr>b_min = mn, b_max = mx\<rparr>"
  have le: "mn \<le> mx" using Suc.prems by auto
  note mid = binary_guess_mid [OF Suc.prems(1) le Suc.prems(2)]
  show ?case
  proof (cases "?g = s")
    case True
    note single_hit [OF mid(1,2) True, of c w counter]
    then show ?thesis by (intro exI conjI) auto
  next
    case False
    define mn' mx' where "mn' = (if ?g < s then ?g else mn)" and "mx' = (if ?g < s then mx else ?g)"
    have nt: "impl_notify (libbinary :: 'w strategy_impl) ?st (if ?g < s then 1 else - 1) = Done (VBinary \<lparr>b_min = mn', b_max = mx'\<rparr>)"
      by (simp add: mn'_def mx'_def mid(3,4))
    have ranges: "0 \<le> mn'" "mx' \<le> 2 ^ 29" "mn' \<le> s" "s < mx'" "counter + 1 + Suc k < 100"
      "mx' - mn' < 2 ^ Suc k \<or> mn' < s \<and> mx' - mn' \<le> 2 ^ Suc k"
      using Suc.prems False by (auto simp: mn'_def mx'_def)
    from Suc.IH [OF this] obtain evs j sts where
      "game_rounds c s [libbinary] w [VBinary \<lparr>b_min = mn', b_max = mx'\<rparr>] (counter + 1) = (evs, Done (j, sts))"
      "j \<le> counter + 1 + Suc k" "correct_event \<in> set evs" "failed_event \<notin> set evs" by blast
    with single_miss [OF mid(1,2) False nt, of c w counter] ranges(5) show ?thesis by auto
  qed
qed

section \<open>Linear search from both ends\<close>

definition linear_at :: "nat \<Rightarrow> bool \<Rightarrow> void" where
  "linear_at k low = VLinear \<lparr>l_min = int k, l_max = 100 - int k - (if low then 1 else 0), l_state = low\<rparr>"

lemma linear_guess_end:
  assumes "k < 50"
  shows "impl_guess liblinear c w (linear_at k low) = Done (if low then int k else 100 - int k, w)"
    "in_int (if low then int k else 100 - int k)"
    "impl_notify liblinear (linear_at k low) sign = Done (if low then linear_at (Suc k) False else linear_at k True)"
  using assms by (auto simp: liblinear_def linear_at_def in_int_def INT_MIN_def INT_MAX_def LONG_MAX_def LONG_MIN_def)

lemma linear_hit:
  assumes "k < 50" "(if low then int k else 100 - int k) = s"
  shows "game_rounds c s [liblinear] w [linear_at k low] counter = ([guess_line s, correct_event], Done (counter + 1, [linear_at k low]))"
  using single_hit [OF linear_guess_end(1,2) [OF assms(1)] assms(2), of c w counter] assms(2) by simp

lemma linear_miss:
  assumes "k < 50" "(if low then int k else 100 - int k) \<noteq> s"
  shows "game_rounds c s [liblinear] w [linear_at k low] counter =
    (if counter + 1 < 100 then map_prod ((#) (guess_line (if low then int k else 100 - int k))) id
        (game_rounds c s [liblinear] w [if low then linear_at (Suc k) False else linear_at k True] (counter + 1))
     else ([guess_line (if low then int k else 100 - int k)], Done (counter + 1, [if low then linear_at (Suc k) False else linear_at k True])))"
  by (rule single_miss [OF linear_guess_end(1,2) [OF assms(1)] assms(2) linear_guess_end(3) [OF assms(1)]])

text \<open>The number of guesses the linear strategy needs for a secret, by the order of its guesses.\<close>

definition linear_tries :: "int \<Rightarrow> nat" where
  "linear_tries s = (if s < 50 then nat (2 * s + 2) else if s = 50 then 100 else nat (2 * (100 - s) + 1))"

lemma linear_finds:
  assumes "k < 50" "int k \<le> s" "s \<le> 100 - int k"
  shows "\<exists>evs sts. game_rounds c s [liblinear] w [linear_at k False] (2 * k) = (evs, Done (linear_tries s, sts)) \<and>
    (correct_event \<in> set evs \<longleftrightarrow> s \<noteq> 50) \<and> failed_event \<notin> set evs"
  using assms
proof (induction "49 - k" arbitrary: k)
  case 0
  then have k: "k = 49" and "s = 49 \<or> s = 50 \<or> s = 51" by auto
  then show ?case
    using linear_hit [of 49 False s c w 98] linear_miss [of 49 False s c w 98]
      linear_hit [of 49 True s c w 99] linear_miss [of 49 True s c w 99]
    by (auto simp: linear_tries_def)
next
  case (Suc d)
  consider "s = 100 - int k" | "s = int k" | "s \<noteq> 100 - int k" "s \<noteq> int k" by blast
  then show ?case
  proof cases
    case 1
    with linear_hit [of k False s c w "2 * k"] Suc show ?thesis by (auto simp: linear_tries_def)
  next
    case 2
    with linear_miss [of k False s c w "2 * k"] linear_hit [of k True s c w "2 * k + 1"] Suc
    show ?thesis by (auto simp: linear_tries_def nat_mult_distrib nat_add_distrib)
  next
    case 3
    have "d = 49 - Suc k" "Suc k < 50" "int (Suc k) \<le> s" "s \<le> 100 - int (Suc k)" using Suc 3 by auto
    from Suc.hyps(1) [OF this] obtain evs sts where
      "game_rounds c s [liblinear] w [linear_at (Suc k) False] (2 * Suc k) = (evs, Done (linear_tries s, sts))"
      "correct_event \<in> set evs \<longleftrightarrow> s \<noteq> 50" "failed_event \<notin> set evs" by auto
    with linear_miss [of k False s c w "2 * k"] linear_miss [of k True s c w "2 * k + 1"] 3 \<open>Suc k < 50\<close>
    show ?thesis by auto
  qed
qed

section \<open>What the program holds\<close>

definition known_library :: "'w strategy_impl \<Rightarrow> bool" where
  "known_library f \<longleftrightarrow> f = libbinary \<or> f = liblinear \<or> f = liboracle"

lemma known_destroy [simp]: "known_library f \<Longrightarrow> impl_destroy f i held = remove1 (Data i) held"
  by (auto simp: known_library_def libbinary_def liblinear_def liboracle_def binary_destroy_def linear_destroy_def oracle_destroy_def)

lemma known_init: "known_library f \<Longrightarrow> impl_init f m mn mx = None \<longleftrightarrow> \<not> m"
  by (auto simp: known_library_def libbinary_def liblinear_def liboracle_def binary_init_def linear_init_def oracle_init_def)

primrec from_upto :: "(nat \<Rightarrow> held) \<Rightarrow> nat \<Rightarrow> nat \<Rightarrow> held multiset" where
  "from_upto f i 0 = {#}"
| "from_upto f i (Suc k) = add_mset (f i) (from_upto f (Suc i) k)"

lemma from_upto_snoc: "add_mset (f (i + k)) (from_upto f i k) = from_upto f i (Suc k)"
proof (induction k arbitrary: i)
  case (Suc k)
  from Suc [of "Suc i"] show ?case by (simp add: add_mset_commute)
qed simp

lemma from_upto_range: "x \<in># from_upto f i k \<Longrightarrow> \<exists>j. x = f j"
  by (induction k arbitrary: i) auto

lemma free_impls_None [simp]: "free_impls (replicate k None) i held = held"
  by (induction k arbitrary: i) auto

lemma free_impls_mset:
  "mset (free_impls (map Some fs @ replicate k None) i held) = mset held - from_upto Impl i (length fs)"
  by (induction fs arbitrary: i held) simp_all

lemma close_handles_mset:
  "mset (close_handles (replicate a True @ replicate b False) i held) = mset held - from_upto Handle i a"
proof (induction a arbitrary: i held)
  case 0
  then show ?case by (cases b) auto
qed simp

lemma destroy_loop_mset:
  "list_all known_library fs \<Longrightarrow>
     \<exists>h. destroy_loop (map Some fs) i held = Done h \<and> mset h = mset held - from_upto Data i (length fs)"
proof (induction fs arbitrary: i held)
  case (Cons f fs)
  then show ?case using Cons.IH [of "Suc i" "remove1 (Data i) held"] by auto
qed simp

text \<open>The tables and handles of the first \<open>length fs\<close> libraries are in place, \<open>a\<close> handles are open.\<close>

definition loaded :: "nat \<Rightarrow> 'w strategy_impl list \<Rightarrow> nat \<Rightarrow> 'w guess_game \<Rightarrow> bool" where
  "loaded n fs a r \<longleftrightarrow> list_all known_library fs \<and> length fs \<le> n \<and> a \<le> n \<and>
     gg_functions r = Some (map Some fs @ replicate (n - length fs) None) \<and>
     gg_handles r = Some (replicate a True @ replicate (n - a) False)"

lemma cleanup_early:
  assumes "loaded n fs a r" "gg_strategies r = None"
    "mset held = X + {#FunctionsArray, HandlesArray#} + from_upto Impl 0 (length fs) + from_upto Handle 0 a"
  shows "\<exists>h. cleanup r held = Done h \<and> mset h = X"
proof -
  let ?h1 = "remove1 FunctionsArray (free_impls (map Some fs @ replicate (n - length fs) None) 0 held)"
  let ?h = "remove1 HandlesArray (close_handles (replicate a True @ replicate (n - a) False) 0 ?h1)"
  have "cleanup r held = Done ?h" using assms(1,2) by (simp add: cleanup_def loaded_def)
  moreover have "mset ?h1 = X + {#HandlesArray#} + from_upto Handle 0 a"
    using assms(3) by (simp add: free_impls_mset)
  then have "mset ?h = X" by (simp add: close_handles_mset)
  ultimately show ?thesis by blast
qed

lemma disjoint_minus: "(\<And>x. x \<in># D \<Longrightarrow> x \<notin># A) \<Longrightarrow> A + (D - Y) - D = A"
proof (rule multiset_eqI)
  fix x assume "\<And>x. x \<in># D \<Longrightarrow> x \<notin># A"
  then have "count D x = 0 \<or> count A x = 0" by (metis not_in_iff)
  then show "count (A + (D - Y) - D) x = count A x" by auto
qed

lemma cleanup_late:
  assumes "loaded n fs n r" "length fs = n" "gg_strategies r = Some sts"
    "mset held + Y = {#FunctionsArray, HandlesArray, StrategiesArray#} + from_upto Impl 0 n + from_upto Handle 0 n + from_upto Data 0 n"
    "Y \<subseteq># from_upto Data 0 n"
  shows "cleanup r held = Done []"
proof -
  have fs: "gg_functions r = Some (map Some fs)" "gg_handles r = Some (replicate n True)" "list_all known_library fs"
    using assms(1,2) by (simp_all add: loaded_def)
  obtain h where h: "destroy_loop (map Some fs) 0 held = Done h" "mset h = mset held - from_upto Data 0 n"
    using destroy_loop_mset [OF fs(3), of 0 held] assms(2) by auto
  have held: "mset held = {#FunctionsArray, HandlesArray, StrategiesArray#} + from_upto Impl 0 n + from_upto Handle 0 n + (from_upto Data 0 n - Y)"
    using assms(4,5) by (metis add_diff_cancel_right' subset_mset.add_diff_assoc)
  have m: "mset h = {#FunctionsArray, HandlesArray, StrategiesArray#} + from_upto Impl 0 n + from_upto Handle 0 n"
    unfolding h(2) held by (rule disjoint_minus) (auto dest!: from_upto_range)
  let ?h1 = "remove1 FunctionsArray (free_impls (map Some fs) 0 (remove1 StrategiesArray h))"
  let ?h2 = "remove1 HandlesArray (close_handles (replicate n True) 0 ?h1)"
  have "cleanup r held = Done ?h2" using fs h(1) assms(3) by (simp add: cleanup_def)
  moreover have "mset ?h1 = {#HandlesArray#} + from_upto Handle 0 n"
    using free_impls_mset [of fs 0 0 "remove1 StrategiesArray h"] assms(2) m by simp
  then have "mset ?h2 = {#}" using close_handles_mset [of n 0 0 ?h1] by simp
  then have "?h2 = []" unfolding mset_zero_iff .
  ultimately show ?thesis by metis
qed

definition libname :: "string \<Rightarrow> string" where
  "libname a = ''lib'' @ a @ ''.so''"

text \<open>The system offers only the three libraries, and all names fit in the buffer.\<close>

definition known_env :: "'w guess_env \<Rightarrow> string list \<Rightarrow> bool" where
  "known_env env args \<longleftrightarrow> (\<forall>name f e. ge_dlopen env name = Inr (f, e) \<longrightarrow> known_library f) \<and>
     (\<forall>a \<in> set args. length a < 74)"

text \<open>A function table stays behind exactly when its library lacks one of the functions.\<close>

definition leaked_table :: "'w guess_env \<Rightarrow> string list \<Rightarrow> held list \<Rightarrow> bool" where
  "leaked_table env args held \<longleftrightarrow> held = [] \<or>
     (\<exists>j < length args. held = [Impl j] \<and> (\<exists>f e. ge_dlopen env (libname (args ! j)) = Inr (f, Some e)))"

definition holds_loaded :: "nat \<Rightarrow> held list \<Rightarrow> bool" where
  "holds_loaded i held \<longleftrightarrow> mset held = {#FunctionsArray, HandlesArray#} + from_upto Impl 0 i + from_upto Handle 0 i"

lemma loaded_step:
  assumes "loaded n fs (length fs) r" "length fs < n" "known_library f"
  shows "loaded n fs (Suc (length fs)) (r\<lparr>gg_handles := map_option (\<lambda>hs. hs[length fs := True]) (gg_handles r)\<rparr>)"
    "loaded n (fs @ [f]) (Suc (length fs)) (r\<lparr>gg_handles := map_option (\<lambda>hs. hs[length fs := True]) (gg_handles r),
       gg_functions := map_option (\<lambda>hs. hs[length fs := Some f]) (gg_functions r)\<rparr>)"
proof -
  obtain k where k: "n - length fs = Suc k" "n - Suc (length fs) = k" using assms(2) by (cases "n - length fs") auto
  have "(replicate (length fs) True @ True # replicate k False) = True # replicate (length fs) True @ replicate k False"
    by (simp add: replicate_app_Cons_same)
  with assms k show "loaded n fs (Suc (length fs)) (r\<lparr>gg_handles := map_option (\<lambda>hs. hs[length fs := True]) (gg_handles r)\<rparr>)"
    "loaded n (fs @ [f]) (Suc (length fs)) (r\<lparr>gg_handles := map_option (\<lambda>hs. hs[length fs := True]) (gg_handles r),
       gg_functions := map_option (\<lambda>hs. hs[length fs := Some f]) (gg_functions r)\<rparr>)"
    by (simp_all add: loaded_def list_update_append)
qed

lemma init_libraries_holds:
  assumes "known_env env args" "loaded (length args) fs (length fs) r" "gg_strategies r = None"
    "holds_loaded (length fs) held" "as = drop (length fs) args"
  shows "\<exists>evs r' held' ok. init_libraries env (length fs) as r held = (evs, Done (r', held', ok)) \<and>
    (if ok then \<exists>gs. length gs = length args \<and> loaded (length args) gs (length args) r' \<and> gg_strategies r' = None \<and>
       holds_loaded (length args) held' else leaked_table env args held')"
  using assms(2-)
proof (induction as arbitrary: fs r held)
  case Nil
  then have "length fs = length args" by (simp add: loaded_def)
  with Nil show ?case by (auto intro!: exI [of _ fs])
next
  case (Cons a as)
  let ?i = "length fs" and ?n = "length args"
  let ?r1 = "r\<lparr>gg_handles := map_option (\<lambda>hs. hs[?i := True]) (gg_handles r)\<rparr>"
  have i: "?i < ?n" and a: "args ! ?i = a" and as: "as = drop (Suc ?i) args"
    using Cons.prems(4) by (metis drop_all list.simps(3) not_le, metis nth_via_drop, metis list.sel(3) tl_drop drop_Suc)
  then have "a \<in> set args" by auto
  with assms(1) have short: "length a < 74" by (simp add: known_env_def)
  have m: "mset held = {#FunctionsArray, HandlesArray#} + from_upto Impl 0 ?i + from_upto Handle 0 ?i"
    using Cons.prems(3) by (simp add: holds_loaded_def)
  show ?case
  proof (cases "ge_dlopen env (libname a)")
    case (Inl err)
    have "mset held = {#} + {#FunctionsArray, HandlesArray#} + from_upto Impl 0 ?i + from_upto Handle 0 ?i" using m by simp
    from cleanup_early [OF Cons.prems(1,2) this] have "cleanup r held = Done []" by auto
    with Inl short show ?thesis by (auto simp: libname_def leaked_table_def BUFFER_LENGTH_def Let_def)
  next
    case (Inr fe)
    then obtain f e where fe: "ge_dlopen env (libname a) = Inr (f, e)" by (cases fe) auto
    with assms(1) have f: "known_library f" by (auto simp: known_env_def)
    note st = loaded_step [OF Cons.prems(1) i f]
    have h: "mset (Handle ?i # held) = {#} + {#FunctionsArray, HandlesArray#} + from_upto Impl 0 ?i + from_upto Handle 0 (Suc ?i)"
      "mset (Impl ?i # Handle ?i # held) = {#Impl ?i#} + {#FunctionsArray, HandlesArray#} + from_upto Impl 0 ?i + from_upto Handle 0 (Suc ?i)"
      using from_upto_snoc [of Handle 0 ?i] m by simp_all
    have s: "gg_strategies ?r1 = None" using Cons.prems(2) by simp
    from cleanup_early [OF st(1) s h(1)] have c1: "cleanup ?r1 (Handle ?i # held) = Done []" by auto
    from cleanup_early [OF st(1) s h(2)] obtain x where "cleanup ?r1 (Impl ?i # Handle ?i # held) = Done x" "mset x = {#Impl ?i#}" by auto
    then have c2: "cleanup ?r1 (Impl ?i # Handle ?i # held) = Done [Impl ?i]" by (simp add: mset_single_iff)
    have "holds_loaded (Suc ?i) (Impl ?i # Handle ?i # held)"
      using h(2) from_upto_snoc [of Impl 0 ?i] by (simp add: holds_loaded_def add_mset_commute)
    then have rec: "\<exists>evs r' held' ok. init_libraries env (Suc ?i) as (?r1\<lparr>gg_functions := map_option (\<lambda>fs. fs[?i := Some f]) (gg_functions r)\<rparr>)
        (Impl ?i # Handle ?i # held) = (evs, Done (r', held', ok)) \<and>
      (if ok then \<exists>gs. length gs = ?n \<and> loaded ?n gs ?n r' \<and> gg_strategies r' = None \<and> holds_loaded ?n held' else leaked_table env args held')"
      using Cons.IH [of "fs @ [f]" "?r1\<lparr>gg_functions := map_option (\<lambda>fs. fs[?i := Some f]) (gg_functions r)\<rparr>" "Impl ?i # Handle ?i # held"]
        st(2) Cons.prems(2) as by simp
    show ?thesis
      using rec fe c1 c2 short a i
      by (cases e; cases "ge_impl_ok env ?i") (auto simp: libname_def leaked_table_def BUFFER_LENGTH_def Let_def)
  qed
qed

lemma init_strategies_holds:
  assumes "list_all known_library fs"
  shows "\<exists>k sts h. init_strategies env i fs 0 100 held = (sts, h) \<and> k \<le> length fs \<and>
    mset h = mset held + from_upto Data i k \<and> (None \<notin> set sts \<longrightarrow> k = length fs \<and> map Some (map the sts) = map (\<lambda>f. impl_init f True 0 100) fs)"
  using assms
proof (induction fs arbitrary: i held)
  case (Cons f fs)
  show ?case
  proof (cases "impl_init f (ge_data_ok env i) 0 100")
    case None
    then show ?thesis by (auto intro!: exI [of _ 0])
  next
    case (Some st)
    with Cons.prems known_init [of f "ge_data_ok env i" 0 100] have ok: "ge_data_ok env i" by auto
    obtain k sts h where "init_strategies env (Suc i) fs 0 100 (Data i # held) = (sts, h)" "k \<le> length fs"
      "mset h = mset (Data i # held) + from_upto Data (Suc i) k"
      "None \<notin> set sts \<longrightarrow> k = length fs \<and> map Some (map the sts) = map (\<lambda>f. impl_init f True 0 100) fs"
      using Cons.IH [of "Suc i" "Data i # held"] Cons.prems by auto
    with Some ok show ?thesis by (auto intro!: exI [of _ "Suc k"])
  qed
qed simp

lemma from_upto_le: "k \<le> n \<Longrightarrow> from_upto f i k \<subseteq># from_upto f i n"
proof (induction n arbitrary: k i)
  case (Suc n)
  then show ?case by (cases k) auto
qed simp

lemma gameloop_safe:
  assumes "rand_ok c" "fresh_game fs sts"
  shows "\<exists>evs n sts'. gameloop c w 0 100 fs sts = (evs, Done (n, sts')) \<and> 1 \<le> n \<and> n \<le> 100 \<and>
    (n < 100 \<longrightarrow> correct_event \<in> set evs) \<and> (failed_event \<in> set evs \<longleftrightarrow> n = 100)"
proof -
  obtain r w' where r: "c_rand c w = (r, w')" by fastforce
  have "fs \<noteq> []" using assms(2) by (simp add: fresh_game_def)
  moreover have "list_all2 (playable (100 - 0)) fs sts" using fresh_playable [OF assms(2)] by simp
  ultimately obtain evs k sts' where
    "game_rounds c (c_mod r 100) fs w' sts 0 = (evs, Done (k, sts'))" "0 < k" "k \<le> 100"
    "k < 100 \<longrightarrow> correct_event \<in> set evs" "failed_event \<notin> set evs"
    using game_safe [of c fs 0 sts "c_mod r 100" w'] assms(1) by auto
  with r show ?thesis by (auto simp: gameloop_def Let_def failed_event_def [symmetric])
qed

section \<open>The properties\<close>

text \<open>
  C15: whatever mix of the three strategy libraries is loaded, and whatever \<^verbatim>\<open>rand\<close> answers, the
  game loop returns, without a fault, after between 1 and 100 guesses; below 100 it has
  announced \<^verbatim>\<open>Correct!\<close>, and it announces \<^verbatim>\<open>Failed!\<close> exactly at 100.
\<close>

theorem gameloop_terminates:
  assumes "rand_ok c" "fs \<noteq> []" "set fs \<subseteq> {libbinary, liblinear, liboracle}" "map Some sts = map (\<lambda>f. impl_init f True 0 100) fs"
  shows "\<exists>evs n sts'. gameloop c w 0 100 fs sts = (evs, Done (n, sts')) \<and> 1 \<le> n \<and> n \<le> 100 \<and>
    (n < 100 \<longrightarrow> correct_event \<in> set evs) \<and> (failed_event \<in> set evs \<longleftrightarrow> n = 100)"
  using gameloop_safe [OF assms(1)] assms(2-) by (simp add: fresh_game_def)

definition demo_libc :: "int libc" where
  "demo_libc = \<lparr>c_rand = (\<lambda>w. (w mod 1000, w + 7)), c_srand = (\<lambda>n w. n), c_time = 42\<rparr>"

lemma demo_rand_ok: "rand_ok demo_libc"
  by (simp add: rand_ok_def demo_libc_def INT_MAX_def) (smt (verit) pos_mod_bound)

theorem gameloop_terminates_witness:
  "\<exists>evs n sts'. gameloop demo_libc 5 0 100 [liboracle, libbinary]
      [VOracle \<lparr>o_min = 0, o_max = 100, o_tries = 0\<rparr>, VBinary \<lparr>b_min = 0, b_max = 100\<rparr>] = (evs, Done (n, sts')) \<and> 1 \<le> n \<and> n \<le> 100"
  using gameloop_terminates [OF demo_rand_ok, of "[liboracle, libbinary]"
      "[VOracle \<lparr>o_min = 0, o_max = 100, o_tries = 0\<rparr>, VBinary \<lparr>b_min = 0, b_max = 100\<rparr>]" 5]
  by (fastforce simp: liboracle_def libbinary_def oracle_init_def binary_init_def)

text \<open>
  C16: played alone, the binary strategy always wins, within 7 guesses.
\<close>

theorem binary_strategy_wins:
  assumes "rand_ok c"
  shows "\<exists>evs n sts. gameloop c w 0 100 [libbinary] [VBinary \<lparr>b_min = 0, b_max = 100\<rparr>] = (evs, Done (n, sts)) \<and>
    n \<le> 7 \<and> correct_event \<in> set evs \<and> failed_event \<notin> set evs"
proof -
  obtain r w' where r: "c_rand c w = (r, w')" by fastforce
  with assms have "0 \<le> r" unfolding rand_ok_def by (metis fst_conv)
  then have s: "c_mod r 100 = r mod 100" "0 \<le> r mod 100" "r mod 100 < 100" by (simp_all add: c_mod_nonneg)
  then obtain evs n sts where
    "game_rounds c (r mod 100) [libbinary] w' [VBinary \<lparr>b_min = 0, b_max = 100\<rparr>] 0 = (evs, Done (n, sts))"
    "n \<le> 7" "correct_event \<in> set evs" "failed_event \<notin> set evs"
    using binary_finds [of 0 100 "r mod 100" 0 6 c w'] by auto
  with r s(1) show ?thesis by (auto simp: gameloop_def Let_def)
qed

theorem binary_strategy_wins_witness:
  "\<exists>evs n sts. gameloop demo_libc 63 0 100 [libbinary] [VBinary \<lparr>b_min = 0, b_max = 100\<rparr>] = (evs, Done (n, sts)) \<and> n \<le> 7"
  using binary_strategy_wins [OF demo_rand_ok, of 63] by blast

text \<open>
  Played alone, the linear strategy guesses 100, 0, 99, 1, ... and needs exactly
  \<open>linear_tries\<close> guesses.  It never finds 50, because the loop stops after 100 guesses, and for 49
  the program announces both \<^verbatim>\<open>Correct!\<close> and \<^verbatim>\<open>Failed!\<close>, since the last guess is also the hundredth.
\<close>

theorem linear_strategy_tries:
  assumes "rand_ok c" "s = fst (c_rand c w) mod 100"
  shows "\<exists>evs sts. gameloop c w 0 100 [liblinear] [VLinear \<lparr>l_min = 0, l_max = 100, l_state = False\<rparr>] = (evs, Done (linear_tries s, sts)) \<and>
    (correct_event \<in> set evs \<longleftrightarrow> s \<noteq> 50) \<and> (failed_event \<in> set evs \<longleftrightarrow> s = 49 \<or> s = 50)"
proof -
  obtain r w' where r: "c_rand c w = (r, w')" by fastforce
  with assms have "0 \<le> r" unfolding rand_ok_def by (metis fst_conv)
  then have s: "c_mod r 100 = s" "0 \<le> s" "s < 100" using r assms(2) by (simp_all add: c_mod_nonneg)
  moreover have "linear_at 0 False = VLinear \<lparr>l_min = 0, l_max = 100, l_state = False\<rparr>" by (simp add: linear_at_def)
  ultimately obtain evs sts where
    "game_rounds c s [liblinear] w' [VLinear \<lparr>l_min = 0, l_max = 100, l_state = False\<rparr>] 0 = (evs, Done (linear_tries s, sts))"
    "correct_event \<in> set evs \<longleftrightarrow> s \<noteq> 50" "failed_event \<notin> set evs"
    using linear_finds [of 0 s c w'] by auto
  moreover have "linear_tries s \<ge> 100 \<longleftrightarrow> s = 49 \<or> s = 50" using s by (auto simp: linear_tries_def)
  ultimately show ?thesis using r s(1) by (auto simp: gameloop_def Let_def failed_event_def [symmetric])
qed

theorem linear_strategy_tries_witness:
  "\<exists>evs sts. gameloop demo_libc 49 0 100 [liblinear] [VLinear \<lparr>l_min = 0, l_max = 100, l_state = False\<rparr>] = (evs, Done (100, sts)) \<and>
    correct_event \<in> set evs \<and> failed_event \<in> set evs"
  using linear_strategy_tries [OF demo_rand_ok, of 49 49] by (simp add: demo_libc_def linear_tries_def)

text \<open>
  C17: for arguments that fit its name buffer, the program always returns, with an exit status,
  never dereferences a null pointer on any of its failure paths, and holds nothing any more, save
  the function table of a library that lacks one of the four functions.
\<close>

theorem guess_main_releases:
  assumes "known_env env args" "rand_ok c"
  shows "\<exists>evs held code. guess_main env c w args = (evs, Done (held, code)) \<and> leaked_table env args held \<and>
    (code = EXIT_SUCCESS \<longrightarrow> held = [])"
proof -
  let ?n = "length args"
  let ?base = "\<lparr>gg_length = ?n, gg_functions = Some (replicate ?n None), gg_handles = None, gg_strategies = None\<rparr> :: 'a guess_game"
  let ?r = "?base\<lparr>gg_handles := Some (replicate ?n False)\<rparr>"
  have nil: "leaked_table env args []" by (simp add: leaked_table_def)
  have c0: "cleanup ?base [FunctionsArray] = Done []" by (simp add: cleanup_def)
  obtain evs r' held' ok where lib: "init_libraries env 0 args ?r [HandlesArray, FunctionsArray] = (evs, Done (r', held', ok))"
    and held': "if ok then \<exists>gs. length gs = ?n \<and> loaded ?n gs ?n r' \<and> gg_strategies r' = None \<and> holds_loaded ?n held' else leaked_table env args held'"
    using init_libraries_holds [OF assms(1), of "[]" ?r "[HandlesArray, FunctionsArray]" args]
    by (fastforce simp: loaded_def holds_loaded_def)
  show ?thesis
  proof (cases "args \<noteq> [] \<and> ge_functions_ok env \<and> ge_handles_ok env \<and> ok")
    case False
    then show ?thesis using nil c0 lib held' by (auto simp: guess_main_def Let_def split: if_splits)
  next
    case True
    then obtain gs where gs: "length gs = ?n" "loaded ?n gs ?n r'" "gg_strategies r' = None" "holds_loaded ?n held'"
      using held' by auto
    have fs: "map the (the (gg_functions r')) = gs" "list_all known_library gs" using gs(1,2) by (simp_all add: loaded_def comp_def)
    have c1: "cleanup r' held' = Done []"
      using cleanup_early [OF gs(2,3), of held' "{#}"] gs(1,4) by (simp add: holds_loaded_def)
    obtain k sts h where i: "init_strategies env 0 gs 0 100 (StrategiesArray # held') = (sts, h)" "k \<le> ?n"
        "mset h = mset (StrategiesArray # held') + from_upto Data 0 k"
        "None \<notin> set sts \<longrightarrow> map Some (map the sts) = map (\<lambda>f. impl_init f True 0 100) gs"
      using init_strategies_holds [OF fs(2), of env 0 "StrategiesArray # held'"] gs(1) by auto
    have le: "from_upto Data 0 k \<subseteq># from_upto Data 0 ?n" using i(2) by (rule from_upto_le)
    have "loaded ?n gs ?n (r'\<lparr>gg_strategies := Some sts\<rparr>)" using gs(2) by (simp add: loaded_def)
    from cleanup_late [OF this gs(1), of sts h "from_upto Data 0 ?n - from_upto Data 0 k"]
    have c2: "cleanup (r'\<lparr>gg_strategies := Some sts\<rparr>) h = Done []"
      using i(3) gs(4) le by (simp add: holds_loaded_def)
    have fresh: "fresh_game gs (map the sts)" if "None \<notin> set sts"
      using i(4) that fs(2) gs(1) True by (auto simp: fresh_game_def list_all_iff known_library_def)
    show ?thesis
    proof (cases "ge_strategies_ok env \<and> None \<notin> set sts")
      case False
      then show ?thesis using True nil c1 c2 lib fs(1) i(1) by (auto simp: guess_main_def Let_def)
    next
      case ok': True
      obtain gevs m sts' where "gameloop c (c_srand c (c_time c) w) 0 100 gs (map the sts) = (gevs, Done (m, sts'))"
        using gameloop_safe [OF assms(2) fresh] ok' by blast
      then show ?thesis using ok' True nil c2 lib fs(1) i(1) by (simp add: guess_main_def Let_def)
    qed
  qed
qed

definition demo_env :: "int guess_env" where
  "demo_env = \<lparr>ge_functions_ok = True, ge_handles_ok = True, ge_strategies_ok = True, ge_impl_ok = (\<lambda>_. True), ge_data_ok = (\<lambda>_. True),
     ge_dlopen = (\<lambda>name. if name = ''libbinary.so'' then Inr (libbinary, None)
        else if name = ''liblinear.so'' then Inr (liblinear, Some ''undefined symbol: notify'') else Inl ''not found'')\<rparr>"

theorem guess_main_releases_witness:
  "(\<exists>evs held code. guess_main demo_env demo_libc 5 [''linear''] = (evs, Done (held, code)) \<and> leaked_table demo_env [''linear''] held) \<and>
   guess_main demo_env demo_libc 5 [''linear''] = ([Stderr (''undefined symbol: notify'' @ [nl])], Done ([Impl 0], EXIT_FAILURE))"
proof -
  have "known_env demo_env [''linear'']" by (simp add: known_env_def demo_env_def known_library_def)
  from guess_main_releases [OF this demo_rand_ok, of 5] show ?thesis
    by (auto simp: guess_main_def demo_env_def cleanup_def Let_def BUFFER_LENGTH_def)
qed

end
