(* ===== verification/Memgrind.thy ===== *)
theory Memgrind
  imports C_Prelude
begin

text \<open>
  \<^verbatim>\<open>hw03\<close>: \<^verbatim>\<open>libmemgrind\<close>, the preloaded allocator that puts a header in front of every block,
  counts allocations and enforces the limits of its environment variables.  The state is the
  library's static data and the headers of the live blocks; the allocator underneath
  (\<^verbatim>\<open>dlsym(RTLD_NEXT, ...)\<close>) is a parameter: for each call, the addresses it would return.  All
  sizes and addresses are \<^verbatim>\<open>size_t\<close> with wrap-around.
\<close>

section \<open>Data (utils.h)\<close>

record memory_statistics =
  total_used :: size_t
  total_freed :: size_t
  allocation_num :: size_t
  dealllocation_num :: size_t
  errors :: size_t
  declined_allocations :: size_t

record service_info =
  block_size :: size_t
  check :: string

text \<open>What the real functions answer to the call at hand; \<open>None\<close> is \<^verbatim>\<open>NULL\<close>.\<close>

record real_functions =
  real_malloc :: "size_t \<Rightarrow> size_t option"
  real_calloc :: "size_t \<Rightarrow> size_t \<Rightarrow> size_t option"
  real_realloc :: "size_t \<Rightarrow> size_t \<Rightarrow> size_t option"

record enviroment_settings =
  memgrind_mem_max :: size_t
  memgrind_alloc_max :: size_t
  memgrind_alloc_count :: size_t

text \<open>\<open>heap\<close> gives the header at the start of each block that the library obtained and still holds.\<close>

record memgrind =
  statistics :: memory_statistics
  allocation_setting :: enviroment_settings
  libc_guard :: bool
  heap :: "size_t \<Rightarrow> service_info option"

abbreviation upd_stats :: "(memory_statistics \<Rightarrow> memory_statistics) \<Rightarrow> memgrind \<Rightarrow> memgrind" where
  "upd_stats f m \<equiv> m\<lparr>statistics := f (statistics m)\<rparr>"

definition CANNARY_WORD :: string where "CANNARY_WORD = ''ZDE''"

definition SERVICE_LENGTH :: size_t where "SERVICE_LENGTH = 16"

definition LOG_ERR :: int where "LOG_ERR = 3"
definition LOG_WARNING :: int where "LOG_WARNING = 4"
definition LOG_INFO :: int where "LOG_INFO = 6"
definition LOG_DEBUG :: int where "LOG_DEBUG = 7"
definition LOG_PID :: int where "LOG_PID = 1"
definition LOG_PERROR :: int where "LOG_PERROR = 32"

definition show_lu :: "size_t \<Rightarrow> string" where "show_lu w = show_nat (unat w)"
definition show_ld :: "size_t \<Rightarrow> string" where "show_ld w = show_int (sint w)"
definition show_p :: "size_t option \<Rightarrow> string" where
  "show_p p = (case p of None \<Rightarrow> ''(nil)'' | Some a \<Rightarrow> ''0x'' @ show_base 16 (unat a))"
definition tab :: char where "tab = CHR 0x09"

section \<open>Settings from the environment (syslog\_parser.c, utils.c)\<close>

definition syslog_priority_map :: "(string \<times> int) list" where
  "syslog_priority_map = [(''EMERG'', 0), (''ALERT'', 1), (''CRIT'', 2), (''ERR'', 3), (''WARNING'', 4),
     (''NOTICE'', 5), (''INFO'', 6), (''DEBUG'', 7)]"

definition parse_log_value :: "string \<Rightarrow> int" where
  "parse_log_value log_val = (case map_of syslog_priority_map log_val of Some p \<Rightarrow> p | None \<Rightarrow> - 1)"

definition get_value :: "(string \<Rightarrow> string option) \<Rightarrow> string \<Rightarrow> event list \<times> size_t outcome" where
  "get_value getenv env_var_name =
     (case getenv env_var_name of
        None \<Rightarrow> ([], Done (- 1))
      | Some env_var \<Rightarrow>
          if is_prefix ''-'' env_var then ([Syslog LOG_ERR (env_var_name @ '' is negative'')], Exit EXIT_FAILURE)
          else let (value, endp, _) = strtol 10 env_var in
          if endp = env_var \<or> endp \<noteq> [] then
            ([Syslog LOG_ERR (env_var_name @ ''='' @ [CHR 0x27] @ env_var @ [CHR 0x27] @ '' is invalid'')], Exit EXIT_FAILURE)
          else ([], Done (word_of_int value)))"

text \<open>The logging set-up: the option of \<^verbatim>\<open>openlog\<close> and the level of \<^verbatim>\<open>setlogmask\<close>.\<close>

record log_setup =
  log_option :: int
  log_level :: int

definition initialise_from_env ::
    "(string \<Rightarrow> string option) \<Rightarrow> event list \<times> (log_setup \<times> enviroment_settings) outcome" where
  "initialise_from_env getenv =
     (let opt = (case getenv ''MEMGRIND_LOG_STDERR'' of
                   Some v \<Rightarrow> if v \<noteq> [] then LOG_PERROR else LOG_PID | None \<Rightarrow> LOG_PID);
          level = (case getenv ''MEMGRIND_LOG_LEVEL'' of Some v \<Rightarrow> parse_log_value v | None \<Rightarrow> LOG_DEBUG)
      in if level = - 1 then
           ([Syslog LOG_ERR (''MEMGRIND_LOG_LEVEL='' @ [CHR 0x27] @ (case getenv ''MEMGRIND_LOG_LEVEL'' of Some v \<Rightarrow> v | None \<Rightarrow> [])
               @ [CHR 0x27] @ '' is invalid'' @ [nl])], Exit EXIT_FAILURE)
         else case get_value getenv ''MEMGRIND_ALLOC_COUNT'' of
           (e1, Exit c) \<Rightarrow> (e1, Exit c) | (e1, Fault f) \<Rightarrow> (e1, Fault f)
         | (e1, Done count) \<Rightarrow>
        (case get_value getenv ''MEMGRIND_ALLOC_MAX'' of
           (e2, Exit c) \<Rightarrow> (e1 @ e2, Exit c) | (e2, Fault f) \<Rightarrow> (e1 @ e2, Fault f)
         | (e2, Done amax) \<Rightarrow>
        (case get_value getenv ''MEMGRIND_MEM_MAX'' of
           (e3, Exit c) \<Rightarrow> (e1 @ e2 @ e3, Exit c) | (e3, Fault f) \<Rightarrow> (e1 @ e2 @ e3, Fault f)
         | (e3, Done mmax) \<Rightarrow>
             (e1 @ e2 @ e3 @ [Syslog LOG_INFO (''mem_max='' @ show_ld mmax @ '' alloc_max='' @ show_ld amax @ '' alloc_count_max='' @ show_ld count)],
              Done (\<lparr>log_option = opt, log_level = level\<rparr>,
                    \<lparr>memgrind_mem_max = mmax, memgrind_alloc_max = amax, memgrind_alloc_count = count\<rparr>)))))"

section \<open>Headers and statistics (utils.c)\<close>

definition initialise_service_block :: "size_t \<Rightarrow> service_info" where
  "initialise_service_block bytes = \<lparr>block_size = bytes, check = CANNARY_WORD\<rparr>"

text \<open>\<^verbatim>\<open>strcmp(...) != 0\<close>; there must be a header at the address.\<close>

definition check_service_validity :: "service_info \<Rightarrow> bool" where
  "check_service_validity info \<longleftrightarrow> check info \<noteq> CANNARY_WORD"

definition print_statistics :: "memory_statistics \<Rightarrow> event list" where
  "print_statistics s =
     [Syslog LOG_DEBUG (''current: '' @ show_lu (total_used s - total_freed s) @ [tab] @ ''total: '' @ show_lu (total_used s) @ [tab] @
        ''freed: '' @ show_lu (total_freed s) @ [tab] @ ''allocations: '' @ show_lu (allocation_num s) @ [tab] @
        ''deallocations: '' @ show_lu (dealllocation_num s) @ [tab] @ ''errors: '' @ show_lu (errors s))]"

definition print_final :: "memory_statistics \<Rightarrow> event list" where
  "print_final s =
     Syslog LOG_INFO (''Final statistics:'' @ [nl] @ ''Current:'' @ [tab, tab] @ show_lu (total_used s - total_freed s) @ [nl] @
        ''Total used:'' @ [tab, tab] @ show_lu (total_used s) @ [nl] @ ''Total freed:'' @ [tab, tab] @ show_lu (total_freed s) @ [nl] @
        ''Allocations:'' @ [tab, tab] @ show_lu (allocation_num s) @ [nl] @ ''Deallocations:'' @ [tab, tab] @ show_lu (dealllocation_num s) @ [nl] @
        ''Errors:'' @ [tab, tab, tab] @ show_lu (errors s) @ [nl] @ ''Declined allocs:'' @ [tab] @ show_lu (declined_allocations s)) #
     (if allocation_num s > dealllocation_num s then
        [Syslog LOG_WARNING (''Possible memory leak of size '' @ show_lu (total_used s - total_freed s) @ '' in '' @
           show_lu (allocation_num s - dealllocation_num s) @ '' blocks'')]
      else [])"

section \<open>The library (libmemgrind.c)\<close>

definition user_to_lib :: "size_t \<Rightarrow> size_t" where "user_to_lib ptr = ptr - SERVICE_LENGTH"
definition lib_to_user :: "size_t \<Rightarrow> size_t" where "lib_to_user ptr = ptr + SERVICE_LENGTH"

definition zero_statistics :: memory_statistics where
  "zero_statistics = \<lparr>total_used = 0, total_freed = 0, allocation_num = 0, dealllocation_num = 0, errors = 0, declined_allocations = 0\<rparr>"

text \<open>\<open>dlsym\<close> tells which of the functions the loader finds, \<open>dlerr\<close> is its message.\<close>

definition read_real_functions :: "(string \<Rightarrow> bool) \<Rightarrow> string \<Rightarrow> event list \<times> unit outcome" where
  "read_real_functions dlsym dlerr =
     (if \<not> dlsym ''calloc'' \<or> \<not> dlsym ''free'' \<or> \<not> dlsym ''malloc'' \<or> \<not> dlsym ''realloc''
      then ([Stderr (''Error in dlsym: '' @ dlerr @ [nl])], Exit EXIT_FAILURE) else ([], Done ()))"

definition library_init ::
    "(string \<Rightarrow> string option) \<Rightarrow> (string \<Rightarrow> bool) \<Rightarrow> string \<Rightarrow> event list \<times> (log_setup \<times> memgrind) outcome" where
  "library_init getenv dlsym dlerr =
     (case read_real_functions dlsym dlerr of
        (evs, Exit c) \<Rightarrow> (evs, Exit c) | (evs, Fault f) \<Rightarrow> (evs, Fault f)
      | (_, Done _) \<Rightarrow>
     (case initialise_from_env getenv of
        (evs, Exit c) \<Rightarrow> (evs, Exit c) | (evs, Fault f) \<Rightarrow> (evs, Fault f)
      | (evs, Done (lg, settings)) \<Rightarrow>
          (evs @ [Syslog LOG_INFO ''library loaded succefully''],
           Done (lg, \<lparr>statistics = zero_statistics, allocation_setting = settings, libc_guard = False, heap = Map.empty\<rparr>))))"

definition library_destroy :: "memgrind \<Rightarrow> event list \<times> memgrind" where
  "library_destroy m =
     (print_final (statistics m) @ [Syslog LOG_INFO ''Memgrind says hello.''], m\<lparr>libc_guard := True\<rparr>)"

definition declined :: "size_t \<Rightarrow> string \<Rightarrow> event" where
  "declined sz why = Syslog LOG_ERR (''Declined allocation of block of size '' @ show_lu sz @ '' ('' @ why @ '')'')"

definition can_alloc :: "size_t \<Rightarrow> memgrind \<Rightarrow> event list \<times> memgrind \<times> bool" where
  "can_alloc sz m =
     (let st = allocation_setting m; s = statistics m;
          refuse = upd_stats (\<lambda>s. s\<lparr>declined_allocations := declined_allocations s + 1\<rparr>) m
      in if memgrind_alloc_max st < sz then ([declined sz ''max_size''], refuse, False)
         else if memgrind_mem_max st < total_used s + sz then ([declined sz ''total_size''], refuse, False)
         else if memgrind_alloc_count st < allocation_num s + 1 then ([declined sz ''alloc_count''], refuse, False)
         else ([], m, True))"

definition enter_guard :: "memgrind \<Rightarrow> event list \<times> memgrind" where
  "enter_guard m = ([Syslog LOG_DEBUG ''Entering guarded space''], m\<lparr>libc_guard := True\<rparr>)"

text \<open>\<^verbatim>\<open>RETURN_FROM_GUARDED\<close>: the events so far, the state and the value returned.\<close>

definition return_from_guarded :: "event list \<Rightarrow> memgrind \<Rightarrow> 'a \<Rightarrow> event list \<times> (memgrind \<times> 'a) outcome" where
  "return_from_guarded evs m v = (evs @ [Syslog LOG_DEBUG ''Leaving guarded space''], Done (m\<lparr>libc_guard := False\<rparr>, v))"

definition alloc_failed :: "memgrind \<Rightarrow> memgrind" where
  "alloc_failed m = upd_stats (\<lambda>s. s\<lparr>errors := errors s + 1\<rparr>) m"

definition count_alloc :: "size_t \<Rightarrow> memgrind \<Rightarrow> memgrind" where
  "count_alloc n m = upd_stats (\<lambda>s. s\<lparr>allocation_num := allocation_num s + 1, total_used := total_used s + n\<rparr>) m"

definition mg_malloc :: "real_functions \<Rightarrow> size_t \<Rightarrow> memgrind \<Rightarrow> event list \<times> (memgrind \<times> size_t option) outcome" where
  "mg_malloc real sz m =
     (if libc_guard m then ([], Done (m, real_malloc real sz))
      else let (e0, m0) = enter_guard m;
               e1 = e0 @ [Syslog LOG_INFO (''malloc('' @ show_lu sz @ '')'')];
               (e2, m2, ok) = can_alloc sz m0
        in if \<not> ok then return_from_guarded (e1 @ e2) m2 None
           else let m3 = count_alloc sz m2 in
           case real_malloc real (sz + SERVICE_LENGTH) of
             None \<Rightarrow> return_from_guarded (e1 @ e2 @ [Syslog LOG_ERR ''malloc failed'']) (alloc_failed m3) None
           | Some memory \<Rightarrow>
               (let m4 = m3\<lparr>heap := (heap m3)(memory \<mapsto> initialise_service_block sz)\<rparr>
                in return_from_guarded (e1 @ e2 @ print_statistics (statistics m4)) m4 (Some (lib_to_user memory))))"

definition mg_calloc :: "real_functions \<Rightarrow> size_t \<Rightarrow> size_t \<Rightarrow> memgrind \<Rightarrow> event list \<times> (memgrind \<times> size_t option) outcome" where
  "mg_calloc real num sz m =
     (if libc_guard m then ([], Done (m, real_calloc real num sz))
      else let (e0, m0) = enter_guard m;
               e1 = e0 @ [Syslog LOG_INFO (''calloc('' @ show_lu num @ '', '' @ show_lu sz @ '')'')];
               (e2, m2, ok) = can_alloc sz m0
        in if \<not> ok then return_from_guarded (e1 @ e2) m2 None
           else let m3 = count_alloc (num * sz) m2 in
           case real_calloc real (num * sz + SERVICE_LENGTH) 1 of
             None \<Rightarrow> return_from_guarded (e1 @ e2 @ [Syslog LOG_ERR ''calloc failed'']) (alloc_failed m3) None
           | Some memory \<Rightarrow>
               (let m4 = m3\<lparr>heap := (heap m3)(memory \<mapsto> initialise_service_block (num * sz))\<rparr>
                in return_from_guarded (e1 @ e2 @ print_statistics (statistics m4)) m4 (Some (lib_to_user memory))))"

definition service_missing :: "memgrind \<Rightarrow> memgrind" where
  "service_missing m = upd_stats (\<lambda>s. s\<lparr>errors := errors s + 1\<rparr>) m"

text \<open>The statistics after a successful \<^verbatim>\<open>real_realloc\<close>.\<close>

definition count_realloc :: "bool \<Rightarrow> size_t \<Rightarrow> size_t \<Rightarrow> memory_statistics \<Rightarrow> memory_statistics" where
  "count_realloc same sz old s =
     (if same then
        if sz \<ge> old then s\<lparr>total_used := total_used s + (sz - old)\<rparr>
        else s\<lparr>total_freed := total_freed s + (old - sz)\<rparr>
      else s\<lparr>allocation_num := allocation_num s + 1, dealllocation_num := dealllocation_num s + 1,
             total_used := total_used s + sz, total_freed := total_freed s + old\<rparr>)"

text \<open>
  A pointer without a header of the library in front of it is dereferenced all the same
  (\<open>OutOfBounds\<close>); a header that was overwritten is recognised.  \<^verbatim>\<open>real_realloc\<close> moves the header.
\<close>

definition mg_realloc :: "real_functions \<Rightarrow> size_t option \<Rightarrow> size_t \<Rightarrow> memgrind \<Rightarrow> event list \<times> (memgrind \<times> size_t option) outcome" where
  "mg_realloc real uptr sz m =
     (case uptr of
        None \<Rightarrow> mg_malloc real sz m
      | Some p \<Rightarrow>
      if libc_guard m then ([], Done (m, real_realloc real p sz))
      else let (e0, m0) = enter_guard m;
               e1 = e0 @ [Syslog LOG_INFO (''realloc('' @ show_p (Some p) @ '', '' @ show_lu sz @ '')'')];
               (e2, m2, ok) = can_alloc sz m0
        in if \<not> ok then return_from_guarded (e1 @ e2) m2 None
           else let ptr = user_to_lib p in
           case heap m2 ptr of
             None \<Rightarrow> (e1 @ e2, Fault OutOfBounds)
           | Some info \<Rightarrow>
               if check_service_validity info then
                 return_from_guarded (e1 @ e2 @ [Syslog LOG_ERR ''service struct missing'']) (service_missing m2) None
               else case real_realloc real ptr (sz + SERVICE_LENGTH) of
                 None \<Rightarrow> return_from_guarded (e1 @ e2 @ [Syslog LOG_ERR ''realloc failed'']) (alloc_failed m2) None
               | Some memory \<Rightarrow>
                   (let m3 = upd_stats (count_realloc (ptr = memory) sz (block_size info)) m2;
                        m4 = m3\<lparr>heap := (heap m3)(ptr := None, memory \<mapsto> info\<lparr>block_size := sz\<rparr>)\<rparr>
                    in return_from_guarded (e1 @ e2 @ print_statistics (statistics m4)) m4 (Some (lib_to_user memory))))"

definition mg_free :: "size_t option \<Rightarrow> memgrind \<Rightarrow> event list \<times> (memgrind \<times> unit) outcome" where
  "mg_free uptr m =
     (if libc_guard m then ([], Done (m, ()))
      else let (e0, m0) = enter_guard m; e1 = e0 @ [Syslog LOG_INFO (''free('' @ show_p uptr @ '')'')]
        in case uptr of
             None \<Rightarrow> return_from_guarded e1 m0 ()
           | Some p \<Rightarrow>
               (let ptr = user_to_lib p in
                case heap m0 ptr of
                  None \<Rightarrow> (e1, Fault OutOfBounds)
                | Some info \<Rightarrow>
                    if check_service_validity info then
                      return_from_guarded (e1 @ [Syslog LOG_ERR ''service struct missing'']) (service_missing m0) ()
                    else let m1 = upd_stats (\<lambda>s. s\<lparr>dealllocation_num := dealllocation_num s + 1,
                                                    total_freed := total_freed s + block_size info\<rparr>) m0;
                             m2 = m1\<lparr>heap := (heap m1)(ptr := None)\<rparr>
                      in return_from_guarded (e1 @ print_statistics (statistics m1)) m2 ()))"

section \<open>Live blocks\<close>

definition live_bytes :: "(size_t \<Rightarrow> service_info option) \<Rightarrow> size_t" where
  "live_bytes h = (\<Sum>a \<in> dom h. block_size (the (h a)))"

definition live_blocks :: "(size_t \<Rightarrow> service_info option) \<Rightarrow> nat" where
  "live_blocks h = card (dom h)"

lemma live_empty [simp]: "live_bytes Map.empty = 0" "live_blocks Map.empty = 0"
  by (simp_all add: live_bytes_def live_blocks_def)

lemma live_insert:
  assumes "h a = None"
  shows "live_bytes (h(a \<mapsto> i)) = live_bytes h + block_size i" "live_blocks (h(a \<mapsto> i)) = Suc (live_blocks h)"
proof -
  have "a \<notin> dom h" using assms by auto
  moreover from this have "(\<Sum>x \<in> dom h. block_size (the ((h(a \<mapsto> i)) x))) = (\<Sum>x \<in> dom h. block_size (the (h x)))"
    by (intro sum.cong) auto
  ultimately show "live_bytes (h(a \<mapsto> i)) = live_bytes h + block_size i" "live_blocks (h(a \<mapsto> i)) = Suc (live_blocks h)"
    by (simp_all add: live_bytes_def live_blocks_def)
qed

lemma live_remove:
  assumes "h a = Some i"
  shows "live_bytes (h(a := None)) = live_bytes h - block_size i" "live_blocks h = Suc (live_blocks (h(a := None)))"
proof -
  have "h = (h(a := None))(a \<mapsto> i)" using assms by auto
  then have "live_bytes h = live_bytes (h(a := None)) + block_size i" "live_blocks h = Suc (live_blocks (h(a := None)))"
    using live_insert [of "h(a := None)" a i] by auto
  then show "live_bytes (h(a := None)) = live_bytes h - block_size i" "live_blocks h = Suc (live_blocks (h(a := None)))"
    by simp_all
qed

text \<open>
  The books balance: bytes in use are the bytes of the live blocks, and, while the number of
  allocations is limited, the difference of the two counters is the number of live blocks.
\<close>

definition acct_inv :: "memgrind \<Rightarrow> bool" where
  "acct_inv m \<longleftrightarrow> \<not> libc_guard m \<and>
     (\<forall>a info. heap m a = Some info \<longrightarrow> check info = CANNARY_WORD) \<and>
     total_used (statistics m) - total_freed (statistics m) = live_bytes (heap m) \<and>
     (memgrind_alloc_count (allocation_setting m) \<noteq> - 1 \<longrightarrow>
        allocation_num (statistics m) \<le> memgrind_alloc_count (allocation_setting m) \<and>
        unat (allocation_num (statistics m)) = unat (dealllocation_num (statistics m)) + live_blocks (heap m))"

text \<open>The documented contract of the allocator underneath: a new block does not overlap a live one.\<close>

definition real_ok :: "real_functions \<Rightarrow> memgrind \<Rightarrow> bool" where
  "real_ok real m \<longleftrightarrow>
     (\<forall>n a. real_malloc real n = Some a \<longrightarrow> heap m a = None) \<and>
     (\<forall>k n a. real_calloc real k n = Some a \<longrightarrow> heap m a = None) \<and>
     (\<forall>p n a. real_realloc real p n = Some a \<longrightarrow> a = p \<or> heap m a = None)"

datatype mop = Malloc size_t | Calloc size_t size_t | Realloc "size_t option" size_t | Free "size_t option"

definition run_mop :: "real_functions \<Rightarrow> mop \<Rightarrow> memgrind \<Rightarrow> event list \<times> (memgrind \<times> size_t option) outcome" where
  "run_mop real p m = (case p of
      Malloc n \<Rightarrow> mg_malloc real n m
    | Calloc k n \<Rightarrow> mg_calloc real k n m
    | Realloc u n \<Rightarrow> mg_realloc real u n m
    | Free u \<Rightarrow> map_prod id (map_outcome (\<lambda>(m', _). (m', None))) (mg_free u m))"

text \<open>A call is legal when the pointer it gives back to the library is \<^verbatim>\<open>NULL\<close> or live.\<close>

definition legal :: "mop \<Rightarrow> memgrind \<Rightarrow> bool" where
  "legal p m \<longleftrightarrow> (case p of Realloc (Some u) _ \<Rightarrow> heap m (user_to_lib u) \<noteq> None
     | Free (Some u) \<Rightarrow> heap m (user_to_lib u) \<noteq> None | _ \<Rightarrow> True)"

text \<open>No new block is refused by the allocator underneath (it may still refuse to resize one).\<close>

definition memory_left :: "real_functions \<Rightarrow> bool" where
  "memory_left real \<longleftrightarrow> (\<forall>n. real_malloc real n \<noteq> None) \<and> (\<forall>k n. real_calloc real k n \<noteq> None)"

inductive mstep :: "memgrind \<Rightarrow> memgrind \<Rightarrow> bool" where
  "real_ok real m \<Longrightarrow> memory_left real \<Longrightarrow> legal p m \<Longrightarrow> run_mop real p m = (evs, Done (m', r)) \<Longrightarrow> mstep m m'"

lemma can_alloc_cases:
  "can_alloc sz m = (evs, m', ok) \<Longrightarrow>
     heap m' = heap m \<and> allocation_setting m' = allocation_setting m \<and> libc_guard m' = libc_guard m \<and>
     total_used (statistics m') = total_used (statistics m) \<and> total_freed (statistics m') = total_freed (statistics m) \<and>
     allocation_num (statistics m') = allocation_num (statistics m) \<and>
     dealllocation_num (statistics m') = dealllocation_num (statistics m) \<and>
     (ok \<longrightarrow> m' = m \<and> sz \<le> memgrind_alloc_max (allocation_setting m) \<and>
        total_used (statistics m) + sz \<le> memgrind_mem_max (allocation_setting m) \<and>
        allocation_num (statistics m) + 1 \<le> memgrind_alloc_count (allocation_setting m))"
  by (auto simp: can_alloc_def Let_def not_less split: if_splits)

lemma word_incr:
  assumes "(x :: size_t) \<le> c" "c \<noteq> - 1"
  shows "unat (x + 1) = Suc (unat x)"
proof -
  have "x \<noteq> - 1" using assms by (metis antisym_conv word_order.extremum)
  then have "1 + x \<noteq> 0" by (metis add_eq_0_iff)
  from unatSuc [OF this] show ?thesis by (simp add: add.commute)
qed

text \<open>A new block of \<open>n\<close> bytes, counted and recorded.\<close>

lemma acct_new_block:
  assumes "acct_inv m" "heap m a = None" "allocation_num (statistics m) + 1 \<le> memgrind_alloc_count (allocation_setting m)"
  shows "acct_inv ((count_alloc n m)\<lparr>heap := (heap m)(a \<mapsto> initialise_service_block n)\<rparr>)"
  using assms word_incr [of "allocation_num (statistics m)" "memgrind_alloc_count (allocation_setting m)"]
  by (auto simp: acct_inv_def count_alloc_def live_insert initialise_service_block_def algebra_simps)

lemma malloc_spec:
  assumes inv: "acct_inv m" and fresh: "\<And>n a. real_malloc real n = Some a \<Longrightarrow> heap m a = None"
    and ok: "\<And>n. real_malloc real n \<noteq> None"
  shows "\<exists>evs m' r. mg_malloc real sz m = (evs, Done (m', r)) \<and> acct_inv m' \<and> allocation_setting m' = allocation_setting m"
proof -
  obtain e2 m2 g where c: "can_alloc sz (m\<lparr>libc_guard := True\<rparr>) = (e2, m2, g)" by (metis prod_cases3)
  note d = can_alloc_cases [OF c]
  obtain a where a: "real_malloc real (sz + SERVICE_LENGTH) = Some a" using ok by fastforce
  have guard: "\<not> libc_guard m" using inv by (simp add: acct_inv_def)
  show ?thesis
  proof (cases g)
    case True
    with d have m2: "m2 = m\<lparr>libc_guard := True\<rparr>" and lim: "allocation_num (statistics m) + 1 \<le> memgrind_alloc_count (allocation_setting m)" by auto
    from acct_new_block [OF inv fresh [OF a] lim, of sz]
    show ?thesis using guard c True a m2
      by (simp add: mg_malloc_def enter_guard_def return_from_guarded_def count_alloc_def Let_def acct_inv_def)
  next
    case False
    with guard c d inv show ?thesis
      by (simp add: mg_malloc_def enter_guard_def return_from_guarded_def Let_def acct_inv_def)
  qed
qed

lemma calloc_spec:
  assumes inv: "acct_inv m" and fresh: "\<And>k n a. real_calloc real k n = Some a \<Longrightarrow> heap m a = None"
    and ok: "\<And>k n. real_calloc real k n \<noteq> None"
  shows "\<exists>evs m' r. mg_calloc real num sz m = (evs, Done (m', r)) \<and> acct_inv m' \<and> allocation_setting m' = allocation_setting m"
proof -
  obtain e2 m2 g where c: "can_alloc sz (m\<lparr>libc_guard := True\<rparr>) = (e2, m2, g)" by (metis prod_cases3)
  note d = can_alloc_cases [OF c]
  obtain a where a: "real_calloc real (num * sz + SERVICE_LENGTH) 1 = Some a" using ok by fastforce
  have guard: "\<not> libc_guard m" using inv by (simp add: acct_inv_def)
  show ?thesis
  proof (cases g)
    case True
    with d have m2: "m2 = m\<lparr>libc_guard := True\<rparr>" and lim: "allocation_num (statistics m) + 1 \<le> memgrind_alloc_count (allocation_setting m)" by auto
    from acct_new_block [OF inv fresh [OF a] lim, of "num * sz"]
    show ?thesis using guard c True a m2
      by (simp add: mg_calloc_def enter_guard_def return_from_guarded_def count_alloc_def Let_def acct_inv_def)
  next
    case False
    with guard c d inv show ?thesis
      by (simp add: mg_calloc_def enter_guard_def return_from_guarded_def Let_def acct_inv_def)
  qed
qed

lemma free_spec:
  assumes inv: "acct_inv m" and live: "\<And>u. uptr = Some u \<Longrightarrow> heap m (user_to_lib u) \<noteq> None"
  shows "\<exists>evs m'. mg_free uptr m = (evs, Done (m', ())) \<and> acct_inv m' \<and> allocation_setting m' = allocation_setting m"
proof (cases uptr)
  case None
  with inv show ?thesis by (simp add: mg_free_def enter_guard_def return_from_guarded_def Let_def acct_inv_def)
next
  case (Some u)
  let ?a = "user_to_lib u"
  obtain info where info: "heap m ?a = Some info" using live [OF Some] by auto
  with inv have chk: "\<not> check_service_validity info" by (auto simp: acct_inv_def check_service_validity_def)
  have n: "unat (dealllocation_num (statistics m) + 1) = Suc (unat (dealllocation_num (statistics m)))"
    if "memgrind_alloc_count (allocation_setting m) \<noteq> - 1"
  proof (rule word_incr [OF _ that])
    show "dealllocation_num (statistics m) \<le> memgrind_alloc_count (allocation_setting m)"
      using inv that by (simp add: acct_inv_def word_le_nat_alt)
  qed
  show ?thesis using Some info chk inv live_remove [of "heap m" ?a info] n
    by (auto simp: mg_free_def enter_guard_def return_from_guarded_def Let_def acct_inv_def algebra_simps)
qed

lemma acct_resized:
  assumes inv: "acct_inv m" and info: "heap m a = Some info" and fresh: "b = a \<or> heap m b = None"
    and lim: "allocation_num (statistics m) + 1 \<le> memgrind_alloc_count (allocation_setting m)"
  shows "acct_inv ((upd_stats (count_realloc (a = b) sz (block_size info)) m)
    \<lparr>heap := (heap m)(a := None, b \<mapsto> info\<lparr>block_size := sz\<rparr>)\<rparr>)"
proof -
  let ?h = "(heap m)(a := None)"
  have "?h b = None" using fresh by auto
  note ins = live_insert [where h = ?h and a = b and i = "info\<lparr>block_size := sz\<rparr>", OF this]
  note rem = live_remove [where h = "heap m" and a = a and i = info, OF info]
  have chk: "check info = CANNARY_WORD" using inv info by (auto simp: acct_inv_def)
  have n: "unat (allocation_num (statistics m) + 1) = Suc (unat (allocation_num (statistics m)))"
      "unat (dealllocation_num (statistics m) + 1) = Suc (unat (dealllocation_num (statistics m)))"
    if "memgrind_alloc_count (allocation_setting m) \<noteq> - 1"
    using inv that word_incr [OF _ that] by (simp_all add: acct_inv_def word_le_nat_alt)
  show ?thesis using inv ins rem chk n lim
    by (auto simp: acct_inv_def count_realloc_def algebra_simps)
qed

lemma realloc_spec:
  assumes inv: "acct_inv m" and real: "real_ok real m" "memory_left real"
    and live: "\<And>u. uptr = Some u \<Longrightarrow> heap m (user_to_lib u) \<noteq> None"
  shows "\<exists>evs m' r. mg_realloc real uptr sz m = (evs, Done (m', r)) \<and> acct_inv m' \<and> allocation_setting m' = allocation_setting m"
proof (cases uptr)
  case None
  then show ?thesis using malloc_spec [OF inv, of real sz] real by (simp add: mg_realloc_def real_ok_def memory_left_def)
next
  case (Some u)
  let ?a = "user_to_lib u"
  obtain info where info: "heap m ?a = Some info" using live [OF Some] by auto
  with inv have chk: "\<not> check_service_validity info" by (auto simp: acct_inv_def check_service_validity_def)
  obtain e2 m2 g where c: "can_alloc sz (m\<lparr>libc_guard := True\<rparr>) = (e2, m2, g)" by (metis prod_cases3)
  note d = can_alloc_cases [OF c]
  have guard: "\<not> libc_guard m" using inv by (simp add: acct_inv_def)
  show ?thesis
  proof (cases g)
    case False
    with guard c d inv Some show ?thesis
      by (simp add: mg_realloc_def enter_guard_def return_from_guarded_def Let_def acct_inv_def)
  next
    case True
    with d have m2: "m2 = m\<lparr>libc_guard := True\<rparr>" and lim: "allocation_num (statistics m) + 1 \<le> memgrind_alloc_count (allocation_setting m)" by auto
    show ?thesis
    proof (cases "real_realloc real ?a (sz + SERVICE_LENGTH)")
      case None
      with guard c True m2 info chk inv Some show ?thesis
        by (simp add: mg_realloc_def enter_guard_def return_from_guarded_def alloc_failed_def Let_def acct_inv_def)
    next
      case (Some b)
      with real have "b = ?a \<or> heap m b = None" by (auto simp: real_ok_def)
      from acct_resized [OF inv info this lim, of sz] show ?thesis
        using guard c True m2 info chk Some \<open>uptr = Some u\<close>
        by (simp add: mg_realloc_def enter_guard_def return_from_guarded_def Let_def acct_inv_def)
    qed
  qed
qed

lemma run_mop_spec:
  assumes "acct_inv m" "real_ok real m" "memory_left real" "legal p m"
  shows "\<exists>evs m' r. run_mop real p m = (evs, Done (m', r)) \<and> acct_inv m' \<and> allocation_setting m' = allocation_setting m"
proof (cases p)
  case (Malloc n)
  then show ?thesis using malloc_spec [OF assms(1), of real n] assms(2,3) by (simp add: run_mop_def real_ok_def memory_left_def)
next
  case (Calloc k n)
  then show ?thesis using calloc_spec [OF assms(1), of real k n] assms(2,3) by (simp add: run_mop_def real_ok_def memory_left_def)
next
  case (Realloc u n)
  then show ?thesis using realloc_spec [OF assms(1-3), of u n] assms(4) by (cases u) (auto simp: run_mop_def legal_def)
next
  case (Free u)
  then show ?thesis using free_spec [OF assms(1), of u] assms(4) by (cases u) (auto simp: run_mop_def legal_def)
qed

definition fresh_memgrind :: "memgrind \<Rightarrow> bool" where
  "fresh_memgrind m \<longleftrightarrow> statistics m = zero_statistics \<and> \<not> libc_guard m \<and> heap m = Map.empty"

interpretation mg: invariant_system fresh_memgrind mstep acct_inv
proof unfold_locales
  fix m m' assume "acct_inv m" "mstep m m'"
  then show "acct_inv m'" using run_mop_spec by (fastforce elim: mstep.cases)
qed (auto simp: fresh_memgrind_def acct_inv_def zero_statistics_def)

lemma library_init_fresh: "library_init getenv dlsym dlerr = (evs, Done (lg, m)) \<Longrightarrow> fresh_memgrind m"
  by (cases "read_real_functions dlsym dlerr"; cases "snd (read_real_functions dlsym dlerr)";
      cases "initialise_from_env getenv"; cases "snd (initialise_from_env getenv)")
    (auto simp: library_init_def fresh_memgrind_def)

text \<open>A limit written in decimal is read back exactly when it fits in a \<^verbatim>\<open>long\<close>, and clamped otherwise.\<close>

lemma get_value_decimal:
  assumes "getenv name = Some (show_nat n)"
  shows "get_value getenv name = ([], Done (word_of_int (min (int n) LONG_MAX)))"
proof -
  have "\<not> is_prefix ''-'' (show_nat n)"
    using show_nat_digit [of "hd (show_nat n)" n] digit_not_sign [of "hd (show_nat n)"]
    by (cases "show_nat n") auto
  moreover have "[] = show_nat n \<longleftrightarrow> False" using show_nat_nonempty [of n] by metis
  ultimately show ?thesis using assms by (simp add: get_value_def strtol_show_nat)
qed

section \<open>Limits\<close>

definition limit_inv :: "memgrind \<Rightarrow> bool" where
  "limit_inv m \<longleftrightarrow> total_used (statistics m) \<le> memgrind_mem_max (allocation_setting m) \<and>
     allocation_num (statistics m) \<le> memgrind_alloc_count (allocation_setting m)"

lemma plus_le_no_wrap:
  fixes u k :: size_t
  assumes "u \<le> M" "k \<le> A" "unat M + unat A < 2 ^ 64" "d \<le> k" "u + k \<le> M"
  shows "u + d \<le> M"
proof -
  have b: "unat u + unat k < 2 ^ LENGTH(64)" using assms(1-3) by (simp add: word_le_nat_alt)
  then have "unat (u + k) = unat u + unat k" by (rule iffD1 [OF unat_add_lem])
  moreover have "unat d \<le> unat k" using assms(4) by (simp add: word_le_nat_alt)
  moreover from this b have "unat u + unat d < 2 ^ LENGTH(64)" by linarith
  then have "unat (u + d) = unat u + unat d" by (rule iffD1 [OF unat_add_lem])
  ultimately show ?thesis using assms(5) by (simp add: word_le_nat_alt)
qed

lemma limit_step:
  assumes "limit_inv m" "run_mop real p m = (evs, Done (m', r))" "\<And>k n. p \<noteq> Calloc k n"
    and small: "unat (memgrind_mem_max (allocation_setting m)) + unat (memgrind_alloc_max (allocation_setting m)) < 2 ^ 64"
  shows "limit_inv m' \<and> allocation_setting m' = allocation_setting m"
proof -
  let ?u = "total_used (statistics m)" and ?M = "memgrind_mem_max (allocation_setting m)"
  have diff: "?u + (sz - old) \<le> ?M" if "sz \<le> memgrind_alloc_max (allocation_setting m)" "?u + sz \<le> ?M" "old \<le> sz" for sz old
    using plus_le_no_wrap [of ?u ?M sz "memgrind_alloc_max (allocation_setting m)" "sz - old"] that assms(1) small
    by (simp add: limit_inv_def word_sub_le)
  have m: "limit_inv m' \<and> allocation_setting m' = allocation_setting m" if "mg_malloc real n m = (evs, Done (m', r))" for n
    using that assms(1) can_alloc_cases [of n "m\<lparr>libc_guard := True\<rparr>"]
    by (auto simp: mg_malloc_def enter_guard_def return_from_guarded_def limit_inv_def count_alloc_def alloc_failed_def Let_def
        split: if_splits prod.splits option.splits) 
  show ?thesis
  proof (cases p)
    case (Malloc n)
    then show ?thesis using m assms(2) by (auto simp: run_mop_def)
  next
    case (Calloc k n)
    then show ?thesis using assms(3) by simp
  next
    case (Free u)
    then show ?thesis using assms(1,2)
      by (auto simp: run_mop_def mg_free_def enter_guard_def return_from_guarded_def limit_inv_def service_missing_def Let_def
          split: if_splits prod.splits option.splits)
  next
    case (Realloc u n)
    show ?thesis
    proof (cases u)
      case None
      then show ?thesis using m assms(2) Realloc by (auto simp: run_mop_def mg_realloc_def)
    next
      case (Some q)
      obtain e2 m2 g where c: "can_alloc n (m\<lparr>libc_guard := True\<rparr>) = (e2, m2, g)" by (metis prod_cases3)
      from Some Realloc assms(1,2) can_alloc_cases [OF c] diff [of n] c show ?thesis
        by (auto simp: run_mop_def mg_realloc_def enter_guard_def return_from_guarded_def limit_inv_def count_realloc_def
            service_missing_def alloc_failed_def Let_def split: if_splits prod.splits option.splits)
    qed
  qed
qed

text \<open>A call of \<^verbatim>\<open>malloc\<close>, \<^verbatim>\<open>realloc\<close> or \<^verbatim>\<open>free\<close>, with any pointer and whatever the allocator underneath answers.\<close>

inductive limited_call :: "memgrind \<Rightarrow> memgrind \<Rightarrow> bool" where
  "(\<And>k n. p \<noteq> Calloc k n) \<Longrightarrow> run_mop real p m = (evs, Done (m', r)) \<Longrightarrow> limited_call m m'"

definition within_limits :: "enviroment_settings \<Rightarrow> memgrind \<Rightarrow> bool" where
  "within_limits st m \<longleftrightarrow> limit_inv m \<and> allocation_setting m = st"

interpretation lim: invariant_system "\<lambda>m. fresh_memgrind m \<and> allocation_setting m = st" limited_call
    "\<lambda>m. unat (memgrind_mem_max st) + unat (memgrind_alloc_max st) < 2 ^ 64 \<longrightarrow> within_limits st m" for st
proof unfold_locales
  fix m m' assume inv: "unat (memgrind_mem_max st) + unat (memgrind_alloc_max st) < 2 ^ 64 \<longrightarrow> within_limits st m" and "limited_call m m'"
  from this(2) show "unat (memgrind_mem_max st) + unat (memgrind_alloc_max st) < 2 ^ 64 \<longrightarrow> within_limits st m'"
  proof cases
    case (1 p real evs r)
    then show ?thesis using inv limit_step [of m real p evs m' r] by (auto simp: within_limits_def)
  qed
qed (simp add: within_limits_def fresh_memgrind_def limit_inv_def zero_statistics_def)

section \<open>The properties\<close>


definition demo_real :: real_functions where
  "demo_real = \<lparr>real_malloc = (\<lambda>n. Some 4096), real_calloc = (\<lambda>k n. Some 4096), real_realloc = (\<lambda>p n. None)\<rparr>"

definition demo_memgrind :: memgrind where
  "demo_memgrind = \<lparr>statistics = zero_statistics,
     allocation_setting = \<lparr>memgrind_mem_max = 100, memgrind_alloc_max = 100, memgrind_alloc_count = 5\<rparr>,
     libc_guard = False, heap = Map.empty\<rparr>"

definition demo_used :: memgrind where
  "demo_used = demo_memgrind\<lparr>statistics := zero_statistics\<lparr>allocation_num := 1, total_used := 40\<rparr>,
     heap := [4096 \<mapsto> \<lparr>block_size = 40, check = CANNARY_WORD\<rparr>]\<rparr>"

lemma demo_malloc: "\<exists>evs. mg_malloc demo_real 40 demo_memgrind = (evs, Done (demo_used, Some 4112))"
  by (simp add: mg_malloc_def demo_memgrind_def demo_used_def demo_real_def enter_guard_def can_alloc_def return_from_guarded_def
      count_alloc_def zero_statistics_def initialise_service_block_def lib_to_user_def SERVICE_LENGTH_def Let_def)

definition demo_getenv :: "string \<Rightarrow> string option" where
  "demo_getenv = [''MEMGRIND_ALLOC_COUNT'' \<mapsto> show_nat 5, ''MEMGRIND_ALLOC_MAX'' \<mapsto> show_nat 100, ''MEMGRIND_MEM_MAX'' \<mapsto> show_nat 100]"

lemma demo_loaded: "\<exists>evs lg. library_init demo_getenv (\<lambda>_. True) [] = (evs, Done (lg, demo_memgrind))"
proof -
  have "get_value demo_getenv ''MEMGRIND_ALLOC_COUNT'' = ([], Done 5)" "get_value demo_getenv ''MEMGRIND_ALLOC_MAX'' = ([], Done 100)"
    "get_value demo_getenv ''MEMGRIND_MEM_MAX'' = ([], Done 100)"
    using get_value_decimal [of demo_getenv "''MEMGRIND_ALLOC_COUNT''" 5] get_value_decimal [of demo_getenv "''MEMGRIND_ALLOC_MAX''" 100]
      get_value_decimal [of demo_getenv "''MEMGRIND_MEM_MAX''" 100] by (simp_all add: demo_getenv_def LONG_MAX_def)
  moreover have "demo_getenv ''MEMGRIND_LOG_STDERR'' = None" "demo_getenv ''MEMGRIND_LOG_LEVEL'' = None" by (simp_all add: demo_getenv_def)
  ultimately show ?thesis
    by (simp add: library_init_def read_real_functions_def initialise_from_env_def demo_memgrind_def LOG_DEBUG_def)
qed

lemma demo_used_reached: "reaches mstep demo_memgrind demo_used"
proof -
  have "real_ok demo_real demo_memgrind" "memory_left demo_real"
    by (simp_all add: real_ok_def memory_left_def demo_real_def demo_memgrind_def)
  moreover obtain evs where "run_mop demo_real (Malloc 40) demo_memgrind = (evs, Done (demo_used, Some 4112))"
    using demo_malloc by (auto simp: run_mop_def)
  ultimately have "mstep demo_memgrind demo_used" using mstep.intros [of demo_real demo_memgrind "Malloc 40"] by (simp add: legal_def)
  then show ?thesis by (rule reaches_step [OF reaches_refl])
qed




text \<open>
  \<^verbatim>\<open>calloc\<close> escapes the limits, because only the size of one element is checked: with a limit of
  100 bytes, \<^verbatim>\<open>calloc(50, 100)\<close> is granted and 5000 bytes are in use.
\<close>

theorem calloc_ignores_limits:
  "\<exists>evs m'. mg_calloc demo_real 50 100 demo_memgrind = (evs, Done (m', Some 4112)) \<and>
     total_used (statistics m') = 5000 \<and> memgrind_mem_max (allocation_setting m') = 100 \<and> \<not> limit_inv m'"
  by (simp add: mg_calloc_def demo_memgrind_def demo_real_def enter_guard_def can_alloc_def return_from_guarded_def
      count_alloc_def zero_statistics_def lib_to_user_def SERVICE_LENGTH_def limit_inv_def Let_def)

text \<open>
  A block that the allocator underneath refuses is counted as allocated for good: the call
  returns \<^verbatim>\<open>NULL\<close> and leaves no block behind, but the bytes in use grow by its size.
\<close>

theorem failed_malloc_counted:
  assumes "acct_inv m" "can_alloc sz m = ([], m, True)" "real_malloc real (sz + SERVICE_LENGTH) = None"
  shows "\<exists>evs m'. mg_malloc real sz m = (evs, Done (m', None)) \<and> heap m' = heap m \<and>
    total_used (statistics m') - total_freed (statistics m') = live_bytes (heap m') + sz"
proof -
  have "can_alloc sz (m\<lparr>libc_guard := True\<rparr>) = ([], m\<lparr>libc_guard := True\<rparr>, True)"
    using assms(2) by (auto simp: can_alloc_def Let_def split: if_splits)
  with assms show ?thesis
    by (simp add: mg_malloc_def enter_guard_def return_from_guarded_def count_alloc_def alloc_failed_def Let_def acct_inv_def algebra_simps)
qed

theorem failed_malloc_counted_witness:
  "\<exists>evs m'. mg_malloc (demo_real\<lparr>real_malloc := \<lambda>_. None\<rparr>) 40 demo_memgrind = (evs, Done (m', None)) \<and> heap m' = Map.empty \<and>
    total_used (statistics m') - total_freed (statistics m') = 40"
proof -
  have "acct_inv demo_memgrind" "can_alloc 40 demo_memgrind = ([], demo_memgrind, True)"
    by (simp_all add: acct_inv_def can_alloc_def demo_memgrind_def zero_statistics_def)
  from failed_malloc_counted [OF this, of "demo_real\<lparr>real_malloc := \<lambda>_. None\<rparr>"] show ?thesis
    by (auto simp: demo_memgrind_def)
qed

text \<open>
  An unset limit means no limit, a limit written in decimal is read back exactly when it fits
  in a \<^verbatim>\<open>long\<close> and silently clamped to \<^verbatim>\<open>LONG_MAX\<close> otherwise, and a value that starts with a minus sign
  ends the process; but a blank in front of the sign defeats that check, and \<^verbatim>\<open>-1\<close> becomes
  \<open>2 ^ 64 - 1\<close>.
\<close>

theorem get_value_readings:
  "get_value (\<lambda>_. None) name = ([], Done (- 1)) \<and>
   get_value (\<lambda>_. Some (show_nat n)) name = ([], Done (word_of_int (min (int n) LONG_MAX))) \<and>
   snd (get_value (\<lambda>_. Some (CHR ''-'' # t)) name) = Exit EXIT_FAILURE \<and>
   get_value (\<lambda>_. Some '' -1'') name = ([], Done (- 1))"
proof -
  have "get_value (\<lambda>_. Some (show_nat n)) name = ([], Done (word_of_int (min (int n) LONG_MAX)))" by (rule get_value_decimal) simp
  moreover have "strtol 10 '' -1'' = (- 1, [], False)"
    by (simp add: strtol_def strto_scan_def take_sign_def skip_0x_def is_space_def is_digit_def digit_val_def digits_value_def
        LONG_MAX_def LONG_MIN_def)
  ultimately show ?thesis by (simp add: get_value_def)
qed

end
