(* ===== verification/Getopt.thy ===== *)
theory Getopt
  imports C_Prelude
begin

text \<open>
  The GNU \<^verbatim>\<open>getopt\<close> and \<^verbatim>\<open>getopt_long\<close> of the C library, which most programs of the repository
  call in a loop \<^verbatim>\<open>while ((opt = getopt(...)) != -1) switch (opt)\<close>.  \<open>getopt_all\<close> gives the
  sequence of results of those calls together with the operands, that is
  \<^verbatim>\<open>argv[optind] ... argv[argc - 1]\<close> after the last call (GNU permutation: the operands keep
  their order and move behind the options).  \<open>run_opts\<close> is the shared loop: the body of the
  \<^verbatim>\<open>switch\<close> either updates the options or returns from \<^verbatim>\<open>main\<close>.
\<close>

datatype has_arg = no_argument | required_argument

type_synonym longopt = "string \<times> has_arg \<times> char"

text \<open>\<open>BadOpt\<close> is a call that returns \<^verbatim>\<open>'?'\<close>; \<open>Opt c a\<close> returns \<open>c\<close> with \<^verbatim>\<open>optarg\<close> equal to \<open>a\<close>.\<close>

datatype opt_event = BadOpt | Opt char "string option"

fun opt_lookup :: "string \<Rightarrow> char \<Rightarrow> bool option" where
  "opt_lookup [] c = None"
| "opt_lookup (p # ps) c =
     (if c = CHR '':'' \<or> c = CHR '';'' then None
      else if p = c then Some (case ps of [] \<Rightarrow> False | q # _ \<Rightarrow> q = CHR '':'')
      else opt_lookup ps c)"

text \<open>One argument \<^verbatim>\<open>-xyz\<close>: the events of its letters, and the arguments that follow.\<close>

fun short_opts :: "string \<Rightarrow> string \<Rightarrow> string list \<Rightarrow> opt_event list \<times> string list" where
  "short_opts os [] rest = ([], rest)"
| "short_opts os (c # cs) rest =
     (case opt_lookup os c of
        None \<Rightarrow> (let (es, r) = short_opts os cs rest in (BadOpt # es, r))
      | Some False \<Rightarrow> (let (es, r) = short_opts os cs rest in (Opt c None # es, r))
      | Some True \<Rightarrow>
          (if cs \<noteq> [] then ([Opt c (Some cs)], rest)
           else case rest of [] \<Rightarrow> ([BadOpt], []) | a # r \<Rightarrow> ([Opt c (Some a)], r)))"

text \<open>An exact name wins; otherwise an abbreviation, unless it is ambiguous.\<close>

definition long_lookup :: "longopt list \<Rightarrow> string \<Rightarrow> (has_arg \<times> char) option" where
  "long_lookup los name =
     (case map_of los name of
        Some hv \<Rightarrow> Some hv
      | None \<Rightarrow>
          (case filter (\<lambda>(n, _). is_prefix name n) los of
             [] \<Rightarrow> None
           | (_, hv) # ps \<Rightarrow> if list_all (\<lambda>(_, hv'). hv' = hv) ps then Some hv else None))"

definition long_opt :: "longopt list \<Rightarrow> string \<Rightarrow> string list \<Rightarrow> opt_event list \<times> string list" where
  "long_opt los body rest =
     (let name = takeWhile (\<lambda>c. c \<noteq> CHR ''='') body;
          val = dropWhile (\<lambda>c. c \<noteq> CHR ''='') body
      in case long_lookup los name of
           None \<Rightarrow> ([BadOpt], rest)
         | Some (no_argument, c) \<Rightarrow> (if val = [] then ([Opt c None], rest) else ([BadOpt], rest))
         | Some (required_argument, c) \<Rightarrow>
             (case val of
                _ # v \<Rightarrow> ([Opt c (Some v)], rest)
              | [] \<Rightarrow> (case rest of [] \<Rightarrow> ([BadOpt], []) | a # r \<Rightarrow> ([Opt c (Some a)], r))))"

text \<open>One argument that starts with a dash; \<open>None\<close> for the long options is plain \<^verbatim>\<open>getopt\<close>.\<close>

definition one_arg :: "string \<Rightarrow> longopt list option \<Rightarrow> string \<Rightarrow> string list \<Rightarrow> opt_event list \<times> string list" where
  "one_arg os los a rest =
     (case los of
        Some ls \<Rightarrow> if is_prefix ''--'' a then long_opt ls (drop 2 a) rest
                   else short_opts os (drop 1 a) rest
      | None \<Rightarrow> short_opts os (drop 1 a) rest)"

definition is_option :: "string \<Rightarrow> bool" where
  "is_option a \<longleftrightarrow> (case a of c # _ # _ \<Rightarrow> c = CHR ''-'' | _ \<Rightarrow> False)"

lemma short_opts_rest: "length (snd (short_opts os cs rest)) \<le> length rest"
  by (induction cs) (auto split: option.splits bool.splits prod.splits list.splits)

lemma long_opt_rest: "length (snd (long_opt los body rest)) \<le> length rest"
  by (auto simp: long_opt_def Let_def split: option.splits has_arg.splits list.splits)

lemma one_arg_rest: "length (snd (one_arg os los a rest)) \<le> length rest"
  by (auto simp: one_arg_def short_opts_rest long_opt_rest split: option.splits)

function getopt_all :: "string \<Rightarrow> longopt list option \<Rightarrow> string list \<Rightarrow> opt_event list \<times> string list" where
  "getopt_all os los [] = ([], [])"
| "getopt_all os los (a # as) =
     (if a = ''--'' then ([], as)
      else if is_option a then
        (let (es, rest) = one_arg os los a as; (fs, ops) = getopt_all os los rest in (es @ fs, ops))
      else (let (fs, ops) = getopt_all os los as in (fs, a # ops)))"
  by pat_completeness auto
termination
proof (relation "measure (\<lambda>(_, _, as). length as)", goal_cases)
  case (2 os los a as x es rest)
  then have "rest = snd (one_arg os los a as)" by (metis snd_conv)
  then show ?case using one_arg_rest [of os los a as] by simp
qed auto

text \<open>The option loop of \<^verbatim>\<open>main\<close>: \<open>Inl\<close> is an early return, \<open>Inr\<close> the options at its end.\<close>

fun run_opts :: "('o \<Rightarrow> opt_event \<Rightarrow> 'r + 'o) \<Rightarrow> 'o \<Rightarrow> opt_event list \<Rightarrow> 'r + 'o" where
  "run_opts f opts [] = Inr opts"
| "run_opts f opts (e # es) = (case f opts e of Inl r \<Rightarrow> Inl r | Inr opts' \<Rightarrow> run_opts f opts' es)"

section \<open>What the option loop gives its clients\<close>

lemma run_opts_append:
  "run_opts f opts (xs @ ys) =
     (case run_opts f opts xs of Inl r \<Rightarrow> Inl r | Inr opts' \<Rightarrow> run_opts f opts' ys)"
  by (induction xs arbitrary: opts) (auto split: sum.splits)

lemma run_opts_inv:
  assumes "run_opts f opts es = Inr opts'" and "P opts"
    and "\<And>opts e opts'. P opts \<Longrightarrow> f opts e = Inr opts' \<Longrightarrow> P opts'"
  shows "P opts'"
  using assms(1,2)
proof (induction es arbitrary: opts)
  case (Cons e es)
  then show ?case by (auto split: sum.splits dest: assms(3))
qed simp

text \<open>A letter that the option string does not list is never returned.\<close>

lemma short_opts_known:
  "Opt c a \<in> set (fst (short_opts os cs rest)) \<Longrightarrow> opt_lookup os c \<noteq> None"
  by (induction cs) (auto split: option.splits bool.splits prod.splits list.splits if_splits)

lemma getopt_known:
  "Opt c a \<in> set (fst (getopt_all os None as)) \<Longrightarrow> opt_lookup os c \<noteq> None"
proof (induction os "None :: longopt list option" as rule: getopt_all.induct)
  case (2 os a as)
  show ?case
  proof (cases "a \<noteq> ''--'' \<and> is_option a")
    case True
    obtain es rest where e: "one_arg os None a as = (es, rest)" by fastforce
    obtain fs ops where f: "getopt_all os None rest = (fs, ops)" by fastforce
    have "Opt c a' \<in> set es \<Longrightarrow> opt_lookup os c \<noteq> None" for a'
      using short_opts_known [of c a' os "drop 1 a" as] e by (simp add: one_arg_def)
    with True e f 2 show ?thesis by auto
  next
    case False
    with 2 show ?thesis by (auto split: prod.splits if_splits)
  qed
qed simp

text \<open>Without dashes, every argument is an operand.\<close>

lemma getopt_operands:
  "list_all (\<lambda>a. \<not> is_prefix ''-'' a) as \<Longrightarrow> getopt_all os los as = ([], as)"
proof (induction as)
  case (Cons a as)
  then have "a \<noteq> ''--''" and "\<not> is_option a"
    by (auto simp: is_option_def split: list.splits)
  with Cons show ?case by simp
qed simp

text \<open>
  The contract of a program whose options are independent switches: setting one never undoes
  another and setting it twice changes nothing.  Then only the set of the switches that are
  given matters, not their order or number.
\<close>

locale switches =
  fixes set_switch :: "'o \<Rightarrow> char \<Rightarrow> 'o"
  assumes switch_comm: "set_switch (set_switch opts a) b = set_switch (set_switch opts b) a"
    and switch_idem: "set_switch (set_switch opts a) a = set_switch opts a"
begin

lemma foldl_switch_front: "foldl set_switch (set_switch opts a) xs = set_switch (foldl set_switch opts xs) a"
  by (induction xs arbitrary: opts) (simp_all add: switch_comm [of _ a])

lemma foldl_switch_absorb: "a \<in> set xs \<Longrightarrow> set_switch (foldl set_switch opts xs) a = foldl set_switch opts xs"
proof (induction xs arbitrary: opts)
  case (Cons x xs)
  show ?case
  proof (cases "a \<in> set xs")
    case True
    then show ?thesis by (simp add: Cons.IH)
  next
    case False
    with Cons.prems show ?thesis by (simp add: foldl_switch_front switch_idem)
  qed
qed simp

lemma foldl_switch_subset:
  "set ys \<subseteq> set xs \<Longrightarrow> foldl set_switch (foldl set_switch opts xs) ys = foldl set_switch opts xs"
  by (induction ys) (simp_all add: foldl_switch_absorb)

lemma foldl_switch_swap:
  "foldl set_switch (foldl set_switch opts xs) ys = foldl set_switch (foldl set_switch opts ys) xs"
  by (induction xs arbitrary: opts) (simp_all add: foldl_switch_front)

theorem switches_set:
  assumes "set xs = set ys"
  shows "foldl set_switch opts xs = foldl set_switch opts ys"
proof -
  have "foldl set_switch opts xs = foldl set_switch (foldl set_switch opts xs) ys"
    using assms by (simp add: foldl_switch_subset)
  also have "\<dots> = foldl set_switch (foldl set_switch opts ys) xs" by (rule foldl_switch_swap)
  also have "\<dots> = foldl set_switch opts ys" using assms by (simp add: foldl_switch_subset)
  finally show ?thesis .
qed

end

end
