(* ===== verification/Id.thy ===== *)
theory Id
  imports Getopt
begin

text \<open>
  \<^verbatim>\<open>hw05\<close>: the program \<^verbatim>\<open>id\<close>.  The option loop and \<^verbatim>\<open>main\<close> (\<^verbatim>\<open>id.c\<close>), the collection of the identities
  of the process or of a user and their printing (\<^verbatim>\<open>utils.c\<close>).  The account databases and the
  process identity are an environment record; allocation failures are part of it.
\<close>

section \<open>Data (utils.h)\<close>

type_synonym gid_t = u32

record program_options =
  po_group :: bool
  po_groups :: bool
  po_name :: bool
  po_real :: bool
  po_user :: bool

text \<open>A name that is \<^verbatim>\<open>NULL\<close> is \<open>None\<close>.\<close>

record name_id =
  ni_real :: gid_t
  ni_effective :: gid_t
  ni_name :: "string option"

record id_data =
  user_data :: name_id
  group_data :: name_id
  groups_data :: "name_id list"

text \<open>
  \<open>ie_resuid\<close>, \<open>ie_resgid\<close>: the error number or the real and effective id.  \<open>ie_pwuid\<close>, \<open>ie_pwnam\<close> give
  uid, gid and name of an account, \<open>ie_grgid\<close> the name of a group.  \<open>ie_grouplist\<close> is the group
  list of a user, \<open>ie_list_changed\<close> the failure of the second query.  (\<^verbatim>\<open>getgrouplist\<close> reports -1
  only together with a positive count, so the message \<^verbatim>\<open>can't get ngroups\<close> is not reachable.)
\<close>

record id_env =
  ie_resuid :: "int + gid_t \<times> gid_t"
  ie_resgid :: "int + gid_t \<times> gid_t"
  ie_getgroups :: "int + gid_t list"
  ie_pwuid :: "gid_t \<Rightarrow> (gid_t \<times> gid_t \<times> string) option"
  ie_pwnam :: "string \<Rightarrow> (gid_t \<times> gid_t \<times> string) option"
  ie_grgid :: "gid_t \<Rightarrow> string option"
  ie_grouplist :: "string \<Rightarrow> gid_t \<Rightarrow> gid_t list"
  ie_list_changed :: bool
  ie_strdup_group :: bool
  ie_strdup_groups :: "nat \<Rightarrow> bool"
  ie_calloc_ids :: bool
  ie_calloc_data :: bool

section \<open>Printing (utils.c)\<close>

text \<open>\<^verbatim>\<open>%d\<close> of an unsigned 32-bit id, and \<^verbatim>\<open>%s\<close> of a name (the C library prints \<^verbatim>\<open>(null)\<close> for \<^verbatim>\<open>NULL\<close>).\<close>

definition show_d :: "gid_t \<Rightarrow> string" where "show_d g = show_int (sint g)"

definition show_s :: "string option \<Rightarrow> string" where
  "show_s n = (case n of Some s \<Rightarrow> s | None \<Rightarrow> ''(null)'')"

definition proper_print :: "name_id \<Rightarrow> program_options \<Rightarrow> string" where
  "proper_print d options =
     (if po_name options then show_s (ni_name d)
      else if po_real options then show_d (ni_real d) else show_d (ni_effective d))"

definition print_all :: "program_options \<Rightarrow> bool" where
  "print_all options \<longleftrightarrow> \<not> po_group options \<and> \<not> po_groups options \<and> \<not> po_user options"

text \<open>The loop over the first \<^verbatim>\<open>length - 1\<close> groups.\<close>

fun print_groups :: "program_options \<Rightarrow> name_id list \<Rightarrow> string" where
  "print_groups options [] = []"
| "print_groups options (g # gs) =
     (if print_all options then show_d (ni_real g) @ ''('' @ show_s (ni_name g) @ ''), ''
      else proper_print g options @ '' '') @ print_groups options gs"

text \<open>With no group at all, \<^verbatim>\<open>length - 1\<close> wraps around and the array is overrun.\<close>

definition print_data :: "id_env \<Rightarrow> id_data \<Rightarrow> program_options \<Rightarrow> string outcome" where
  "print_data env data options =
     (let pa = print_all options; u = user_data data; g = group_data data; gs = groups_data data;
          s1 = (if pa then ''uid='' @ show_d (ni_real u) @ ''('' @ show_s (ni_name u) @ '') ''
                else if po_user options then proper_print u options else []);
          s2 = (if pa then ''gid='' @ show_d (ni_real g) @ ''('' @ show_s (ni_name g) @ '') ''
                else if po_group options then proper_print g options else [])
      in if pa \<or> po_groups options then
           (if gs = [] then Fault OutOfBounds
            else let s3 = (if pa then
                             (if ni_real u \<noteq> ni_effective u
                              then ''euid='' @ show_d (ni_effective u) @ ''('' @
                                   (case ie_pwuid env (ni_effective u) of Some (_, _, n) \<Rightarrow> n | None \<Rightarrow> []) @ '') ''
                              else []) @ ''groups=''
                           else []);
                     s4 = print_groups options (butlast gs);
                     s5 = (if pa then show_d (ni_effective (last gs)) @ ''('' @ show_s (ni_name (last gs)) @ '')''
                           else proper_print (last gs) options)
              in Done (s1 @ s2 @ s3 @ s4 @ s5 @ [nl]))
         else Done (s1 @ s2 @ [nl]))"

section \<open>Collecting the data (utils.c)\<close>

text \<open>The loop over the group ids of the process: an unknown group is dereferenced.\<close>

fun process_groups :: "id_env \<Rightarrow> nat \<Rightarrow> gid_t list \<Rightarrow> name_id list outcome" where
  "process_groups env i [] = Done []"
| "process_groups env i (g # gs) =
     (case ie_grgid env g of
        None \<Rightarrow> Fault NullDeref
      | Some n \<Rightarrow>
          map_outcome ((#) \<lparr>ni_real = g, ni_effective = g, ni_name = (if ie_strdup_groups env i then Some n else None)\<rparr>)
            (process_groups env (Suc i) gs))"

definition get_process_info :: "id_env \<Rightarrow> program_options \<Rightarrow> event list \<times> unit outcome" where
  "get_process_info env options =
     (case ie_resuid env of
        Inl e \<Rightarrow> ([Error e ''getresuid''], Exit EXIT_FAILURE)
      | Inr (ruid, euid) \<Rightarrow>
      let ud = \<lparr>ni_real = ruid, ni_effective = euid, ni_name = map_option (\<lambda>(_, _, n). n) (ie_pwuid env ruid)\<rparr> in
      case ie_resgid env of
        Inl e \<Rightarrow> ([Error e ''getresuid''], Exit EXIT_FAILURE)
      | Inr (rgid, egid) \<Rightarrow>
      if ie_grgid env rgid \<noteq> None \<and> \<not> ie_strdup_group env then ([Stderr ''group data malloc failed''], Exit EXIT_FAILURE)
      else let gd = \<lparr>ni_real = rgid, ni_effective = egid, ni_name = ie_grgid env rgid\<rparr> in
      if \<not> ie_calloc_ids env then ([Stderr ''groups_ids malloc failed''], Exit EXIT_FAILURE)
      else case ie_getgroups env of
        Inl e \<Rightarrow> ([Error e ''getgroups''], Exit EXIT_FAILURE)
      | Inr ids \<Rightarrow>
          (let ids' = (if egid \<in> set ids then ids else ids @ [egid])
           in if \<not> ie_calloc_data env then ([Stderr ''groups_data malloc failed''], Exit EXIT_FAILURE)
              else case process_groups env 0 ids' of
                Exit c \<Rightarrow> ([], Exit c) | Fault f \<Rightarrow> ([], Fault f)
              | Done gs \<Rightarrow>
                  (case print_data env \<lparr>user_data = ud, group_data = gd, groups_data = gs\<rparr> options of
                     Exit c \<Rightarrow> ([], Exit c) | Fault f \<Rightarrow> ([], Fault f)
                   | Done out \<Rightarrow> ([Stdout out], Done ()))))"

fun user_groups :: "id_env \<Rightarrow> nat \<Rightarrow> gid_t list \<Rightarrow> name_id list option" where
  "user_groups env i [] = Some []"
| "user_groups env i (g # gs) =
     (case ie_grgid env g of
        None \<Rightarrow> None
      | Some n \<Rightarrow>
          map_option ((#) \<lparr>ni_real = g, ni_effective = g, ni_name = (if ie_strdup_groups env i then Some n else None)\<rparr>)
            (user_groups env (Suc i) gs))"

text \<open>The account that the operand names: a name, or a number read by \<^verbatim>\<open>strtol\<close> and narrowed to \<^verbatim>\<open>int\<close>.\<close>

definition find_user :: "id_env \<Rightarrow> string \<Rightarrow> string + gid_t \<times> gid_t \<times> string" where
  "find_user env user_name =
     (let (v, endp, _) = strtol 10 user_name
      in if endp = user_name then
           (case ie_pwnam env user_name of None \<Rightarrow> Inl (''getpwnam failed'' @ [nl]) | Some u \<Rightarrow> Inr u)
         else if endp = [] then
           (case ie_pwuid env (word_of_int (to_int v)) of None \<Rightarrow> Inl (''getpwuid failed'' @ [nl]) | Some u \<Rightarrow> Inr u)
         else Inl (''Invalid user name / user id'' @ [nl]))"

definition get_user_info :: "id_env \<Rightarrow> string \<Rightarrow> program_options \<Rightarrow> event list \<times> unit outcome" where
  "get_user_info env user_name options =
     (case find_user env user_name of
        Inl msg \<Rightarrow> ([Stderr msg], Exit EXIT_FAILURE)
      | Inr (uid, gid, pw_name) \<Rightarrow>
      let ud = \<lparr>ni_real = uid, ni_effective = uid, ni_name = Some pw_name\<rparr> in
      case ie_grgid env gid of
        None \<Rightarrow> ([Stderr (''getgrgid failed'' @ [nl])], Exit EXIT_FAILURE)
      | Some gr_name \<Rightarrow>
      let gd = \<lparr>ni_real = gid, ni_effective = gid, ni_name = (if ie_strdup_group env then Some gr_name else None)\<rparr>;
          ids = ie_grouplist env pw_name gid in
      if \<not> ie_calloc_ids env then ([Stderr ''groups_ids malloc failed''], Exit EXIT_FAILURE)
      else if ie_list_changed env then ([Error 0 (pw_name @ '': Group list changed,'')], Exit EXIT_FAILURE)
      else if \<not> ie_calloc_data env then ([Stderr ''groups_data malloc failed''], Exit EXIT_FAILURE)
      else case user_groups env 0 ids of
        None \<Rightarrow> ([Stderr ''getgrgid failed''], Exit EXIT_FAILURE)
      | Some gs \<Rightarrow>
          (case print_data env \<lparr>user_data = ud, group_data = gd, groups_data = gs\<rparr> options of
             Exit c \<Rightarrow> ([], Exit c) | Fault f \<Rightarrow> ([], Fault f)
           | Done out \<Rightarrow> ([Stdout out], Done ())))"

section \<open>The program (id.c)\<close>

definition help_text :: string where
  "help_text = ''Usage: id [OPTION] [USER...]'' @ [nl] @
     ''Print user and group information for the specified USER,'' @ [nl] @
     ''or (when USER omitted) for the current user.'' @ [nl] @ [nl] @
     ''  -g, --group    print only the effective group ID'' @ [nl] @
     ''  -G, --groups   print all group IDs'' @ [nl] @
     ''  -n, --name     print a name instead of a number, for -ugG'' @ [nl] @
     ''  -r, --real     print the real ID instead of the effective ID, with -ugG'' @ [nl] @
     ''  -u, --user     print only the effective user ID'' @ [nl] @
     ''      --help     display this help and exit'' @ [nl] @
     ''      --version  output version information and exit'' @ [nl] @ [nl] @
     ''Without any OPTION, print some useful set of identified information.'' @ [nl]"

definition version_text :: string where "version_text = ''id 1.0'' @ [nl]"

definition id_optstring :: string where "id_optstring = ''gGnruhv''"

definition id_longopts :: "longopt list" where
  "id_longopts = [(''version'', no_argument, CHR ''h''), (''help'', no_argument, CHR ''v''),
     (''group'', no_argument, CHR ''g''), (''groups'', no_argument, CHR ''G''), (''name'', no_argument, CHR ''n''),
     (''real'', no_argument, CHR ''r''), (''user'', no_argument, CHR ''u'')]"

definition no_options :: program_options where
  "no_options = \<lparr>po_group = False, po_groups = False, po_name = False, po_real = False, po_user = False\<rparr>"

text \<open>The cases of the \<^verbatim>\<open>switch\<close> that set an option.\<close>

definition set_option :: "program_options \<Rightarrow> char \<Rightarrow> program_options" where
  "set_option o1 c =
     (if c = CHR ''g'' then o1\<lparr>po_group := True\<rparr> else if c = CHR ''G'' then o1\<lparr>po_groups := True\<rparr>
      else if c = CHR ''n'' then o1\<lparr>po_name := True\<rparr> else if c = CHR ''r'' then o1\<lparr>po_real := True\<rparr>
      else if c = CHR ''u'' then o1\<lparr>po_user := True\<rparr> else o1)"

definition id_option :: "program_options \<Rightarrow> opt_event \<Rightarrow> (event list \<times> int) + program_options" where
  "id_option o1 e =
     (case e of
        Opt c _ \<Rightarrow>
          if c = CHR ''h'' then Inl ([Stdout help_text], EXIT_SUCCESS)
          else if c = CHR ''v'' then Inl ([Stdout version_text], EXIT_SUCCESS)
          else if c \<in> set ''gGnru'' then Inr (set_option o1 c)
          else Inl ([Stdout help_text], EXIT_FAILURE)
      | BadOpt \<Rightarrow> Inl ([Stdout help_text], EXIT_FAILURE))"

definition modes :: "program_options \<Rightarrow> nat" where
  "modes o1 = of_bool (po_group o1) + of_bool (po_groups o1) + of_bool (po_user o1)"

fun user_loop :: "id_env \<Rightarrow> program_options \<Rightarrow> string list \<Rightarrow> event list \<times> int outcome" where
  "user_loop env o1 [] = ([], Done EXIT_SUCCESS)"
| "user_loop env o1 (a # as) =
     (case get_user_info env a o1 of
        (evs, Done ()) \<Rightarrow> (let (evs', r) = user_loop env o1 as in (evs @ evs', r))
      | (evs, Exit c) \<Rightarrow> (evs, Exit c)
      | (evs, Fault f) \<Rightarrow> (evs, Fault f))"

definition id_main :: "id_env \<Rightarrow> string list \<Rightarrow> event list \<times> int outcome" where
  "id_main env args =
     (let (es, operands) = getopt_all id_optstring (Some id_longopts) args in
      case run_opts id_option no_options es of
        Inl (evs, code) \<Rightarrow> (evs, Done code)
      | Inr o1 \<Rightarrow>
          if modes o1 > 1 then ([Stderr (''You can'' @ [CHR 0x27] @ ''t set parameters -u, -g, -G in parallel'' @ [nl])], Done EXIT_FAILURE)
          else if modes o1 = 0 \<and> (po_real o1 \<or> po_name o1) then
            ([Stderr (''Can'' @ [CHR 0x27] @ ''t use name or real ID in default mode'' @ [nl])], Done EXIT_FAILURE)
          else if operands = [] then
            (case get_process_info env o1 of
               (evs, Done ()) \<Rightarrow> (evs, Done EXIT_SUCCESS) | (evs, Exit c) \<Rightarrow> (evs, Exit c) | (evs, Fault f) \<Rightarrow> (evs, Fault f))
          else user_loop env o1 operands)"

section \<open>The options are switches\<close>

interpretation id_switches: switches set_option
  by unfold_locales (auto simp: set_option_def)

lemma run_switches:
  "set cs \<subseteq> set ''gGnru'' \<Longrightarrow> run_opts id_option o1 (map (\<lambda>c. Opt c None) cs) = Inr (foldl set_option o1 cs)"
  by (induction cs arbitrary: o1) (auto simp: id_option_def)

lemma getopt_switches:
  assumes "set cs \<subseteq> set ''gGnru''" "list_all (\<lambda>a. \<not> is_prefix ''-'' a) ops"
  shows "getopt_all id_optstring (Some id_longopts) (map (\<lambda>c. [CHR ''-'', c]) cs @ ops) = (map (\<lambda>c. Opt c None) cs, ops)"
  using assms(1)
proof (induction cs)
  case Nil
  then show ?case using getopt_operands [OF assms(2)] by simp
next
  case (Cons c cs)
  then have "one_arg id_optstring (Some id_longopts) [CHR ''-'', c] r = ([Opt c None], r)" for r
    by (auto simp: one_arg_def id_optstring_def)
  moreover have "is_option [CHR ''-'', c]" "[CHR ''-'', c] \<noteq> ''--''" using Cons.prems by (auto simp: is_option_def)
  ultimately show ?case using Cons by simp
qed

section \<open>Printing\<close>

text \<open>The text that the program promises: one field, or all groups, or the summary line.\<close>

fun join :: "string \<Rightarrow> string list \<Rightarrow> string" where
  "join sep [] = []"
| "join sep [x] = x"
| "join sep (x # xs) = x @ sep @ join sep xs"

definition id_line :: "id_env \<Rightarrow> id_data \<Rightarrow> program_options \<Rightarrow> string" where
  "id_line env d o1 =
     (if po_user o1 then proper_print (user_data d) o1
      else if po_group o1 then proper_print (group_data d) o1
      else if po_groups o1 then join '' '' (map (\<lambda>g. proper_print g o1) (groups_data d))
      else ''uid='' @ show_d (ni_real (user_data d)) @ ''('' @ show_s (ni_name (user_data d)) @ '') gid='' @
           show_d (ni_real (group_data d)) @ ''('' @ show_s (ni_name (group_data d)) @ '') '' @
           (if ni_real (user_data d) \<noteq> ni_effective (user_data d)
            then ''euid='' @ show_d (ni_effective (user_data d)) @ ''('' @
                 (case ie_pwuid env (ni_effective (user_data d)) of Some (_, _, n) \<Rightarrow> n | None \<Rightarrow> []) @ '') '' else []) @
           ''groups='' @ join '', '' (map (\<lambda>g. show_d (ni_effective g) @ ''('' @ show_s (ni_name g) @ '')'') (groups_data d))) @ [nl]"

definition entry :: "program_options \<Rightarrow> name_id \<Rightarrow> string" where
  "entry o1 g = (if print_all o1 then show_d (ni_effective g) @ ''('' @ show_s (ni_name g) @ '')'' else proper_print g o1)"

definition separator :: "program_options \<Rightarrow> string" where
  "separator o1 = (if print_all o1 then '', '' else '' '')"

lemma join_butlast: "xs \<noteq> [] \<Longrightarrow> concat (map (\<lambda>x. x @ sep) (butlast xs)) @ last xs = join sep xs"
  by (induction sep xs rule: join.induct) simp_all

lemma print_groups_concat:
  "(\<And>g. g \<in> set gs \<Longrightarrow> ni_real g = ni_effective g) \<Longrightarrow>
     print_groups o1 gs = concat (map (\<lambda>x. x @ separator o1) (map (entry o1) gs))"
  by (induction gs) (simp_all add: entry_def separator_def)

lemma print_groups_join:
  assumes "gs \<noteq> []" "\<And>g. g \<in> set gs \<Longrightarrow> ni_real g = ni_effective g"
  shows "print_groups o1 (butlast gs) @ entry o1 (last gs) = join (separator o1) (map (entry o1) gs)"
proof -
  have "print_groups o1 (butlast gs) = concat (map (\<lambda>x. x @ separator o1) (map (entry o1) (butlast gs)))"
    using assms(2) by (intro print_groups_concat) (meson in_set_butlastD)
  then show ?thesis using join_butlast [of "map (entry o1) gs" "separator o1"] assms(1)
    by (simp add: last_map flip: map_butlast)
qed

lemma print_data_line:
  assumes "groups_data d \<noteq> []" "\<And>g. g \<in> set (groups_data d) \<Longrightarrow> ni_real g = ni_effective g" "modes o1 \<le> 1"
  shows "print_data env d o1 = Done (id_line env d o1)"
proof -
  note j = print_groups_join [OF assms(1,2), of o1]
  consider "print_all o1" "\<not> po_user o1" "\<not> po_group o1" "\<not> po_groups o1"
    | "\<not> print_all o1" "po_user o1" "\<not> po_group o1" "\<not> po_groups o1"
    | "\<not> print_all o1" "\<not> po_user o1" "po_group o1" "\<not> po_groups o1"
    | "\<not> print_all o1" "\<not> po_user o1" "\<not> po_group o1" "po_groups o1"
    using assms(3) by (fastforce simp: modes_def print_all_def split: if_splits)
  then show ?thesis
  proof cases
    case 1
    have e: "entry o1 = (\<lambda>g. show_d (ni_effective g) @ ''('' @ show_s (ni_name g) @ '')'')" "separator o1 = '', ''"
      using 1 by (auto simp: entry_def separator_def)
    have j': "print_groups o1 (butlast (groups_data d)) @ entry o1 (last (groups_data d)) @ r =
        join '', '' (map (entry o1) (groups_data d)) @ r" for r using arg_cong [OF j, of "\<lambda>x. x @ r"] e(2) by simp
    show ?thesis using 1 assms(1) j' [of "[nl]"] by (simp add: print_data_def id_line_def Let_def e(1))
  next
    case 4
    have e: "entry o1 = (\<lambda>g. proper_print g o1)" "separator o1 = '' ''" using 4 by (auto simp: entry_def separator_def)
    have j': "print_groups o1 (butlast (groups_data d)) @ entry o1 (last (groups_data d)) @ r =
        join '' '' (map (entry o1) (groups_data d)) @ r" for r using arg_cong [OF j, of "\<lambda>x. x @ r"] e(2) by simp
    show ?thesis using 4 assms(1) j' [of "[nl]"] by (simp add: print_data_def id_line_def Let_def e(1))
  qed (simp_all add: print_data_def id_line_def Let_def)
qed

text \<open>The entry the program builds for a group that is known.\<close>

definition group_entry :: "id_env \<Rightarrow> gid_t \<Rightarrow> name_id" where
  "group_entry env g = \<lparr>ni_real = g, ni_effective = g, ni_name = ie_grgid env g\<rparr>"

lemma process_groups_ok:
  assumes "\<And>g. g \<in> set ids \<Longrightarrow> ie_grgid env g \<noteq> None" "\<And>i. ie_strdup_groups env i"
  shows "process_groups env i ids = Done (map (group_entry env) ids)"
  using assms(1)
proof (induction ids arbitrary: i)
  case (Cons g ids)
  then obtain n where "ie_grgid env g = Some n" by fastforce
  with Cons assms(2) show ?case by (simp add: group_entry_def)
qed simp

lemma process_groups_unknown:
  "g \<in> set ids \<Longrightarrow> ie_grgid env g = None \<Longrightarrow> process_groups env i ids = Fault NullDeref"
proof (induction ids arbitrary: i)
  case (Cons h ids)
  then show ?case by (cases "ie_grgid env h") auto
qed simp

definition allocations_ok :: "id_env \<Rightarrow> bool" where
  "allocations_ok env \<longleftrightarrow> ie_strdup_group env \<and> (\<forall>i. ie_strdup_groups env i) \<and> ie_calloc_ids env \<and> ie_calloc_data env"

section \<open>The properties\<close>


definition demo_id :: id_env where
  "demo_id = \<lparr>ie_resuid = Inr (1000, 0), ie_resgid = Inr (100, 100), ie_getgroups = Inr [100, 27],
     ie_pwuid = [1000 \<mapsto> (1000, 100, ''jane''), 0 \<mapsto> (0, 0, ''root'')], ie_pwnam = Map.empty,
     ie_grgid = [100 \<mapsto> ''users'', 27 \<mapsto> ''sudo''], ie_grouplist = (\<lambda>_ g. [g]), ie_list_changed = False,
     ie_strdup_group = True, ie_strdup_groups = (\<lambda>_. True), ie_calloc_ids = True, ie_calloc_data = True\<rparr>"

lemma sint_small: "n < 2 ^ 31 \<Longrightarrow> sint (word_of_nat n :: 32 word) = int n"
  by (simp add: signed_of_nat signed_take_bit_int_eq_self)

lemma show_d_demo: "show_d 1000 = ''1000''" "show_d 0 = ''0''" "show_d 100 = ''100''" "show_d 27 = ''27''"
  using sint_small [of 1000] sint_small [of 0] sint_small [of 100] sint_small [of 27]
  by (simp_all add: show_d_def show_int_def show_nat_def show_base.simps)


text \<open>
  A supplementary group without an entry in the database crashes \<^verbatim>\<open>id\<close> in every mode, even when
  only the user is asked for: the pointer that the source has just found to be \<^verbatim>\<open>NULL\<close> is
  dereferenced.
\<close>

theorem id_unknown_group_crashes:
  assumes "ie_resuid env = Inr (ru, eu)" "ie_resgid env = Inr (rg, eg)" "ie_getgroups env = Inr ids" "allocations_ok env"
    and "g \<in> set ids" "ie_grgid env g = None"
  shows "get_process_info env o1 = ([], Fault NullDeref)"
proof -
  have "g \<in> set (if eg \<in> set ids then ids else ids @ [eg])" using assms(5) by auto
  from process_groups_unknown [OF this assms(6), of 0] show ?thesis
    using assms(1-4) by (simp add: get_process_info_def allocations_ok_def Let_def)
qed

theorem id_unknown_group_crashes_witness:
  "get_process_info (demo_id\<lparr>ie_getgroups := Inr [100, 5555]\<rparr>) (no_options\<lparr>po_user := True\<rparr>) = ([], Fault NullDeref)"
  by (rule id_unknown_group_crashes [where ru = 1000 and eu = 0 and rg = 100 and eg = 100 and ids = "[100, 5555]" and g = 5555])
    (simp_all add: demo_id_def allocations_ok_def)

text \<open>
  Only the set of the option letters matters: their order and repetition never change what
  the program does, for any operands.
\<close>

theorem id_option_order:
  assumes "set cs = set ds" "set cs \<subseteq> set ''gGnru''" "list_all (\<lambda>a. \<not> is_prefix ''-'' a) ops"
  shows "id_main env (map (\<lambda>c. [CHR ''-'', c]) cs @ ops) = id_main env (map (\<lambda>c. [CHR ''-'', c]) ds @ ops)"
proof -
  have "foldl set_option no_options cs = foldl set_option no_options ds" using assms(1) by (rule id_switches.switches_set)
  moreover have "set ds \<subseteq> set ''gGnru''" using assms(1,2) by blast
  ultimately show ?thesis using assms(2,3) unfolding id_main_def by (simp only: getopt_switches prod.case Let_def run_switches)
qed

theorem id_option_order_witness:
  "id_main demo_id [''-u'', ''-n''] = id_main demo_id [''-n'', ''-u'', ''-n'']"
  using id_option_order [of "[CHR ''u'', CHR ''n'']" "[CHR ''n'', CHR ''u'', CHR ''n'']" "[]" demo_id] by auto

text \<open>
  The long options are crossed over: \<^verbatim>\<open>--version\<close> prints the help text and \<^verbatim>\<open>--help\<close> the version.
\<close>

theorem id_help_version_crossed:
  "id_main env [''--version''] = ([Stdout help_text], Done EXIT_SUCCESS) \<and>
   id_main env [''--help''] = ([Stdout version_text], Done EXIT_SUCCESS)"
  by (simp add: id_main_def is_option_def one_arg_def long_opt_def long_lookup_def id_longopts_def id_option_def)

end
