(* ===== verification/Siglogd.thy ===== *)
theory Siglogd
  imports Getopt
begin

text \<open>
  \<^verbatim>\<open>hw06\<close>: the signal logger.  All logged signals and \<^verbatim>\<open>SIGALRM\<close> are blocked except inside
  \<^verbatim>\<open>sigsuspend\<close>, and every handler runs with all of them masked, so deliveries never overlap: a
  run is a sequence of deliveries, each handled as a whole.  \<^verbatim>\<open>syslog\<close> calls are events.
\<close>

section \<open>Data (utils.h, utils.c)\<close>

record signal_value =
  sig_name :: string
  sig_val :: int
  sig_stat :: size_t

record log_options =
  lo_daemon :: bool
  lo_error :: bool
  lo_interval :: u32

definition SIGINT :: int where "SIGINT = 2"
definition SIGQUIT :: int where "SIGQUIT = 3"
definition SIGUSR1 :: int where "SIGUSR1 = 10"
definition SIGUSR2 :: int where "SIGUSR2 = 12"
definition SIGALRM :: int where "SIGALRM = 14"
definition SIGTERM :: int where "SIGTERM = 15"
definition SIGCONT :: int where "SIGCONT = 18"

lemmas signal_numbers = SIGINT_def SIGQUIT_def SIGUSR1_def SIGUSR2_def SIGALRM_def SIGTERM_def SIGCONT_def

definition signals_to_log :: "signal_value list" where
  "signals_to_log = map (\<lambda>(n, v). \<lparr>sig_name = n, sig_val = v, sig_stat = 0\<rparr>)
     [(''SIGINT'', SIGINT), (''SIGQUIT'', SIGQUIT), (''SIGTERM'', SIGTERM),
      (''SIGUSR1'', SIGUSR1), (''SIGUSR2'', SIGUSR2), (''SIGCONT'', SIGCONT)]"

definition INFO :: int where "INFO = 6"
definition DEBUG :: int where "DEBUG = 7"

text \<open>The static variables, and the seconds of the pending \<^verbatim>\<open>alarm\<close> (\<open>None\<close>: none).\<close>

record logd =
  table :: "signal_value list"
  timer_seconds :: int
  pending_alarm :: "int option"

section \<open>Handlers (utils.c)\<close>

definition stat_line :: "signal_value \<Rightarrow> event" where
  "stat_line s = Syslog INFO (sig_name s @ '' ('' @ show_int (sig_val s) @ ''):'' @ CHR 0x09 # show_int (sint (sig_stat s)))"

definition logd_print_statistics :: "logd \<Rightarrow> event list" where
  "logd_print_statistics d = Syslog INFO ''Signal statistics:'' # map stat_line (table d)"

text \<open>The loop over the table: one line and one increment per matching entry.\<close>

fun count_signal :: "int \<Rightarrow> signal_value list \<Rightarrow> event list \<times> signal_value list" where
  "count_signal sig [] = ([], [])"
| "count_signal sig (s # ss) =
     (let (evs, ss') = count_signal sig ss
      in if sig = sig_val s
         then (Syslog INFO (''Got signal '' @ sig_name s @ '' ('' @ show_int sig @ '')'' @ [nl]) # evs,
               s\<lparr>sig_stat := sig_stat s + 1\<rparr> # ss')
         else (evs, s # ss'))"

definition signal_handler :: "int \<Rightarrow> logd \<Rightarrow> event list \<times> logd outcome" where
  "signal_handler sig d =
     (let (evs, t) = count_signal sig (table d); d' = d\<lparr>table := t\<rparr>
      in if sig = SIGTERM \<or> sig = SIGINT
         then (evs @ [Syslog INFO ''shutting down''] @ logd_print_statistics d', Exit EXIT_SUCCESS)
         else (evs, Done d'))"

text \<open>\<open>pid\<close> is \<^verbatim>\<open>siginf->si_pid\<close>, 0 for the kernel's own timer.\<close>

definition alarm_handler :: "int \<Rightarrow> logd \<Rightarrow> event list \<times> logd outcome" where
  "alarm_handler pid d =
     (if pid \<noteq> 0 then ([], Done d)
      else (logd_print_statistics d,
            Done (if timer_seconds d \<noteq> 0 then d\<lparr>pending_alarm := Some (timer_seconds d)\<rparr> else d)))"

section \<open>The logger\<close>

text \<open>
  What the system calls of the set-up answer: the error number of \<^verbatim>\<open>daemon\<close>, \<^verbatim>\<open>sigprocmask\<close> and of the
  \<^verbatim>\<open>sigaction\<close> for each signal (0 for success).
\<close>

record logd_env =
  le_daemon :: int
  le_procmask :: int
  le_sigaction :: "int \<Rightarrow> int"
  le_pid :: int

fun install_handlers :: "logd_env \<Rightarrow> signal_value list \<Rightarrow> event list \<times> bool" where
  "install_handlers env [] = ([], True)"
| "install_handlers env (s # ss) =
     (if le_sigaction env (sig_val s) \<noteq> 0
      then ([Error (le_sigaction env (sig_val s)) (''can'' @ [CHR 0x27] @ ''t set handler for '' @ sig_name s)], False)
      else let (evs, ok) = install_handlers env ss in (Syslog DEBUG (''Added signal '' @ sig_name s @ '' to handler'') # evs, ok))"

text \<open>The part of \<^verbatim>\<open>logger\<close> before its endless loop.\<close>

definition logger_setup :: "logd_env \<Rightarrow> log_options \<Rightarrow> event list \<times> logd outcome" where
  "logger_setup env options =
     (let timer = sint (lo_interval options);
          d = \<lparr>table = signals_to_log, timer_seconds = timer, pending_alarm = None\<rparr>
      in if lo_daemon options \<and> le_daemon env \<noteq> 0 then ([Error (le_daemon env) ''daemon opennig failed''], Exit EXIT_FAILURE)
         else let e1 = Syslog INFO (''PID: '' @ show_int (le_pid env)) #
                       map (\<lambda>s. Syslog DEBUG (''Added signal '' @ sig_name s @ '' to mask'')) signals_to_log in
         if le_procmask env \<noteq> 0 then (e1 @ [Error (le_procmask env) ''sigprocmask''], Exit EXIT_FAILURE)
         else case install_handlers env signals_to_log of
           (e2, False) \<Rightarrow> (e1 @ e2, Exit EXIT_FAILURE)
         | (e2, True) \<Rightarrow>
             if le_sigaction env SIGALRM \<noteq> 0
             then (e1 @ e2 @ [Error (le_sigaction env SIGALRM) (''can'' @ [CHR 0x27] @ ''t set handler for SIGALRM'')], Exit EXIT_FAILURE)
             else (e1 @ e2 @ [Syslog INFO ''Initalization successful''],
                   Done (if timer \<noteq> 0 then d\<lparr>pending_alarm := Some timer\<rparr> else d)))"

text \<open>
  A delivery: the signal and the sender's pid.  A pending alarm is consumed when the kernel
  delivers it.  Signals without a handler are not deliveries of this model.
\<close>

definition deliver :: "int \<times> int \<Rightarrow> logd \<Rightarrow> event list \<times> logd outcome" where
  "deliver sp d =
     (case sp of (sig, pid) \<Rightarrow>
        if sig = SIGALRM then alarm_handler pid (if pid = 0 then d\<lparr>pending_alarm := None\<rparr> else d)
        else signal_handler sig d)"

text \<open>The endless loop over \<^verbatim>\<open>sigsuspend\<close>, for the deliveries that arrive: the state it waits in.\<close>

fun logger_loop :: "(int \<times> int) list \<Rightarrow> logd \<Rightarrow> event list \<times> logd outcome" where
  "logger_loop [] d = ([], Done d)"
| "logger_loop (sp # sps) d =
     (case deliver sp d of
        (evs, Done d') \<Rightarrow> (let (evs', r) = logger_loop sps d' in (evs @ evs', r))
      | (evs, Exit c) \<Rightarrow> (evs, Exit c)
      | (evs, Fault f) \<Rightarrow> (evs, Fault f))"

definition logger :: "logd_env \<Rightarrow> log_options \<Rightarrow> (int \<times> int) list \<Rightarrow> event list \<times> logd outcome" where
  "logger env options sps =
     (case logger_setup env options of
        (evs, Done d) \<Rightarrow> (let (evs', r) = logger_loop sps d in (evs @ evs', r))
      | (evs, Exit c) \<Rightarrow> (evs, Exit c)
      | (evs, Fault f) \<Rightarrow> (evs, Fault f))"

section \<open>The program (siglogd.c)\<close>

definition logd_help :: string where
  "logd_help = ''Logger of signals'' @ [nl] @ ''Usage:'' @ [nl] @ ''eh, am lazy to do this, but I would just copy the assigment'' @ [nl]"

definition logd_option :: "log_options \<Rightarrow> opt_event \<Rightarrow> (event list \<times> int) + log_options" where
  "logd_option o1 e =
     (case e of
        Opt c a \<Rightarrow>
          if c = CHR ''h'' then Inl ([Stdout logd_help], EXIT_SUCCESS)
          else if c = CHR ''v'' then Inr (o1\<lparr>lo_error := True\<rparr>)
          else if c = CHR ''d'' then Inr (o1\<lparr>lo_daemon := True\<rparr>)
          else if c = CHR ''i'' then
            (let optarg = (case a of Some s \<Rightarrow> s | None \<Rightarrow> []); (v, endp, _) = strtol 10 optarg
             in if endp = optarg \<or> endp \<noteq> [] then Inl ([Stderr (''wrong input - expected number'' @ [nl])], EXIT_FAILURE)
                else Inr (o1\<lparr>lo_interval := word_of_int (to_int v)\<rparr>))
          else Inl ([Stdout logd_help], EXIT_FAILURE)
      | BadOpt \<Rightarrow> Inl ([Stdout logd_help], EXIT_FAILURE))"

definition siglogd_main :: "logd_env \<Rightarrow> (int \<times> int) list \<Rightarrow> string list \<Rightarrow> event list \<times> (int + logd) outcome" where
  "siglogd_main env sps args =
     (case run_opts logd_option \<lparr>lo_daemon = False, lo_error = False, lo_interval = 0\<rparr> (fst (getopt_all ''dvi:'' None args)) of
        Inl (evs, code) \<Rightarrow> (evs, Done (Inl code))
      | Inr o1 \<Rightarrow> map_prod id (map_outcome Inr) (logger env o1 sps))"

section \<open>Counting\<close>

definition logged :: "int \<Rightarrow> bool" where
  "logged sig \<longleftrightarrow> sig \<in> {SIGINT, SIGQUIT, SIGTERM, SIGUSR1, SIGUSR2, SIGCONT}"

lemma count_signal_table: "snd (count_signal sig ss) = map (\<lambda>s. if sig = sig_val s then s\<lparr>sig_stat := sig_stat s + 1\<rparr> else s) ss"
  by (induction ss) (auto simp: Let_def split: prod.splits)

text \<open>The table after a sequence of signals: every counter is the number of its occurrences.\<close>

definition counted :: "int list \<Rightarrow> signal_value list" where
  "counted sigs = map (\<lambda>s. s\<lparr>sig_stat := word_of_nat (count_list sigs (sig_val s))\<rparr>) signals_to_log"

definition no_end :: "int \<times> int \<Rightarrow> bool" where
  "no_end sp \<longleftrightarrow> fst sp \<noteq> SIGTERM \<and> fst sp \<noteq> SIGINT"

lemma counted_snoc: "map (\<lambda>s. if sig = sig_val s then s\<lparr>sig_stat := sig_stat s + 1\<rparr> else s) (counted sigs) = counted (sigs @ [sig])"
  by (simp add: counted_def)

lemma counted_alarm: "counted (sigs @ [SIGALRM]) = counted sigs"
  by (simp add: counted_def signals_to_log_def signal_numbers)

lemma logger_loop_counts:
  assumes "table d = counted sigs" "list_all no_end sps"
  shows "\<exists>evs d'. logger_loop sps d = (evs, Done d') \<and> table d' = counted (sigs @ map fst sps) \<and> timer_seconds d' = timer_seconds d"
  using assms
proof (induction sps arbitrary: d sigs)
  case (Cons sp sps)
  obtain sig pid where sp: "sp = (sig, pid)" by fastforce
  have "\<exists>evs d'. deliver sp d = (evs, Done d') \<and> table d' = counted (sigs @ [sig]) \<and> timer_seconds d' = timer_seconds d"
  proof (cases "sig = SIGALRM")
    case True
    with sp Cons.prems(1) show ?thesis by (simp add: deliver_def alarm_handler_def counted_alarm)
  next
    case False
    have "snd (count_signal sig (table d)) = counted (sigs @ [sig])"
      unfolding count_signal_table Cons.prems(1) by (rule counted_snoc)
    with False sp Cons.prems(2) show ?thesis by (auto simp: deliver_def signal_handler_def no_end_def Let_def split: prod.splits)
  qed
  then obtain evs d' where d': "deliver sp d = (evs, Done d')" "table d' = counted (sigs @ [sig])" "timer_seconds d' = timer_seconds d" by blast
  from Cons.IH [OF d'(2)] Cons.prems(2) d' sp show ?case by (fastforce simp: Let_def)
qed simp

lemma signals_zero: "table d = signals_to_log \<Longrightarrow> table d = counted []"
  by (simp add: counted_def signals_to_log_def)

lemma logger_loop_append:
  "logger_loop (xs @ ys) d = (case logger_loop xs d of (evs, Done d') \<Rightarrow> map_prod ((@) evs) id (logger_loop ys d') | r \<Rightarrow> r)"
  by (induction xs arbitrary: d) (auto simp: map_prod_def split: prod.splits outcome.splits)

section \<open>The properties\<close>

definition good_env :: "logd_env \<Rightarrow> bool" where
  "good_env env \<longleftrightarrow> le_daemon env = 0 \<and> le_procmask env = 0 \<and> (\<forall>s. le_sigaction env s = 0)"

lemma install_good: "good_env env \<Longrightarrow> snd (install_handlers env ss)"
  by (induction ss) (auto simp: good_env_def split: prod.splits)

lemma setup_good:
  assumes "good_env env"
  shows "\<exists>evs d. logger_setup env o1 = (evs, Done d) \<and> table d = signals_to_log \<and> timer_seconds d = sint (lo_interval o1) \<and>
    pending_alarm d = (if sint (lo_interval o1) \<noteq> 0 then Some (sint (lo_interval o1)) else None)"
proof -
  obtain e2 where "install_handlers env signals_to_log = (e2, True)"
    using install_good [OF assms, of signals_to_log] by (metis prod.collapse)
  with assms show ?thesis by (simp add: logger_setup_def Let_def good_env_def)
qed

text \<open>
  C23: the logger counts every delivered signal exactly once and reports the counts when it is
  told to stop: after any sequence of other signals, of which \<^verbatim>\<open>SIGALRM\<close> from the timer or from
  other processes does not count, \<^verbatim>\<open>SIGTERM\<close> ends the process with success, and the last messages
  are the number of occurrences of each logged signal, that one included.
\<close>

theorem siglogd_counts:
  assumes "good_env env" "list_all no_end sps"
  shows "\<exists>evs. logger env o1 (sps @ [(SIGTERM, pid)]) =
    (evs @ [Syslog INFO ''shutting down'', Syslog INFO ''Signal statistics:''] @
       map stat_line (counted (map fst sps @ [SIGTERM])), Exit EXIT_SUCCESS)"
proof -
  obtain e0 d where d: "logger_setup env o1 = (e0, Done d)" "table d = signals_to_log" using setup_good [OF assms(1)] by blast
  obtain e1 d1 where d1: "logger_loop sps d = (e1, Done d1)" "table d1 = counted (map fst sps)"
    using logger_loop_counts [OF signals_zero [OF d(2)] assms(2)] by auto
  have "snd (count_signal SIGTERM (table d1)) = counted (map fst sps @ [SIGTERM])"
    unfolding count_signal_table d1(2) by (rule counted_snoc)
  then have "\<exists>e2. deliver (SIGTERM, pid) d1 = (e2 @ [Syslog INFO ''shutting down'', Syslog INFO ''Signal statistics:''] @
       map stat_line (counted (map fst sps @ [SIGTERM])), Exit EXIT_SUCCESS)"
    by (auto simp: deliver_def signal_handler_def logd_print_statistics_def signal_numbers Let_def split: prod.splits)
  then show ?thesis using d(1) d1(1) by (auto simp: logger_def logger_loop_append)
qed

theorem siglogd_counts_witness:
  "\<exists>evs. logger \<lparr>le_daemon = 0, le_procmask = 0, le_sigaction = (\<lambda>_. 0), le_pid = 77\<rparr>
      \<lparr>lo_daemon = False, lo_error = False, lo_interval = 5\<rparr> ([(SIGUSR1, 9), (SIGALRM, 0), (SIGUSR1, 9)] @ [(SIGTERM, 9)]) =
    (evs @ [Syslog INFO ''shutting down'', Syslog INFO ''Signal statistics:''] @
       map stat_line (counted [SIGUSR1, SIGALRM, SIGUSR1, SIGTERM]), Exit EXIT_SUCCESS) \<and>
   map sig_stat (counted [SIGUSR1, SIGALRM, SIGUSR1, SIGTERM]) = [0, 0, 1, 2, 0, 0]"
  using siglogd_counts [of "\<lparr>le_daemon = 0, le_procmask = 0, le_sigaction = (\<lambda>_. 0), le_pid = 77\<rparr>"
      "[(SIGUSR1, 9), (SIGALRM, 0), (SIGUSR1, 9)]" "\<lparr>lo_daemon = False, lo_error = False, lo_interval = 5\<rparr>" 9]
  by (simp add: good_env_def no_end_def counted_def signals_to_log_def signal_numbers)

text \<open>
  \<^verbatim>\<open>-h\<close> is not in the option string, so asking for help prints the help text but fails.
\<close>

theorem siglogd_help_fails:
  "siglogd_main env sps [''-h''] = ([Stdout logd_help], Done (Inl EXIT_FAILURE))"
  by (simp add: siglogd_main_def is_option_def one_arg_def logd_option_def)

end
