(* ===== verification/Ptgrep.thy ===== *)
theory Ptgrep
  imports Getopt
begin

text \<open>
  \<^verbatim>\<open>hw08/ptgrep.c\<close>: a search for a string in several files, one thread per file.  Each thread
  writes only to its own \<^verbatim>\<open>struct thread_data\<close> and to the standard output, so the model runs the
  threads one after the other and keeps the output of each apart; how the outputs interleave
  is not part of it.  The inner loop need not end, so it takes fuel: \<open>None\<close> is "not done yet".
\<close>

section \<open>The search functions\<close>

definition strcasestr :: "string \<Rightarrow> string \<Rightarrow> nat option" where
  "strcasestr hay needle = strstr (map to_lower hay) (map to_lower needle)"

text \<open>The contract of both: the first place where the needle matches.\<close>

locale finder =
  fixes find :: "string \<Rightarrow> string \<Rightarrow> nat option" and matches :: "string \<Rightarrow> string \<Rightarrow> bool"
  assumes find_Some: "find hay needle = Some k \<Longrightarrow>
      k \<le> length hay \<and> matches needle (drop k hay) \<and> (\<forall>j < k. \<not> matches needle (drop j hay))"
    and find_None: "find hay needle = None \<longleftrightarrow> (\<forall>k \<le> length hay. \<not> matches needle (drop k hay))"
begin

definition places :: "string \<Rightarrow> string \<Rightarrow> nat \<Rightarrow> nat list" where
  "places line needle off = filter (\<lambda>p. matches needle (drop p line)) [off..<Suc (length line)]"

lemma places_None: "off \<le> length line \<Longrightarrow> find (drop off line) needle = None \<longleftrightarrow> places line needle off = []"
proof -
  assume off: "off \<le> length line"
  have "(\<forall>k \<le> length line - off. \<not> matches needle (drop (off + k) line)) \<longleftrightarrow> (\<forall>p \<in> set [off..<Suc (length line)]. \<not> matches needle (drop p line))"
  proof (intro iffI ballI)
    fix p assume all: "\<forall>k \<le> length line - off. \<not> matches needle (drop (off + k) line)" and "p \<in> set [off..<Suc (length line)]"
    then have "p - off \<le> length line - off" "off + (p - off) = p" by auto
    then show "\<not> matches needle (drop p line)" using all by metis
  qed (use off in auto)
  then show ?thesis using find_None [of "drop off line" needle] by (simp add: places_def filter_empty_conv add.commute)
qed

lemma places_Some:
  assumes "find (drop off line) needle = Some k" "off \<le> length line"
  shows "places line needle off = (off + k) # places line needle (Suc (off + k)) \<and> off + k \<le> length line"
proof -
  have k: "k \<le> length (drop off line)" "matches needle (drop (off + k) line)" "\<forall>j < k. \<not> matches needle (drop (off + j) line)"
    using find_Some [OF assms(1)] by (simp_all add: add.commute)
  then have le: "off + k \<le> length line" using assms(2) by simp
  have "\<not> matches needle (drop p line)" if "p \<in> set [off..<off + k]" for p
    using k(3) that by (auto dest: spec [of _ "p - off"])
  then have "filter (\<lambda>p. matches needle (drop p line)) [off..<off + k] = []" by (simp add: filter_empty_conv)
  moreover have "[off..<Suc (length line)] = [off..<off + k] @ (off + k) # [Suc (off + k)..<Suc (length line)]"
    using upt_add_eq_append [of off "off + k" "Suc (length line) - (off + k)"] le
    by (simp add: upt_conv_Cons del: upt_Suc)
  ultimately show ?thesis using k(2) le by (simp add: places_def)
qed

end

lemma strstr_first: "strstr hay needle = Some k \<Longrightarrow> j < k \<Longrightarrow> \<not> is_prefix needle (drop j hay)"
proof (induction hay arbitrary: k j)
  case Nil
  then show ?case by (subst (asm) strstr.simps) (simp split: if_splits)
next
  case (Cons h hs)
  then show ?case by (subst (asm) (2) strstr.simps) (cases j, auto split: if_splits)
qed

interpretation sens: finder strstr is_prefix
  by unfold_locales (auto simp: strstr_None dest: strstr_Some strstr_first)

interpretation insens: finder strcasestr "\<lambda>s t. is_prefix (map to_lower s) (map to_lower t)"
  by unfold_locales (auto simp: strcasestr_def strstr_None drop_map dest: strstr_Some strstr_first)

section \<open>The threads\<close>

record shared_thread_data =
  sh_string :: string
  sh_line_number :: bool
  sh_insensitive :: bool

record thread_data =
  td_file_name :: string
  td_opened :: bool
  td_found :: bool

definition string_find :: "shared_thread_data \<Rightarrow> string \<Rightarrow> string \<Rightarrow> nat option" where
  "string_find sh = (if sh_insensitive sh then strcasestr else strstr)"

text \<open>What is printed in front of every match, and a match at offset \<open>p\<close> on a terminal.\<close>

definition match_head :: "shared_thread_data \<Rightarrow> string \<Rightarrow> nat \<Rightarrow> string" where
  "match_head sh name line_num = name @ '': '' @ (if sh_line_number sh then show_nat line_num @ '': '' else [])"

definition ESC :: char where "ESC = CHR 0x1B"

definition highlight :: "string \<Rightarrow> nat \<Rightarrow> nat \<Rightarrow> string" where
  "highlight line p string_length =
     take p line @ ESC # ''[35m'' @ take string_length (drop p line) @ ESC # ''[0m'' @ drop (p + string_length) line"

text \<open>
  The inner loop, with \<^verbatim>\<open>line_copy\<close> at offset \<open>off\<close> of \<open>line\<close>: one output per match.  When the standard
  output is not a terminal the loop goes on from the same place.
\<close>

fun match_loop :: "nat \<Rightarrow> bool \<Rightarrow> shared_thread_data \<Rightarrow> string \<Rightarrow> string \<Rightarrow> nat \<Rightarrow> string list option" where
  "match_loop 0 tty sh head line off = None"
| "match_loop (Suc fuel) tty sh head line off =
     (case string_find sh (drop off line) (sh_string sh) of
        None \<Rightarrow> Some []
      | Some k \<Rightarrow>
          if \<not> tty then map_option ((#) (head @ line)) (match_loop fuel tty sh head line off)
          else let p = off + k; out = head @ highlight line p (length (sh_string sh))
            in if p + 1 > length line then Some [out]
               else map_option ((#) out) (match_loop fuel tty sh head line (p + 1)))"

text \<open>The loop over the lines; C strings end at a NUL byte.\<close>

fun line_loop :: "nat \<Rightarrow> bool \<Rightarrow> shared_thread_data \<Rightarrow> string \<Rightarrow> nat \<Rightarrow> string list \<Rightarrow> string list option" where
  "line_loop fuel tty sh name line_num [] = Some []"
| "line_loop fuel tty sh name line_num (l # ls) =
     (case match_loop fuel tty sh (match_head sh name line_num) (cstr l) 0 of
        None \<Rightarrow> None
      | Some outs \<Rightarrow> map_option ((@) outs) (line_loop fuel tty sh name (Suc line_num) ls))"

definition CANT_OPEN_FILE :: int where "CANT_OPEN_FILE = 1"
definition STRING_NOT_FOUND :: int where "STRING_NOT_FOUND = 2"

text \<open>\<open>files\<close> gives the contents of the files that can be opened.\<close>

definition thread_run :: "nat \<Rightarrow> bool \<Rightarrow> (string \<Rightarrow> string option) \<Rightarrow> shared_thread_data \<Rightarrow> thread_data \<Rightarrow>
    (event list \<times> thread_data \<times> int) option" where
  "thread_run fuel tty files sh searcher =
     (case files (td_file_name searcher) of
        None \<Rightarrow> Some ([Stderr (''Can'' @ [CHR 0x27] @ ''t open file: '' @ td_file_name searcher @ [nl])], searcher, CANT_OPEN_FILE)
      | Some text \<Rightarrow>
          (case line_loop fuel tty sh (td_file_name searcher) 0 (input_lines text) of
             None \<Rightarrow> None
           | Some outs \<Rightarrow>
               Some (map Stdout outs, searcher\<lparr>td_opened := True, td_found := (td_found searcher \<or> outs \<noteq> [])\<rparr>,
                     if outs = [] then STRING_NOT_FOUND else 0)))"

section \<open>The program\<close>

definition ptgrep_help :: "string \<Rightarrow> string" where
  "ptgrep_help argv0 = ''usage: '' @ argv0 @ '' [OPTIONS] STRING [FILES...]'' @ [nl, nl] @
     ''OPTIONS AND ARGUMENTS'' @ [nl] @ ''  -h'' @ [CHR 0x09, CHR 0x09] @ ''show this message and exit'' @ [nl] @
     ''  -n'' @ [CHR 0x09, CHR 0x09] @ ''write out line number when the matching string has been found'' @ [nl, nl] @
     ''  STRING'' @ [CHR 0x09] @ ''String that we are searching for in files.'' @ [nl] @
     ''  FILES '' @ [CHR 0x09] @ ''Files that are meant to be searched.'' @ [nl]"

definition ptgrep_option :: "string \<Rightarrow> shared_thread_data \<Rightarrow> opt_event \<Rightarrow> (event list \<times> int) + shared_thread_data" where
  "ptgrep_option argv0 sh e =
     (case e of
        Opt c _ \<Rightarrow>
          if c = CHR ''h'' then Inl ([Stdout (ptgrep_help argv0)], EXIT_SUCCESS)
          else if c = CHR ''n'' then Inr (sh\<lparr>sh_line_number := True\<rparr>)
          else if c = CHR ''i'' then Inr (sh\<lparr>sh_insensitive := True\<rparr>)
          else Inl ([Stdout (ptgrep_help argv0)], EXIT_FAILURE)
      | BadOpt \<Rightarrow> Inl ([Stdout (ptgrep_help argv0)], EXIT_FAILURE))"

fun run_threads :: "nat \<Rightarrow> bool \<Rightarrow> (string \<Rightarrow> string option) \<Rightarrow> shared_thread_data \<Rightarrow> string list \<Rightarrow>
    (event list \<times> thread_data) list option" where
  "run_threads fuel tty files sh [] = Some []"
| "run_threads fuel tty files sh (f # fs) =
     (case thread_run fuel tty files sh \<lparr>td_file_name = f, td_opened = False, td_found = False\<rparr> of
        None \<Rightarrow> None
      | Some (evs, td, _) \<Rightarrow> map_option ((#) (evs, td)) (run_threads fuel tty files sh fs))"

text \<open>
  \<^verbatim>\<open>main\<close>: the messages of \<^verbatim>\<open>main\<close> itself, the outputs of the threads, and the exit status;
  \<open>None\<close> while some thread is still running.  \<open>malloc_ok\<close>, \<open>thread_err\<close>: the success of \<^verbatim>\<open>malloc\<close> and the error
  number of the first \<^verbatim>\<open>pthread_create\<close> that fails (0 for none; the process then ends, and what the
  threads started before it have printed by then is not part of the model).
\<close>

definition ptgrep_main :: "nat \<Rightarrow> bool \<Rightarrow> int \<Rightarrow> bool \<Rightarrow> (string \<Rightarrow> string option) \<Rightarrow> string \<Rightarrow> string list \<Rightarrow>
    (event list \<times> event list list \<times> int) option" where
  "ptgrep_main fuel malloc_ok thread_err tty files argv0 args =
     (let (es, operands) = getopt_all ''nhi'' None args in
      case run_opts (ptgrep_option argv0) \<lparr>sh_string = [], sh_line_number = False, sh_insensitive = False\<rparr> es of
        Inl (evs, code) \<Rightarrow> Some (evs, [], code)
      | Inr sh \<Rightarrow>
          (case operands of
             [] \<Rightarrow> Some ([Stderr (''No string specified'' @ [nl]), Stderr (''No files specified'' @ [nl])], [], EXIT_FAILURE)
           | [s] \<Rightarrow> Some ([Stderr (''No files specified'' @ [nl])], [], EXIT_FAILURE)
           | s # fs \<Rightarrow>
               if \<not> malloc_ok then Some ([Error 12 ''malloc''], [], EXIT_FAILURE)
               else if thread_err \<noteq> 0 then Some ([Error thread_err ''pthread_create''], [], EXIT_FAILURE)
               else case run_threads fuel tty files (sh\<lparr>sh_string := s\<rparr>) fs of
                 None \<Rightarrow> None
               | Some rs \<Rightarrow>
                   (let opened = list_all (\<lambda>(_, td). td_opened td) rs; found = list_ex (\<lambda>(_, td). td_found td) rs
                    in Some ([], map fst rs, if \<not> opened \<or> \<not> found then EXIT_FAILURE else EXIT_SUCCESS))))"

section \<open>The inner loop on a terminal and elsewhere\<close>

definition match_at :: "shared_thread_data \<Rightarrow> string \<Rightarrow> bool" where
  "match_at sh t \<longleftrightarrow> (if sh_insensitive sh then is_prefix (map to_lower (sh_string sh)) (map to_lower t) else is_prefix (sh_string sh) t)"

definition match_places :: "shared_thread_data \<Rightarrow> string \<Rightarrow> nat \<Rightarrow> nat list" where
  "match_places sh line off = filter (\<lambda>p. match_at sh (drop p line)) [off..<Suc (length line)]"

lemma match_places_eq:
  "match_places sh line off = (if sh_insensitive sh then insens.places line (sh_string sh) off else sens.places line (sh_string sh) off)"
  by (simp add: match_places_def match_at_def insens.places_def sens.places_def)

lemma find_none: "off \<le> length line \<Longrightarrow> string_find sh (drop off line) (sh_string sh) = None \<longleftrightarrow> match_places sh line off = []"
  using sens.places_None insens.places_None by (simp add: string_find_def match_places_eq)

lemma find_some:
  "string_find sh (drop off line) (sh_string sh) = Some k \<Longrightarrow> off \<le> length line \<Longrightarrow>
     match_places sh line off = (off + k) # match_places sh line (Suc (off + k)) \<and> off + k \<le> length line"
  using sens.places_Some insens.places_Some by (simp add: string_find_def match_places_eq split: if_splits)

lemma match_loop_tty:
  "off \<le> length line \<Longrightarrow> length line - off < fuel \<Longrightarrow>
     match_loop fuel True sh head line off = Some (map (\<lambda>p. head @ highlight line p (length (sh_string sh))) (match_places sh line off))"
proof (induction fuel arbitrary: off)
  case (Suc fuel)
  show ?case
  proof (cases "string_find sh (drop off line) (sh_string sh)")
    case None
    moreover from this have "match_places sh line off = []" using find_none [OF Suc.prems(1)] by blast
    ultimately show ?thesis by simp
  next
    case (Some k)
    from find_some [OF this Suc.prems(1)]
    have pl: "match_places sh line off = (off + k) # match_places sh line (Suc (off + k))" "off + k \<le> length line" by auto
    show ?thesis
    proof (cases "off + k + 1 > length line")
      case True
      then have "match_places sh line (Suc (off + k)) = []" by (simp add: match_places_def)
      with True Some pl show ?thesis by (simp add: Let_def)
    next
      case False
      with Suc.IH [of "Suc (off + k)"] Suc.prems Some pl show ?thesis by (simp add: Let_def)
    qed
  qed
qed simp

lemma match_loop_pipe: "off \<le> length line \<Longrightarrow> match_places sh line off \<noteq> [] \<Longrightarrow> match_loop fuel False sh head line off = None"
  using find_none [of off line sh] by (induction fuel) (auto split: option.splits)

lemma cstr_length: "length (cstr l) \<le> length l"
  by (simp add: cstr_def length_takeWhile_le)

text \<open>The outputs of one file on a terminal: every match of every line, in order.\<close>

fun file_matches :: "shared_thread_data \<Rightarrow> string \<Rightarrow> nat \<Rightarrow> string list \<Rightarrow> string list" where
  "file_matches sh name i [] = []"
| "file_matches sh name i (l # ls) =
     map (\<lambda>p. match_head sh name i @ highlight (cstr l) p (length (sh_string sh))) (match_places sh (cstr l) 0) @
     file_matches sh name (Suc i) ls"

lemma line_loop_tty:
  "(\<And>l. l \<in> set ls \<Longrightarrow> length l < fuel) \<Longrightarrow> line_loop fuel True sh name i ls = Some (file_matches sh name i ls)"
proof (induction ls arbitrary: i)
  case (Cons l ls)
  have "length (cstr l) < fuel" using Cons.prems [of l] cstr_length [of l] by simp
  with Cons match_loop_tty [of 0 "cstr l" fuel sh "match_head sh name i"] show ?case by simp
qed simp

definition line_matches :: "shared_thread_data \<Rightarrow> string \<Rightarrow> bool" where
  "line_matches sh l \<longleftrightarrow> match_places sh (cstr l) 0 \<noteq> []"

lemma file_matches_Nil: "file_matches sh name i ls = [] \<longleftrightarrow> (\<forall>l \<in> set ls. \<not> line_matches sh l)"
  by (induction ls arbitrary: i) (auto simp: line_matches_def)

lemma line_loop_pipe: "l \<in> set ls \<Longrightarrow> line_matches sh l \<Longrightarrow> line_loop fuel False sh name i ls = None"
  by (induction ls arbitrary: i) (auto simp: match_loop_pipe line_matches_def split: option.splits)

definition short_lines :: "nat \<Rightarrow> (string \<Rightarrow> string option) \<Rightarrow> string list \<Rightarrow> bool" where
  "short_lines fuel files fs \<longleftrightarrow> (\<forall>f \<in> set fs. \<forall>text. files f = Some text \<longrightarrow> (\<forall>l \<in> set (input_lines text). length l < fuel))"

definition file_hit :: "(string \<Rightarrow> string option) \<Rightarrow> shared_thread_data \<Rightarrow> string \<Rightarrow> bool" where
  "file_hit files sh f \<longleftrightarrow> (case files f of None \<Rightarrow> False | Some text \<Rightarrow> \<exists>l \<in> set (input_lines text). line_matches sh l)"

lemma run_threads_tty:
  assumes "short_lines fuel files fs"
  shows "\<exists>rs. run_threads fuel True files sh fs = Some rs \<and>
    (list_all (\<lambda>(_, td). td_opened td) rs \<longleftrightarrow> (\<forall>f \<in> set fs. files f \<noteq> None)) \<and>
    (list_ex (\<lambda>(_, td). td_found td) rs \<longleftrightarrow> (\<exists>f \<in> set fs. file_hit files sh f))"
  using assms
proof (induction fs)
  case (Cons f fs)
  then obtain rs where rs: "run_threads fuel True files sh fs = Some rs"
    "list_all (\<lambda>(_, td). td_opened td) rs \<longleftrightarrow> (\<forall>f \<in> set fs. files f \<noteq> None)"
    "list_ex (\<lambda>(_, td). td_found td) rs \<longleftrightarrow> (\<exists>f \<in> set fs. file_hit files sh f)"
    by (auto simp: short_lines_def)
  show ?case
  proof (cases "files f")
    case None
    with rs show ?thesis by (simp add: thread_run_def file_hit_def)
  next
    case (Some body)
    with Cons.prems have "line_loop fuel True sh f 0 (input_lines body) = Some (file_matches sh f 0 (input_lines body))"
      by (intro line_loop_tty) (auto simp: short_lines_def)
    with rs Some show ?thesis by (auto simp: thread_run_def file_hit_def file_matches_Nil)
  qed
qed simp

lemma run_threads_pipe: "f \<in> set fs \<Longrightarrow> file_hit files sh f \<Longrightarrow> run_threads fuel False files sh fs = None"
proof (induction fs)
  case (Cons g fs)
  show ?case
  proof (cases "g = f")
    case True
    with Cons.prems show ?thesis by (auto simp: thread_run_def file_hit_def line_loop_pipe split: option.splits)
  next
    case False
    with Cons show ?thesis by (auto split: option.splits)
  qed
qed simp

abbreviation plain_search :: "string \<Rightarrow> shared_thread_data" where
  "plain_search s \<equiv> \<lparr>sh_string = s, sh_line_number = False, sh_insensitive = False\<rparr>"

lemma ptgrep_plain:
  assumes "list_all (\<lambda>a. \<not> is_prefix ''-'' a) (s # fs)" "fs \<noteq> []"
  shows "ptgrep_main fuel True 0 tty files argv0 (s # fs) =
    (case run_threads fuel tty files (plain_search s) fs of
       None \<Rightarrow> None
     | Some rs \<Rightarrow> Some ([], map fst rs, if \<not> list_all (\<lambda>(_, td). td_opened td) rs \<or> \<not> list_ex (\<lambda>(_, td). td_found td) rs
                         then EXIT_FAILURE else EXIT_SUCCESS))"
  using getopt_operands [OF assms(1), of "''nhi''" None] assms(2)
  by (simp add: ptgrep_main_def Let_def split: list.split option.split)

section \<open>The properties\<close>

text \<open>
  C24: on a terminal, a thread always ends (the fuel is any number above the length of the longest
  line), and it prints every occurrence of the string, overlapping ones included, in the order
  of the lines and of their places in the line, each time with the whole line around it.
\<close>

theorem thread_run_terminal:
  assumes "files name = Some text" "\<And>l. l \<in> set (input_lines text) \<Longrightarrow> length l < fuel"
  shows "thread_run fuel True files sh \<lparr>td_file_name = name, td_opened = False, td_found = False\<rparr> =
    Some (map Stdout (file_matches sh name 0 (input_lines text)),
      \<lparr>td_file_name = name, td_opened = True, td_found = (\<exists>l \<in> set (input_lines text). line_matches sh l)\<rparr>,
      if \<exists>l \<in> set (input_lines text). line_matches sh l then 0 else STRING_NOT_FOUND)"
  using line_loop_tty [where ls = "input_lines text" and fuel = fuel and sh = sh and name = name and i = 0] assms by (auto simp: thread_run_def file_matches_Nil)

theorem thread_run_terminal_witness:
  "thread_run 9 True [''a.txt'' \<mapsto> ''xoox''] (plain_search ''o'') \<lparr>td_file_name = ''a.txt'', td_opened = False, td_found = False\<rparr> =
    Some ([Stdout (''a.txt: x'' @ ESC # ''[35mo'' @ ESC # ''[0mox''), Stdout (''a.txt: xo'' @ ESC # ''[35mo'' @ ESC # ''[0mx'')],
      \<lparr>td_file_name = ''a.txt'', td_opened = True, td_found = True\<rparr>, 0)"
proof -
  have lines: "input_lines ''xoox'' = [''xoox'']" by (simp add: nl_def)
  have c: "cstr ''xoox'' = ''xoox''" by (simp add: cstr_def nul_def)
  have pl: "match_places (plain_search ''o'') ''xoox'' 0 = [1, 2]"
    by (simp add: match_places_def match_at_def upt_rec)
  have "thread_run 9 True [''a.txt'' \<mapsto> ''xoox''] (plain_search ''o'') \<lparr>td_file_name = ''a.txt'', td_opened = False, td_found = False\<rparr> =
    Some (map Stdout (file_matches (plain_search ''o'') ''a.txt'' 0 (input_lines ''xoox'')),
      \<lparr>td_file_name = ''a.txt'', td_opened = True, td_found = (\<exists>l \<in> set (input_lines ''xoox''). line_matches (plain_search ''o'') l)\<rparr>,
      if \<exists>l \<in> set (input_lines ''xoox''). line_matches (plain_search ''o'') l then 0 else STRING_NOT_FOUND)"
    by (rule thread_run_terminal) (simp_all only: lines, simp_all)
  then show ?thesis
    by (simp add: lines [simplified] c [simplified] pl [simplified] line_matches_def match_head_def highlight_def)
qed

text \<open>
  C25: on a terminal, the program ends with success if and only if every file could be opened and
  at least one line of one file contains the string.
\<close>

theorem ptgrep_exit_status:
  assumes "list_all (\<lambda>a. \<not> is_prefix ''-'' a) (s # fs)" "fs \<noteq> []" "short_lines fuel files fs"
  shows "\<exists>outs. ptgrep_main fuel True 0 True files argv0 (s # fs) =
    Some ([], outs, if (\<forall>f \<in> set fs. files f \<noteq> None) \<and> (\<exists>f \<in> set fs. file_hit files (plain_search s) f)
                    then EXIT_SUCCESS else EXIT_FAILURE)"
  using run_threads_tty [OF assms(3), of "plain_search s"] ptgrep_plain [OF assms(1,2), of fuel True files argv0] by auto

theorem ptgrep_exit_status_witness:
  "\<exists>outs. ptgrep_main 5 True 0 True [''a'' \<mapsto> ''xo'', ''b'' \<mapsto> ''z''] ''ptgrep'' [''o'', ''a'', ''b''] = Some ([], outs, EXIT_SUCCESS)"
proof -
  have "short_lines 5 [''a'' \<mapsto> ''xo'', ''b'' \<mapsto> ''z''] [''a'', ''b'']" by (simp add: short_lines_def nl_def)
  moreover have "file_hit [''a'' \<mapsto> ''xo'', ''b'' \<mapsto> ''z''] (plain_search ''o'') ''a''"
    by (simp add: file_hit_def line_matches_def match_places_def match_at_def cstr_def nl_def nul_def upt_rec)
  ultimately show ?thesis
    using ptgrep_exit_status [of "''o''" "[''a'', ''b'']" 5 "[''a'' \<mapsto> ''xo'', ''b'' \<mapsto> ''z'']" "''ptgrep''"] by auto
qed

text \<open>
  When the standard output is not a terminal, a match makes its thread print the line for
  ever, and the program never ends, whatever the amount of fuel.
\<close>

theorem ptgrep_pipe_never_ends:
  assumes "list_all (\<lambda>a. \<not> is_prefix ''-'' a) (s # fs)" "f \<in> set fs" "file_hit files (plain_search s) f"
  shows "ptgrep_main fuel True 0 False files argv0 (s # fs) = None"
proof -
  have "fs \<noteq> []" using assms(2) by auto
  with ptgrep_plain [OF assms(1) this, of fuel False files argv0] run_threads_pipe [OF assms(2,3), of fuel] show ?thesis by simp
qed

theorem ptgrep_pipe_never_ends_witness:
  "ptgrep_main 1000 True 0 False [''a'' \<mapsto> ''xo''] ''ptgrep'' [''o'', ''a''] = None"
  by (rule ptgrep_pipe_never_ends [where f = "''a''"])
    (simp_all add: file_hit_def line_matches_def match_places_def match_at_def cstr_def nl_def nul_def upt_rec)

end
