(* ===== verification/Fifo_Spec.thy ===== *)
theory Fifo_Spec
  imports C_Prelude
begin

text \<open>
  The interface of a first-in first-out container: \<open>fifo\<close> is what the bookkeeping of a container
  promises (which elements are stored, in which order), \<open>fifo_values\<close> adds that the element
  handed out is the oldest one.  The ring buffer of \<^verbatim>\<open>hw09\<close> provides the first, the linked list of
  \<^verbatim>\<open>ex09/primes\<close> provides both.
\<close>

datatype 'a fifo_op = Put 'a | Get

locale fifo =
  fixes invar :: "'q \<Rightarrow> bool" and contents :: "'q \<Rightarrow> 'a list"
    and can_put :: "'q \<Rightarrow> 'a \<Rightarrow> bool" and put :: "'q \<Rightarrow> 'a \<Rightarrow> 'q"
    and can_get :: "'q \<Rightarrow> bool" and get :: "'q \<Rightarrow> 'q"
  assumes put_contents: "invar q \<Longrightarrow> can_put q a \<Longrightarrow> contents (put q a) = contents q @ [a]"
    and get_contents: "invar q \<Longrightarrow> can_get q \<Longrightarrow> contents (get q) = tl (contents q)"
    and can_get_iff: "invar q \<Longrightarrow> can_get q \<longleftrightarrow> contents q \<noteq> []"
    and put_invar: "invar q \<Longrightarrow> can_put q a \<Longrightarrow> invar (put q a)"
    and get_invar: "invar q \<Longrightarrow> can_get q \<Longrightarrow> invar (get q)"
begin

text \<open>Operations that are not possible are refused and change nothing.\<close>

fun apply_op :: "'q \<Rightarrow> 'a fifo_op \<Rightarrow> 'q" where
  "apply_op q (Put a) = (if can_put q a then put q a else q)"
| "apply_op q Get = (if can_get q then get q else q)"

fun accepted :: "'q \<Rightarrow> 'a fifo_op list \<Rightarrow> 'a list" where
  "accepted q [] = []"
| "accepted q (Put a # os) = (if can_put q a then a # accepted (put q a) os else accepted q os)"
| "accepted q (Get # os) = accepted (apply_op q Get) os"

fun removed :: "'q \<Rightarrow> 'a fifo_op list \<Rightarrow> nat" where
  "removed q [] = 0"
| "removed q (Put a # os) = removed (apply_op q (Put a)) os"
| "removed q (Get # os) = (if can_get q then Suc (removed (get q) os) else removed q os)"

lemma apply_op_invar: "invar q \<Longrightarrow> invar (apply_op q x)"
  by (cases x) (auto intro: put_invar get_invar)

lemma run_invar: "invar q \<Longrightarrow> invar (foldl apply_op q os)"
  by (induction os arbitrary: q) (auto intro: apply_op_invar)

lemma run_contents:
  "invar q \<Longrightarrow> contents (foldl apply_op q os) = drop (removed q os) (contents q @ accepted q os) \<and>
     removed q os \<le> length (contents q @ accepted q os)"
proof (induction os arbitrary: q)
  case Nil
  then show ?case by simp
next
  case (Cons x os)
  have inv: "invar (apply_op q x)" using Cons.prems by (rule apply_op_invar)
  show ?case
  proof (cases x)
    case (Put a)
    with Cons.IH [OF inv] Cons.prems show ?thesis by (auto simp: put_contents simp del: drop_append)
  next
    case Get
    show ?thesis
    proof (cases "can_get q")
      case True
      then obtain b bs where "contents q = b # bs"
        using can_get_iff [OF Cons.prems] by (cases "contents q") auto
      with Get True Cons.IH [OF inv] Cons.prems show ?thesis by (auto simp: get_contents)
    next
      case False
      with Get Cons.IH [OF inv] Cons.prems show ?thesis by auto
    qed
  qed
qed

end

locale fifo_values = fifo invar contents can_put put can_get get
  for invar :: "'q \<Rightarrow> bool" and contents :: "'q \<Rightarrow> 'a list"
    and can_put :: "'q \<Rightarrow> 'a \<Rightarrow> bool" and put :: "'q \<Rightarrow> 'a \<Rightarrow> 'q"
    and can_get :: "'q \<Rightarrow> bool" and get :: "'q \<Rightarrow> 'q" +
  fixes front :: "'q \<Rightarrow> 'a"
  assumes front_hd: "invar q \<Longrightarrow> can_get q \<Longrightarrow> front q = hd (contents q)"
begin

fun outputs :: "'q \<Rightarrow> 'a fifo_op list \<Rightarrow> 'a list" where
  "outputs q [] = []"
| "outputs q (Put a # os) = outputs (apply_op q (Put a)) os"
| "outputs q (Get # os) = (if can_get q then front q # outputs (get q) os else outputs q os)"

text \<open>The elements come out in the order they went in, none lost, none twice.\<close>

lemma outputs_fifo:
  "invar q \<Longrightarrow> outputs q os @ contents (foldl apply_op q os) = contents q @ accepted q os"
proof (induction os arbitrary: q)
  case Nil
  then show ?case by simp
next
  case (Cons x os)
  have inv: "invar (apply_op q x)" using Cons.prems by (rule apply_op_invar)
  show ?case
  proof (cases x)
    case (Put a)
    with Cons.IH [OF inv] Cons.prems show ?thesis by (auto simp: put_contents)
  next
    case Get
    show ?thesis
    proof (cases "can_get q")
      case True
      then obtain b bs where "contents q = b # bs"
        using can_get_iff [OF Cons.prems] by (cases "contents q") auto
      with Get True Cons.IH [OF inv] Cons.prems show ?thesis by (auto simp: get_contents front_hd)
    next
      case False
      with Get Cons.IH [OF inv] Cons.prems show ?thesis by auto
    qed
  qed
qed

end

end
