(* ===== verification/Queue_Lib.thy ===== *)
theory Queue_Lib
  imports Fifo_Spec
begin

text \<open>
  \<^verbatim>\<open>hw09/queue.c\<close>, the operations of the thread-safe queue as the thread that holds the mutex runs
  them: the ring buffer with its byte memory, the constructor and the destructor with the
  resources they acquire and release, the queries, the non-blocking operations, the error
  codes.  The blocking operations and the interleaving of threads are in \<open>Queue_Threads\<close>.
  The struct members carry the prefix \<open>q_\<close>, because several of them share their name with a
  function.  Sizes and indices are \<^verbatim>\<open>size_t\<close>; they stay below the capacity, so \<open>nat\<close> is exact, and
  the one computation that wraps (\<^verbatim>\<open>queue_forecast\<close>) is done on 64-bit words.
\<close>

section \<open>Data\<close>

datatype queue_error_codes = QUEUE_SUCCESS | ALLOC_FAILURE | WRONG_QUEUE_ARG | MUTEX_INIT_FAIL
  | COND_INIT_FAIL | MUTEX_DESTROY_FAIL | COND_DESTROY_FAIL | CANT_LOCK | QUEUE_FULL | QUEUE_EMPTY
  | QUEUE_ABORT | KEY_ERROR

record queue_memory =
  q_memory :: "byte list"
  q_size :: nat
  q_read_pointer :: nat
  q_write_pointer :: nat

text \<open>The mutex and the condition variables are part of the thread system, not of this record.\<close>

record queue_synchronization =
  q_aborted :: bool
  q_waiting_for_pop :: nat
  q_waiting_for_push :: nat

text \<open>\<open>q_lib_errno\<close> is the value of the thread-specific key in each thread.\<close>

record queue =
  q_capacity :: nat
  q_elem_size :: nat
  q_lib_errno :: "nat \<Rightarrow> queue_error_codes"
  q_buffer :: queue_memory
  q_sync :: queue_synchronization

abbreviation set_buffer :: "(queue_memory \<Rightarrow> queue_memory) \<Rightarrow> queue \<Rightarrow> queue" where
  "set_buffer f q \<equiv> q\<lparr>q_buffer := f (q_buffer q)\<rparr>"

abbreviation set_sync :: "(queue_synchronization \<Rightarrow> queue_synchronization) \<Rightarrow> queue \<Rightarrow> queue" where
  "set_sync f q \<equiv> q\<lparr>q_sync := f (q_sync q)\<rparr>"

section \<open>Error state and queries\<close>

definition return_error_state :: "queue_error_codes \<Rightarrow> nat \<Rightarrow> queue \<Rightarrow> queue \<times> queue_error_codes" where
  "return_error_state error_state tid q =
     (q\<lparr>q_lib_errno := (q_lib_errno q)(tid := error_state)\<rparr>, error_state)"

definition queue_errno :: "nat \<Rightarrow> queue \<Rightarrow> queue_error_codes" where
  "queue_errno tid q = q_lib_errno q tid"

definition queue_capacity :: "queue \<Rightarrow> nat" where
  "queue_capacity q = q_capacity q"

definition queue_element :: "queue \<Rightarrow> nat" where
  "queue_element q = q_elem_size q"

definition queue_size :: "queue \<Rightarrow> nat" where
  "queue_size q = q_size (q_buffer q)"

definition queue_is_empty :: "queue \<Rightarrow> bool" where
  "queue_is_empty q \<longleftrightarrow> q_size (q_buffer q) = 0"

definition queue_is_full :: "queue \<Rightarrow> bool" where
  "queue_is_full q \<longleftrightarrow> q_size (q_buffer q) = q_capacity q"

text \<open>Unsigned arithmetic on \<^verbatim>\<open>size_t\<close>, read back as \<^verbatim>\<open>ssize_t\<close>.\<close>

definition queue_forecast :: "queue \<Rightarrow> int" where
  "queue_forecast q =
     sint (word_of_nat (q_size (q_buffer q)) - word_of_nat (q_waiting_for_pop (q_sync q)) +
           word_of_nat (q_waiting_for_push (q_sync q)) :: size_t)"

section \<open>Copying elements\<close>

text \<open>\<^verbatim>\<open>memcpy\<close> into and out of the buffer at an offset; outside of the allocation it faults.\<close>

definition mem_store :: "byte list \<Rightarrow> nat \<Rightarrow> byte list \<Rightarrow> byte list outcome" where
  "mem_store mem off bs =
     (if off + length bs \<le> length mem then Done (take off mem @ bs @ drop (off + length bs) mem)
      else Fault OutOfBounds)"

definition mem_load :: "byte list \<Rightarrow> nat \<Rightarrow> nat \<Rightarrow> byte list outcome" where
  "mem_load mem off n = (if off + n \<le> length mem then Done (take n (drop off mem)) else Fault OutOfBounds)"

text \<open>
  The part of \<^verbatim>\<open>queue_push\<close> and \<^verbatim>\<open>queue_try_push\<close> after the wait: copy the element, advance the
  write pointer, count it.  \<open>elem\<close> is the caller's memory, of which \<^verbatim>\<open>elem_size\<close> bytes are read.
\<close>

definition push_commit :: "queue \<Rightarrow> byte list \<Rightarrow> queue outcome" where
  "push_commit q elem =
     (if length elem < q_elem_size q then Fault OutOfBounds
      else case mem_store (q_memory (q_buffer q)) (q_write_pointer (q_buffer q) * q_elem_size q)
                  (take (q_elem_size q) elem) of
        Done mem \<Rightarrow>
          (if q_capacity q = 0 then Fault DivByZero
           else Done (set_buffer (\<lambda>b. b\<lparr>q_memory := mem,
                   q_write_pointer := (q_write_pointer b + 1) mod q_capacity q,
                   q_size := q_size b + 1\<rparr>) q))
      | Exit c \<Rightarrow> Exit c
      | Fault f \<Rightarrow> Fault f)"

text \<open>
  The part of \<^verbatim>\<open>queue_pop\<close> and \<^verbatim>\<open>queue_try_pop\<close> after the wait.  The source copies from the slot of
  the \<^emph>\<open>write\<close> pointer and then advances the read pointer.  \<open>want\<close> is \<^verbatim>\<open>elem != NULL\<close>; the second
  component is what was copied to \<^verbatim>\<open>elem\<close>.
\<close>

definition pop_commit :: "queue \<Rightarrow> bool \<Rightarrow> (queue \<times> byte list option) outcome" where
  "pop_commit q want =
     (case (if want then map_outcome Some (mem_load (q_memory (q_buffer q))
                  (q_write_pointer (q_buffer q) * q_elem_size q) (q_elem_size q)) else Done None) of
        Done out \<Rightarrow>
          (if q_capacity q = 0 then Fault DivByZero
           else Done (set_buffer (\<lambda>b. b\<lparr>
                   q_read_pointer := (q_read_pointer b + 1) mod q_capacity q,
                   q_size := q_size b - 1\<rparr>) q, out))
      | Exit c \<Rightarrow> Exit c
      | Fault f \<Rightarrow> Fault f)"

section \<open>The non-blocking operations\<close>

text \<open>
  \<open>free\<close> says whether \<^verbatim>\<open>pthread_mutex_trylock\<close> succeeds.  The element is \<open>None\<close> for \<^verbatim>\<open>NULL\<close>.  The
  signal to the other side is part of the thread system.
\<close>

definition queue_try_push :: "nat \<Rightarrow> bool \<Rightarrow> queue \<Rightarrow> byte list option \<Rightarrow> (queue \<times> queue_error_codes) outcome" where
  "queue_try_push tid free q elem =
     (case elem of
        None \<Rightarrow> Done (return_error_state WRONG_QUEUE_ARG tid q)
      | Some e \<Rightarrow>
          if \<not> free then Done (return_error_state CANT_LOCK tid q)
          else if queue_is_full q then Done (return_error_state QUEUE_FULL tid q)
          else map_outcome (\<lambda>q'. (q', QUEUE_SUCCESS)) (push_commit q e))"

definition queue_try_pop ::
    "nat \<Rightarrow> bool \<Rightarrow> queue \<Rightarrow> bool \<Rightarrow> (queue \<times> byte list option \<times> queue_error_codes) outcome" where
  "queue_try_pop tid free q want =
     (if \<not> free then (let (q', c) = return_error_state CANT_LOCK tid q in Done (q', None, c))
      else if queue_is_empty q then (let (q', c) = return_error_state QUEUE_EMPTY tid q in Done (q', None, c))
      else map_outcome (\<lambda>(q', out). (q', out, QUEUE_SUCCESS)) (pop_commit q want))"

text \<open>The state change of \<^verbatim>\<open>queue_abort\<close>; its two broadcasts are part of the thread system.\<close>

definition queue_abort :: "queue \<Rightarrow> queue \<times> queue_error_codes" where
  "queue_abort q = (set_sync (\<lambda>s. s\<lparr>q_aborted := True\<rparr>) q, QUEUE_SUCCESS)"

section \<open>Constructor and destructor\<close>

datatype resource = QueueBlock | BufferBlock | ErrnoKey | QueueMutex | CondPop | CondPush

text \<open>What the system calls of the constructor answer.\<close>

record create_env =
  calloc_queue_ok :: bool
  calloc_buffer_ok :: bool
  key_create_ok :: bool
  setspecific_ok :: bool
  mutex_init_ok :: bool
  cond_pop_init_ok :: bool
  cond_push_init_ok :: bool

definition new_queue :: "nat \<Rightarrow> nat \<Rightarrow> queue" where
  "new_queue elem_size capacity =
     \<lparr>q_capacity = capacity, q_elem_size = elem_size, q_lib_errno = (\<lambda>_. QUEUE_SUCCESS),
      q_buffer = \<lparr>q_memory = replicate (capacity * elem_size) 0, q_size = 0, q_read_pointer = 0, q_write_pointer = 0\<rparr>,
      q_sync = \<lparr>q_aborted = False, q_waiting_for_pop = 0, q_waiting_for_push = 0\<rparr>\<rparr>"

text \<open>
  The \<^verbatim>\<open>goto\<close> chain of \<^verbatim>\<open>queue_create\<close>: the value stored at \<^verbatim>\<open>*qptr\<close>, the resources that are live
  on return (in the order acquired, minus those the cleanup labels release) and the result.
  \<open>qptr\<close> is \<^verbatim>\<open>qptr != NULL\<close>.  The label \<^verbatim>\<open>key_init\<close> is reached both when the key was not created and
  when it was created but could not be set.
\<close>

definition queue_create ::
    "create_env \<Rightarrow> bool \<Rightarrow> nat \<Rightarrow> nat \<Rightarrow> queue option \<times> resource list \<times> queue_error_codes" where
  "queue_create env qptr elem_size capacity =
     (if \<not> qptr then (None, [], WRONG_QUEUE_ARG)
      else if \<not> calloc_queue_ok env then (None, [], ALLOC_FAILURE)
      else if \<not> calloc_buffer_ok env then (None, remove1 QueueBlock [QueueBlock], ALLOC_FAILURE)
      else if \<not> key_create_ok env then
        (None, remove1 QueueBlock (remove1 BufferBlock [QueueBlock, BufferBlock]), KEY_ERROR)
      else if \<not> setspecific_ok env then
        (None, remove1 QueueBlock (remove1 BufferBlock [QueueBlock, BufferBlock, ErrnoKey]), KEY_ERROR)
      else if \<not> mutex_init_ok env then
        (None, remove1 QueueBlock (remove1 BufferBlock (remove1 ErrnoKey [QueueBlock, BufferBlock, ErrnoKey])),
         MUTEX_INIT_FAIL)
      else if \<not> cond_pop_init_ok env then
        (None, remove1 QueueBlock (remove1 BufferBlock (remove1 ErrnoKey (remove1 QueueMutex
           [QueueBlock, BufferBlock, ErrnoKey, QueueMutex]))), COND_INIT_FAIL)
      else if \<not> cond_push_init_ok env then
        (None, remove1 QueueBlock (remove1 BufferBlock (remove1 ErrnoKey (remove1 QueueMutex (remove1 CondPop
           [QueueBlock, BufferBlock, ErrnoKey, QueueMutex, CondPop])))), COND_INIT_FAIL)
      else (Some (new_queue elem_size capacity),
            [QueueBlock, BufferBlock, ErrnoKey, QueueMutex, CondPop, CondPush], QUEUE_SUCCESS))"

text \<open>What the destructor's calls answer, and the resources that are left when it returns.\<close>

record destroy_env =
  mutex_destroy_ok :: bool
  cond_push_destroy_ok :: bool
  cond_pop_destroy_ok :: bool
  key_delete_ok :: bool

definition queue_destroy :: "destroy_env \<Rightarrow> queue \<Rightarrow> resource list \<Rightarrow> queue \<times> resource list \<times> queue_error_codes" where
  "queue_destroy env q live =
     (let q1 = fst (queue_abort q) in
      if \<not> mutex_destroy_ok env then (q1, live, MUTEX_DESTROY_FAIL)
      else let live1 = remove1 QueueMutex live in
      if \<not> cond_push_destroy_ok env then (q1, live1, COND_DESTROY_FAIL)
      else let live2 = remove1 CondPush live1 in
      if \<not> cond_pop_destroy_ok env then (q1, live2, COND_DESTROY_FAIL)
      else let live3 = remove1 CondPop live2 in
      if \<not> key_delete_ok env then (q1, live3, KEY_ERROR)
      else (q1, remove1 QueueBlock (remove1 BufferBlock (remove1 ErrnoKey live3)), QUEUE_SUCCESS))"

section \<open>Error messages\<close>

definition error_message :: "queue_error_codes \<Rightarrow> string" where
  "error_message error_code =
     (case error_code of
        QUEUE_SUCCESS \<Rightarrow> ''No error happened.''
      | CANT_LOCK \<Rightarrow> ''Can'' @ [CHR 0x27] @ ''t aquire lock.''
      | QUEUE_FULL \<Rightarrow> ''Element can'' @ [CHR 0x27] @ ''t be pushed to queue because queue is full.''
      | _ \<Rightarrow> ''Error message not implemented yet, blame the lazy programmer!'')"

text \<open>
  \<^verbatim>\<open>snprintf(buffer, maxlen, "%s", message)\<close>: what it stores (nothing for a length of 0) and
  the length it returns.
\<close>

definition queue_strerror :: "queue_error_codes \<Rightarrow> nat \<Rightarrow> string \<times> nat" where
  "queue_strerror error_code maxlen =
     (let message = error_message error_code
      in (if maxlen = 0 then [] else take (maxlen - 1) message @ [nul], length message))"

section \<open>The invariant and the stored elements\<close>

definition queue_inv :: "queue \<Rightarrow> bool" where
  "queue_inv q \<longleftrightarrow>
     length (q_memory (q_buffer q)) = q_capacity q * q_elem_size q \<and>
     q_size (q_buffer q) \<le> q_capacity q \<and>
     (if q_capacity q = 0 then q_read_pointer (q_buffer q) = 0 \<and> q_write_pointer (q_buffer q) = 0
      else q_read_pointer (q_buffer q) < q_capacity q \<and>
           q_write_pointer (q_buffer q) = (q_read_pointer (q_buffer q) + q_size (q_buffer q)) mod q_capacity q)"

definition slot :: "queue \<Rightarrow> nat \<Rightarrow> byte list" where
  "slot q k = take (q_elem_size q) (drop (k * q_elem_size q) (q_memory (q_buffer q)))"

definition contents :: "queue \<Rightarrow> byte list list" where
  "contents q = map (\<lambda>k. slot q ((q_read_pointer (q_buffer q) + k) mod q_capacity q)) [0..<q_size (q_buffer q)]"

lemma length_contents [simp]: "length (contents q) = q_size (q_buffer q)"
  by (simp add: contents_def)

lemma contents_Nil [simp]: "contents q = [] \<longleftrightarrow> queue_is_empty q"
  by (simp add: contents_def queue_is_empty_def)

lemma slot_store:
  assumes "length mem = c * es" "w < c" "k < c" "length bs = es"
  shows "take es (drop (k * es) (take (w * es) mem @ bs @ drop (w * es + es) mem)) =
    (if k = w then bs else take es (drop (k * es) mem))"
proof -
  have wc: "w * es + es \<le> c * es" using assms(2) by (metis Suc_leI add.commute mult_Suc mult_le_mono1)
  consider "k < w" | "k = w" | "w < k" by linarith
  then show ?thesis
  proof cases
    case 1
    then have "k * es + es \<le> w * es" by (metis Suc_leI add.commute mult_Suc mult_le_mono1)
    with 1 wc assms(1,4) show ?thesis by (intro nth_equalityI) (auto simp: nth_append drop_take)
  next
    case 2
    moreover have "w * es \<le> c * es" using wc by linarith
    ultimately show ?thesis using assms(1,4) by (simp add: min.absorb2)
  next
    case 3
    then have "w * es + es \<le> k * es" by (metis Suc_leI add.commute mult_Suc mult_le_mono1)
    moreover have "k * es + es \<le> c * es" using assms(3) by (metis Suc_leI add.commute mult_Suc mult_le_mono1)
    moreover have "w * es \<le> c * es" using wc by linarith
    ultimately show ?thesis using 3 wc assms(1,4)
      by (intro nth_equalityI) (auto simp: nth_append min.absorb2)
  qed
qed

lemma ring_distinct: "r < c \<Longrightarrow> k < s \<Longrightarrow> s < c \<Longrightarrow> (r + k) mod c \<noteq> (r + s) mod (c :: nat)"
  by (auto simp: mod_if)

lemma push_commit_ok:
  assumes inv: "queue_inv q" and room: "\<not> queue_is_full q" and len: "q_elem_size q \<le> length e"
  shows "\<exists>q'. push_commit q e = Done q' \<and> queue_inv q' \<and>
    contents q' = contents q @ [take (q_elem_size q) e] \<and>
    q_capacity q' = q_capacity q \<and> q_elem_size q' = q_elem_size q \<and> q_sync q' = q_sync q \<and>
    q_lib_errno q' = q_lib_errno q \<and> q_size (q_buffer q') = q_size (q_buffer q) + 1"
proof -
  let ?b = "q_buffer q" and ?c = "q_capacity q" and ?es = "q_elem_size q"
  let ?w = "q_write_pointer ?b" and ?r = "q_read_pointer ?b" and ?s = "q_size ?b"
  let ?mem = "take (?w * ?es) (q_memory ?b) @ take ?es e @ drop (?w * ?es + ?es) (q_memory ?b)"
  let ?q = "set_buffer (\<lambda>b. b\<lparr>q_memory := ?mem, q_write_pointer := (?w + 1) mod ?c, q_size := ?s + 1\<rparr>) q"
  from inv room have c: "0 < ?c" "?s < ?c" "?r < ?c" "?w = (?r + ?s) mod ?c"
    "length (q_memory ?b) = ?c * ?es"
    by (auto simp: queue_inv_def queue_is_full_def split: if_splits)
  then have w: "?w < ?c" by simp
  then have "?w * ?es + ?es \<le> ?c * ?es" by (metis Suc_leI add.commute mult_Suc mult_le_mono1)
  with c len have st: "mem_store (q_memory ?b) (?w * ?es) (take ?es e) = Done ?mem"
    by (simp add: mem_store_def)
  have ran: "push_commit q e = Done ?q" using st c(1) len by (simp add: push_commit_def)
  have lenm: "length ?mem = ?c * ?es" using c(5) len \<open>?w * ?es + ?es \<le> ?c * ?es\<close> by simp
  have inv': "queue_inv ?q" using c lenm by (simp add: queue_inv_def mod_Suc_eq)
  define q' where "q' = ?q"
  have q': "q_read_pointer (q_buffer q') = ?r" "q_capacity q' = ?c" "q_size (q_buffer q') = Suc ?s"
    by (simp_all add: q'_def)
  have slots: "slot q' k = (if k = ?w then take ?es e else slot q k)" if "k < ?c" for k
    using slot_store [OF c(5) w that, of "take ?es e"] len by (simp add: slot_def q'_def)
  have "contents q' = contents q @ [take ?es e]"
    using c(1,2,3) by (auto simp: contents_def slots q' c(4) ring_distinct)
  with ran inv' show ?thesis by (intro exI [of _ q']) (simp add: q'_def)
qed

lemma pop_commit_ok:
  assumes inv: "queue_inv q" and some: "\<not> queue_is_empty q"
  shows "\<exists>q'.
    pop_commit q want = Done (q', if want then Some (slot q (q_write_pointer (q_buffer q))) else None) \<and>
    queue_inv q' \<and> contents q' = tl (contents q) \<and>
    q_capacity q' = q_capacity q \<and> q_elem_size q' = q_elem_size q \<and> q_sync q' = q_sync q \<and>
    q_lib_errno q' = q_lib_errno q \<and> q_size (q_buffer q') = q_size (q_buffer q) - 1"
proof -
  let ?b = "q_buffer q" and ?c = "q_capacity q" and ?es = "q_elem_size q"
  let ?w = "q_write_pointer ?b" and ?r = "q_read_pointer ?b" and ?s = "q_size ?b"
  let ?q = "set_buffer (\<lambda>b. b\<lparr>q_read_pointer := (?r + 1) mod ?c, q_size := ?s - 1\<rparr>) q"
  from inv some have c: "0 < ?c" "0 < ?s" "?s \<le> ?c" "?r < ?c" "?w = (?r + ?s) mod ?c"
    "length (q_memory ?b) = ?c * ?es"
    by (auto simp: queue_inv_def queue_is_empty_def split: if_splits)
  then have "?w < ?c" by simp
  then have "?w * ?es + ?es \<le> ?c * ?es" by (metis Suc_leI add.commute mult_Suc mult_le_mono1)
  with c have ran: "pop_commit q want = Done (?q, if want then Some (slot q ?w) else None)"
    by (simp add: pop_commit_def mem_load_def slot_def)
  obtain s' where s': "?s = Suc s'" using c(2) by (cases ?s) auto
  have inv': "queue_inv ?q" using c s' by (simp add: queue_inv_def mod_Suc_eq mod_add_left_eq)
  have "(Suc ?r mod ?c + k) mod ?c = (?r + Suc k) mod ?c" for k by (simp add: mod_add_left_eq)
  then have "contents ?q = map (\<lambda>k. slot q ((?r + Suc k) mod ?c)) [0..<s']"
    by (simp add: contents_def slot_def s')
  moreover have "contents q = slot q (?r mod ?c) # map (\<lambda>k. slot q ((?r + Suc k) mod ?c)) [0..<s']"
    by (simp add: contents_def s' upt_conv_Cons map_Suc_upt [symmetric] comp_def del: upt_Suc)
  ultimately have "contents ?q = tl (contents q)" by simp
  with ran inv' show ?thesis by (intro exI [of _ ?q]) simp
qed

lemma new_queue_inv: "queue_inv (new_queue es c)" and new_queue_contents: "contents (new_queue es c) = []"
  by (simp_all add: queue_inv_def new_queue_def contents_def)

definition ring_put :: "queue \<Rightarrow> byte list \<Rightarrow> queue" where
  "ring_put q e = (case push_commit q e of Done q' \<Rightarrow> q' | _ \<Rightarrow> q)"

definition ring_get :: "queue \<Rightarrow> queue" where
  "ring_get q = (case pop_commit q False of Done (q', _) \<Rightarrow> q' | _ \<Rightarrow> q)"

lemma ring_put_ok:
  assumes "queue_inv q" "\<not> queue_is_full q" "length e = q_elem_size q"
  shows "queue_inv (ring_put q e) \<and> contents (ring_put q e) = contents q @ [e]"
proof -
  obtain q' where "push_commit q e = Done q'" "queue_inv q'"
      "contents q' = contents q @ [take (q_elem_size q) e]"
    using push_commit_ok [OF assms(1,2), of e] assms(3) by auto
  with assms(3) show ?thesis by (simp add: ring_put_def)
qed

lemma ring_get_ok:
  assumes "queue_inv q" "\<not> queue_is_empty q"
  shows "queue_inv (ring_get q) \<and> contents (ring_get q) = tl (contents q)"
proof -
  obtain q' where "pop_commit q False = Done (q', None)" "queue_inv q'" "contents q' = tl (contents q)"
    using pop_commit_ok [OF assms, of False] by auto
  then show ?thesis by (simp add: ring_get_def)
qed

text \<open>The bookkeeping of the ring buffer is that of a first-in first-out container.\<close>

interpretation ring: fifo queue_inv contents
    "\<lambda>q e. \<not> queue_is_full q \<and> length e = q_elem_size q" ring_put "\<lambda>q. \<not> queue_is_empty q" ring_get
  by unfold_locales (auto simp: ring_put_ok ring_get_ok)

text \<open>The slot that a pop copies is the oldest element exactly because a full ring has both pointers equal.\<close>

lemma full_write_slot:
  assumes "queue_inv q" "queue_is_full q" "\<not> queue_is_empty q"
  shows "slot q (q_write_pointer (q_buffer q)) = hd (contents q)"
proof -
  from assms have "q_write_pointer (q_buffer q) = q_read_pointer (q_buffer q) mod q_capacity q"
    by (auto simp: queue_inv_def queue_is_full_def queue_is_empty_def split: if_splits)
  moreover from assms(3) obtain n where "q_size (q_buffer q) = Suc n"
    by (cases "q_size (q_buffer q)") (auto simp: queue_is_empty_def)
  ultimately show ?thesis by (simp add: contents_def upt_conv_Cons del: upt_Suc)
qed

section \<open>The properties\<close>




definition demo_full :: queue where
  "demo_full = ring_put (ring_put (new_queue 1 2) [5]) [6]"

lemma demo_full_facts:
  "queue_inv demo_full" "contents demo_full = [[5], [6]]" "queue_is_full demo_full" "\<not> queue_is_empty demo_full"
proof -
  have "queue_inv (new_queue 1 2)" "\<not> queue_is_full (new_queue 1 2)"
    by (simp_all add: new_queue_inv) (simp add: new_queue_def queue_is_full_def)
  from ring_put_ok [OF this, of "[5]"] have 1: "queue_inv (ring_put (new_queue 1 2) [5])"
    by (simp add: new_queue_def)
  have 2: "\<not> queue_is_full (ring_put (new_queue 1 2) [5])"
    by (simp add: ring_put_def push_commit_def mem_store_def new_queue_def queue_is_full_def)
  show "queue_inv demo_full" unfolding demo_full_def
    using ring_put_ok [OF 1 2, of "[6]"] by (simp add: ring_put_def push_commit_def mem_store_def new_queue_def)
  show "contents demo_full = [[5], [6]]" "queue_is_full demo_full" "\<not> queue_is_empty demo_full"
    by (simp_all add: demo_full_def ring_put_def push_commit_def mem_store_def new_queue_def
        queue_is_full_def queue_is_empty_def contents_def slot_def upt_rec)
qed


text \<open>
  A pop from a queue that is not full does not return what was pushed: after pushing the
  element 7 into a fresh queue of two one-byte elements, \<^verbatim>\<open>queue_try_pop\<close> succeeds and copies the
  untouched slot behind it, which \<^verbatim>\<open>calloc\<close> set to 0.
\<close>

theorem queue_pop_wrong_slot:
  "\<exists>q1 q2. queue_try_push 0 True (new_queue 1 2) (Some [7]) = Done (q1, QUEUE_SUCCESS) \<and>
     contents q1 = [[7]] \<and> queue_try_pop 0 True q1 True = Done (q2, Some [0], QUEUE_SUCCESS)"
  by (simp add: queue_try_push_def queue_try_pop_def push_commit_def pop_commit_def mem_store_def mem_load_def
      new_queue_def queue_is_full_def queue_is_empty_def contents_def slot_def)

text \<open>
  \<^verbatim>\<open>queue_create\<close> either succeeds with an empty queue that satisfies the invariant and all its
  resources, or it fails, stores \<^verbatim>\<open>NULL\<close> and has released everything it acquired, with one
  exception: when \<^verbatim>\<open>pthread_setspecific\<close> fails, the thread-specific key stays allocated.  After a
  success, a \<^verbatim>\<open>queue_destroy\<close> that succeeds leaves nothing.
\<close>

theorem queue_create_resources:
  "(case queue_create env qptr es c of
      (Some q, live, code) \<Rightarrow>
        code = QUEUE_SUCCESS \<and> queue_inv q \<and> contents q = [] \<and> queue_capacity q = c \<and> queue_element q = es \<and>
        (\<forall>denv q'. snd (snd (queue_destroy denv q' live)) = QUEUE_SUCCESS \<longrightarrow> fst (snd (queue_destroy denv q' live)) = [])
    | (None, live, code) \<Rightarrow>
        code \<noteq> QUEUE_SUCCESS \<and>
        live = (if code = KEY_ERROR \<and> key_create_ok env then [ErrnoKey] else []))"
  using new_queue_inv [of es c] new_queue_contents [of es c]
  by (auto simp: queue_create_def queue_destroy_def Let_def queue_capacity_def queue_element_def
      new_queue_def)

definition all_ok_create :: create_env where
  "all_ok_create = \<lparr>calloc_queue_ok = True, calloc_buffer_ok = True, key_create_ok = True, setspecific_ok = True,
     mutex_init_ok = True, cond_pop_init_ok = True, cond_push_init_ok = True\<rparr>"

definition all_ok_destroy :: destroy_env where
  "all_ok_destroy = \<lparr>mutex_destroy_ok = True, cond_push_destroy_ok = True, cond_pop_destroy_ok = True, key_delete_ok = True\<rparr>"

theorem queue_create_resources_witness:
  "(case queue_create all_ok_create True 4 2 of
      (Some q, live, code) \<Rightarrow> snd (snd (queue_destroy all_ok_destroy q live)) = QUEUE_SUCCESS \<and>
        fst (snd (queue_destroy all_ok_destroy q live)) = []
    | _ \<Rightarrow> False)"
proof -
  let ?live = "[QueueBlock, BufferBlock, ErrnoKey, QueueMutex, CondPop, CondPush]"
  have "queue_create all_ok_create True 4 2 = (Some (new_queue 4 2), ?live, QUEUE_SUCCESS)"
    by (simp add: queue_create_def all_ok_create_def)
  moreover have "snd (snd (queue_destroy all_ok_destroy q ?live)) = QUEUE_SUCCESS" for q
    by (simp add: queue_destroy_def all_ok_destroy_def)
  ultimately show ?thesis
    using queue_create_resources [where qptr = True and es = 4 and c = 2 and env = all_ok_create] by simp
qed

text \<open>
  As long as the counts fit in 62 bits, \<^verbatim>\<open>queue_forecast\<close>, computed modulo \<open>2 ^ 64\<close>, is the exact
  integer: stored elements minus waiting pops plus waiting pushes, negative results included.
\<close>

theorem queue_forecast_exact:
  assumes "q_size (q_buffer q) < 2 ^ 62" "q_waiting_for_pop (q_sync q) < 2 ^ 62" "q_waiting_for_push (q_sync q) < 2 ^ 62"
  shows "queue_forecast q = int (q_size (q_buffer q)) - int (q_waiting_for_pop (q_sync q)) + int (q_waiting_for_push (q_sync q))"
proof -
  let ?v = "int (q_size (q_buffer q)) - int (q_waiting_for_pop (q_sync q)) + int (q_waiting_for_push (q_sync q))"
  have "queue_forecast q = sint (word_of_int ?v :: size_t)" by (simp add: queue_forecast_def)
  also have "\<dots> = signed_take_bit 63 ?v"
    unfolding sint_sbintrunc' by simp
  also have "\<dots> = ?v" using assms by (intro signed_take_bit_int_eq_self) auto
  finally show ?thesis .
qed

theorem queue_forecast_exact_witness:
  "queue_forecast (set_sync (\<lambda>s. s\<lparr>q_waiting_for_pop := 3\<rparr>) (new_queue 4 2)) = - 3"
  using queue_forecast_exact [of "set_sync (\<lambda>s. s\<lparr>q_waiting_for_pop := 3\<rparr>) (new_queue 4 2)"]
  by (simp add: new_queue_def)

text \<open>
  Asking \<^verbatim>\<open>queue_strerror\<close> for the size of a message and then passing a buffer of that size, the
  use that the header documents, stores the message without its last character.
\<close>

theorem queue_strerror_truncates:
  "fst (queue_strerror c (snd (queue_strerror c 0))) = butlast (error_message c) @ [nul]"
  by (cases c) (simp_all add: queue_strerror_def error_message_def)

end
