(* ===== verification/Queue_Threads.thy ===== *)
theory Queue_Threads
  imports Queue_Lib
begin

text \<open>
  \<^verbatim>\<open>hw09/queue.c\<close> with threads: the blocking operations \<^verbatim>\<open>queue_push\<close> and \<^verbatim>\<open>queue_pop\<close>, the
  non-blocking ones and \<^verbatim>\<open>queue_abort\<close>, run by any number of threads over the mutex and the two
  condition variables.  A step is one call of the synchronisation interface together with the
  code up to the next one; that code runs with the mutex held.  \<^verbatim>\<open>pthread_cond_wait\<close> releases the
  mutex and falls asleep in one step, and it may also wake up without a signal.
\<close>

section \<open>Threads\<close>

datatype qop = Push "byte list" | Pop bool | TryPush "byte list" | TryPop bool | Abort

text \<open>The condition variable an operation sleeps on, and the one it signals.\<close>

datatype qcond = CondPushVar | CondPopVar

datatype qpc =
    Outside "queue_error_codes option"
  | AtLock qop
  | AtTest qop
  | Asleep qop
  | Woken qop
  | AtSignal qcond
  | AtUnlock queue_error_codes
  | AtSetAborted
  | AtBroadcastPop
  | AtBroadcastPush

definition in_critical :: "qpc \<Rightarrow> bool" where
  "in_critical pc \<longleftrightarrow> (case pc of AtTest _ \<Rightarrow> True | AtSignal _ \<Rightarrow> True | AtUnlock _ \<Rightarrow> True
     | AtSetAborted \<Rightarrow> True | AtBroadcastPop \<Rightarrow> True | AtBroadcastPush \<Rightarrow> True | _ \<Rightarrow> False)"

text \<open>Asleep on a condition variable, woken from it, or about to test the condition again.\<close>

definition sleeps_on :: "qcond \<Rightarrow> qpc \<Rightarrow> bool" where
  "sleeps_on c pc \<longleftrightarrow> (case pc of Asleep (Push _) \<Rightarrow> c = CondPushVar | Asleep (Pop _) \<Rightarrow> c = CondPopVar | _ \<Rightarrow> False)"

definition waits_on :: "qcond \<Rightarrow> qpc \<Rightarrow> bool" where
  "waits_on c pc \<longleftrightarrow> sleeps_on c pc \<or>
     (case pc of Woken (Push _) \<Rightarrow> c = CondPushVar | Woken (Pop _) \<Rightarrow> c = CondPopVar | _ \<Rightarrow> False)"

definition will_serve :: "qcond \<Rightarrow> qpc \<Rightarrow> bool" where
  "will_serve c pc \<longleftrightarrow>
     (case pc of Woken (Push _) \<Rightarrow> c = CondPushVar | Woken (Pop _) \<Rightarrow> c = CondPopVar
      | AtTest (Push _) \<Rightarrow> c = CondPushVar | AtTest (Pop _) \<Rightarrow> c = CondPopVar
      | AtSignal d \<Rightarrow> c = d | _ \<Rightarrow> False)"

text \<open>Waking the thread: the effect of a signal on one sleeper.\<close>

definition wake :: "qpc \<Rightarrow> qpc" where
  "wake pc = (case pc of Asleep p \<Rightarrow> Woken p | _ \<Rightarrow> pc)"

definition broadcast :: "qcond \<Rightarrow> qpc list \<Rightarrow> qpc list" where
  "broadcast c = map (\<lambda>pc. if sleeps_on c pc then wake pc else pc)"

record qsys =
  the_queue :: queue
  owner :: "nat option"
  pcs :: "qpc list"

definition set_errno :: "nat \<Rightarrow> queue_error_codes \<Rightarrow> queue \<Rightarrow> queue" where
  "set_errno tid c q = fst (return_error_state c tid q)"

text \<open>Errors set the thread's \<^verbatim>\<open>queue_errno\<close> after the mutex is released; success leaves it.\<close>

definition leave :: "nat \<Rightarrow> queue_error_codes \<Rightarrow> queue \<Rightarrow> queue" where
  "leave tid c q = (if c = QUEUE_SUCCESS then q else set_errno tid c q)"

section \<open>The steps\<close>

inductive qstep :: "qsys \<Rightarrow> qsys \<Rightarrow> bool" where
  call: "i < length (pcs s) \<Longrightarrow> pcs s ! i = Outside r \<Longrightarrow>
    (case p of Push e \<Rightarrow> length e = q_elem_size (the_queue s) | TryPush e \<Rightarrow> length e = q_elem_size (the_queue s) | _ \<Rightarrow> True) \<Longrightarrow>
    qstep s (s\<lparr>pcs := (pcs s)[i := AtLock p]\<rparr>)"
| call_null: "i < length (pcs s) \<Longrightarrow> pcs s ! i = Outside r \<Longrightarrow>
    qstep s (s\<lparr>the_queue := set_errno i WRONG_QUEUE_ARG (the_queue s),
               pcs := (pcs s)[i := Outside (Some WRONG_QUEUE_ARG)]\<rparr>)"
| lock: "i < length (pcs s) \<Longrightarrow> pcs s ! i = AtLock p \<Longrightarrow> owner s = None \<Longrightarrow>
    qstep s (s\<lparr>owner := Some i, pcs := (pcs s)[i := (if p = Abort then AtSetAborted else AtTest p)]\<rparr>)"
| trylock_fails: "i < length (pcs s) \<Longrightarrow> pcs s ! i = AtLock p \<Longrightarrow> owner s \<noteq> None \<Longrightarrow>
    (case p of TryPush _ \<Rightarrow> True | TryPop _ \<Rightarrow> True | _ \<Rightarrow> False) \<Longrightarrow>
    qstep s (s\<lparr>the_queue := set_errno i CANT_LOCK (the_queue s), pcs := (pcs s)[i := Outside (Some CANT_LOCK)]\<rparr>)"
| push_waits: "i < length (pcs s) \<Longrightarrow> pcs s ! i = AtTest (Push e) \<Longrightarrow>
    queue_is_full (the_queue s) \<Longrightarrow> \<not> q_aborted (q_sync (the_queue s)) \<Longrightarrow>
    qstep s (s\<lparr>the_queue := set_sync (\<lambda>y. y\<lparr>q_waiting_for_push := q_waiting_for_push y + 1\<rparr>) (the_queue s),
               owner := None, pcs := (pcs s)[i := Asleep (Push e)]\<rparr>)"
| pop_waits: "i < length (pcs s) \<Longrightarrow> pcs s ! i = AtTest (Pop w) \<Longrightarrow>
    queue_is_empty (the_queue s) \<Longrightarrow> \<not> q_aborted (q_sync (the_queue s)) \<Longrightarrow>
    qstep s (s\<lparr>the_queue := set_sync (\<lambda>y. y\<lparr>q_waiting_for_pop := q_waiting_for_pop y + 1\<rparr>) (the_queue s),
               owner := None, pcs := (pcs s)[i := Asleep (Pop w)]\<rparr>)"
| spurious_wakeup: "i < length (pcs s) \<Longrightarrow> pcs s ! i = Asleep p \<Longrightarrow>
    qstep s (s\<lparr>pcs := (pcs s)[i := Woken p]\<rparr>)"
| push_resumes: "i < length (pcs s) \<Longrightarrow> pcs s ! i = Woken (Push e) \<Longrightarrow> owner s = None \<Longrightarrow>
    qstep s (s\<lparr>the_queue := set_sync (\<lambda>y. y\<lparr>q_waiting_for_push := q_waiting_for_push y - 1\<rparr>) (the_queue s),
               owner := Some i, pcs := (pcs s)[i := AtTest (Push e)]\<rparr>)"
| pop_resumes: "i < length (pcs s) \<Longrightarrow> pcs s ! i = Woken (Pop w) \<Longrightarrow> owner s = None \<Longrightarrow>
    qstep s (s\<lparr>the_queue := set_sync (\<lambda>y. y\<lparr>q_waiting_for_pop := q_waiting_for_pop y - 1\<rparr>) (the_queue s),
               owner := Some i, pcs := (pcs s)[i := AtTest (Pop w)]\<rparr>)"
| push_aborts: "i < length (pcs s) \<Longrightarrow> pcs s ! i = AtTest (Push e) \<Longrightarrow>
    queue_is_full (the_queue s) \<Longrightarrow> q_aborted (q_sync (the_queue s)) \<Longrightarrow>
    qstep s (s\<lparr>pcs := (pcs s)[i := AtUnlock QUEUE_ABORT]\<rparr>)"
| pop_aborts: "i < length (pcs s) \<Longrightarrow> pcs s ! i = AtTest (Pop w) \<Longrightarrow>
    queue_is_empty (the_queue s) \<Longrightarrow> q_aborted (q_sync (the_queue s)) \<Longrightarrow>
    qstep s (s\<lparr>pcs := (pcs s)[i := AtUnlock QUEUE_ABORT]\<rparr>)"
| try_push_full: "i < length (pcs s) \<Longrightarrow> pcs s ! i = AtTest (TryPush e) \<Longrightarrow> queue_is_full (the_queue s) \<Longrightarrow>
    qstep s (s\<lparr>pcs := (pcs s)[i := AtUnlock QUEUE_FULL]\<rparr>)"
| try_pop_empty: "i < length (pcs s) \<Longrightarrow> pcs s ! i = AtTest (TryPop w) \<Longrightarrow> queue_is_empty (the_queue s) \<Longrightarrow>
    qstep s (s\<lparr>pcs := (pcs s)[i := AtUnlock QUEUE_EMPTY]\<rparr>)"
| push_stores: "i < length (pcs s) \<Longrightarrow> pcs s ! i = AtTest p \<Longrightarrow> p = Push e \<or> p = TryPush e \<Longrightarrow>
    \<not> queue_is_full (the_queue s) \<Longrightarrow> push_commit (the_queue s) e = Done q' \<Longrightarrow>
    qstep s (s\<lparr>the_queue := q', pcs := (pcs s)[i := AtSignal CondPopVar]\<rparr>)"
| pop_takes: "i < length (pcs s) \<Longrightarrow> pcs s ! i = AtTest p \<Longrightarrow> p = Pop w \<or> p = TryPop w \<Longrightarrow>
    \<not> queue_is_empty (the_queue s) \<Longrightarrow> pop_commit (the_queue s) w = Done (q', out) \<Longrightarrow>
    qstep s (s\<lparr>the_queue := q', pcs := (pcs s)[i := AtSignal CondPushVar]\<rparr>)"
| signal: "i < length (pcs s) \<Longrightarrow> pcs s ! i = AtSignal c \<Longrightarrow>
    j < length (pcs s) \<Longrightarrow> sleeps_on c (pcs s ! j) \<Longrightarrow>
    qstep s (s\<lparr>pcs := (pcs s)[j := wake (pcs s ! j), i := AtUnlock QUEUE_SUCCESS]\<rparr>)"
| signal_nobody: "i < length (pcs s) \<Longrightarrow> pcs s ! i = AtSignal c \<Longrightarrow>
    (\<forall>j < length (pcs s). \<not> sleeps_on c (pcs s ! j)) \<Longrightarrow>
    qstep s (s\<lparr>pcs := (pcs s)[i := AtUnlock QUEUE_SUCCESS]\<rparr>)"
| set_aborted: "i < length (pcs s) \<Longrightarrow> pcs s ! i = AtSetAborted \<Longrightarrow>
    qstep s (s\<lparr>the_queue := fst (queue_abort (the_queue s)), pcs := (pcs s)[i := AtBroadcastPop]\<rparr>)"
| broadcast_pop: "i < length (pcs s) \<Longrightarrow> pcs s ! i = AtBroadcastPop \<Longrightarrow>
    qstep s (s\<lparr>pcs := (broadcast CondPopVar (pcs s))[i := AtBroadcastPush]\<rparr>)"
| broadcast_push: "i < length (pcs s) \<Longrightarrow> pcs s ! i = AtBroadcastPush \<Longrightarrow>
    qstep s (s\<lparr>pcs := (broadcast CondPushVar (pcs s))[i := AtUnlock QUEUE_SUCCESS]\<rparr>)"
| unlock: "i < length (pcs s) \<Longrightarrow> pcs s ! i = AtUnlock c \<Longrightarrow>
    qstep s (s\<lparr>the_queue := leave i c (the_queue s), owner := None, pcs := (pcs s)[i := Outside (Some c)]\<rparr>)"

definition qinit :: "nat \<Rightarrow> nat \<Rightarrow> nat \<Rightarrow> qsys" where
  "qinit threads elem_size capacity =
     \<lparr>the_queue = new_queue elem_size capacity, owner = None, pcs = replicate threads (Outside None)\<rparr>"

section \<open>Counting threads\<close>

definition threads_at :: "(qpc \<Rightarrow> bool) \<Rightarrow> qpc list \<Rightarrow> nat" where
  "threads_at P xs = length (filter P xs)"

lemma threads_at_update:
  "i < length xs \<Longrightarrow> threads_at P (xs[i := x]) + (if P (xs ! i) then 1 else 0) = threads_at P xs + (if P x then 1 else 0)"
  unfolding threads_at_def by (rule length_filter_update)

lemma threads_at_broadcast:
  "(\<And>pc. P (if sleeps_on c pc then wake pc else pc) = P pc) \<Longrightarrow> threads_at P (broadcast c xs) = threads_at P xs"
  by (induction xs) (simp_all add: threads_at_def broadcast_def)

lemma broadcast_nth [simp]:
  "i < length xs \<Longrightarrow> broadcast c xs ! i = (if sleeps_on c (xs ! i) then wake (xs ! i) else xs ! i)"
  and broadcast_length [simp]: "length (broadcast c xs) = length xs"
  by (simp_all add: broadcast_def)

lemma sleeps_wake [simp]: "\<not> sleeps_on c (wake pc)"
  by (auto simp: sleeps_on_def wake_def split: qpc.splits)

lemma critical_wake [simp]: "in_critical (wake pc) = in_critical pc"
  by (auto simp: in_critical_def wake_def split: qpc.splits)

lemma waits_wake [simp]: "waits_on c (wake pc) = waits_on c pc"
  by (auto simp: waits_on_def sleeps_on_def wake_def split: qpc.splits qop.splits)

lemma sleeps_waits: "sleeps_on c pc \<Longrightarrow> waits_on c pc"
  by (simp add: waits_on_def)

lemma serve_wake: "sleeps_on d pc \<Longrightarrow> will_serve c (wake pc) = (c = d)"
  by (auto simp: will_serve_def sleeps_on_def wake_def split: qpc.splits qop.splits)

lemma serve_sleep: "sleeps_on d pc \<Longrightarrow> \<not> will_serve c pc"
  by (auto simp: will_serve_def sleeps_on_def split: qpc.splits qop.splits)

lemma sleep_not_critical: "sleeps_on c pc \<Longrightarrow> \<not> in_critical pc"
  by (auto simp: in_critical_def sleeps_on_def split: qpc.splits)

section \<open>The mutex\<close>

definition mutex_inv :: "qsys \<Rightarrow> bool" where
  "mutex_inv s \<longleftrightarrow> (\<forall>i < length (pcs s). in_critical (pcs s ! i) \<longleftrightarrow> owner s = Some i) \<and>
     (\<forall>i. owner s = Some i \<longrightarrow> i < length (pcs s))"

lemma critical_simps [simp]:
  "in_critical (AtTest p)" "in_critical (AtSignal c)" "in_critical (AtUnlock e)" "in_critical AtSetAborted"
  "in_critical AtBroadcastPop" "in_critical AtBroadcastPush" "\<not> in_critical (Outside r)"
  "\<not> in_critical (AtLock p)" "\<not> in_critical (Asleep p)" "\<not> in_critical (Woken p)"
  by (simp_all add: in_critical_def)

lemma mutex_step: "qstep s t \<Longrightarrow> mutex_inv s \<Longrightarrow> mutex_inv t"
proof (induction rule: qstep.induct)
  case (signal i s c j)
  then have "i \<noteq> j" by (auto simp: sleeps_on_def)
  with signal show ?case by (auto simp: mutex_inv_def nth_list_update)
qed (auto simp: mutex_inv_def nth_list_update)

section \<open>The ring buffer and the elements in flight\<close>

definition elem_ok :: "nat \<Rightarrow> qpc \<Rightarrow> bool" where
  "elem_ok n pc \<longleftrightarrow>
     (case pc of AtLock (Push e) \<Rightarrow> length e = n | AtTest (Push e) \<Rightarrow> length e = n
      | AtLock (TryPush e) \<Rightarrow> length e = n | AtTest (TryPush e) \<Rightarrow> length e = n
      | Asleep (Push e) \<Rightarrow> length e = n | Woken (Push e) \<Rightarrow> length e = n
      | AtTest Abort \<Rightarrow> False | Asleep p \<Rightarrow> (\<exists>w. p = Pop w) | Woken p \<Rightarrow> (\<exists>w. p = Pop w) | _ \<Rightarrow> True)"

definition ring_inv :: "qsys \<Rightarrow> bool" where
  "ring_inv s \<longleftrightarrow> queue_inv (the_queue s) \<and> (\<forall>i < length (pcs s). elem_ok (q_elem_size (the_queue s)) (pcs s ! i))"

lemma queue_inv_frame [simp]:
  "queue_inv (q\<lparr>q_sync := y\<rparr>) = queue_inv q" "queue_inv (q\<lparr>q_lib_errno := f\<rparr>) = queue_inv q"
  by (simp_all add: queue_inv_def)

lemma leave_frame [simp]:
  "queue_inv (leave i c q) = queue_inv q" "q_elem_size (leave i c q) = q_elem_size q"
  "q_sync (leave i c q) = q_sync q" "q_buffer (leave i c q) = q_buffer q" "q_capacity (leave i c q) = q_capacity q"
  by (simp_all add: leave_def set_errno_def return_error_state_def)

lemma set_errno_frame [simp]:
  "queue_inv (set_errno i c q) = queue_inv q" "q_elem_size (set_errno i c q) = q_elem_size q"
  "q_sync (set_errno i c q) = q_sync q" "q_buffer (set_errno i c q) = q_buffer q"
  "q_capacity (set_errno i c q) = q_capacity q"
  by (simp_all add: set_errno_def return_error_state_def)

lemma abort_frame [simp]:
  "queue_inv (fst (queue_abort q)) = queue_inv q" "q_elem_size (fst (queue_abort q)) = q_elem_size q"
  "q_buffer (fst (queue_abort q)) = q_buffer q" "q_capacity (fst (queue_abort q)) = q_capacity q"
  "q_waiting_for_pop (q_sync (fst (queue_abort q))) = q_waiting_for_pop (q_sync q)"
  "q_waiting_for_push (q_sync (fst (queue_abort q))) = q_waiting_for_push (q_sync q)"
  "q_aborted (q_sync (fst (queue_abort q)))"
  by (simp_all add: queue_abort_def)

lemma elem_wake [simp]: "elem_ok n (wake pc) = elem_ok n pc"
  by (auto simp: elem_ok_def wake_def split: qpc.splits qop.splits)

lemma elem_simps [simp]:
  "elem_ok n (Outside r)" "elem_ok n (AtSignal c)" "elem_ok n (AtUnlock r')" "elem_ok n AtSetAborted"
  "elem_ok n AtBroadcastPop" "elem_ok n AtBroadcastPush"
  "elem_ok n (Asleep (Push e)) = elem_ok n (AtTest (Push e))" "elem_ok n (Woken (Push e)) = elem_ok n (AtTest (Push e))"
  "elem_ok n (Asleep (Pop w))" "elem_ok n (Woken (Pop w))" "elem_ok n (AtTest (Pop w))"
  "elem_ok n (Woken p) = elem_ok n (Asleep p)"
  by (simp_all add: elem_ok_def split: qop.splits)

lemma elem_lock: "elem_ok n (AtLock p) \<Longrightarrow> p \<noteq> Abort \<Longrightarrow> elem_ok n (AtTest p)"
  by (cases p) (simp_all add: elem_ok_def)

lemma elem_call:
  "(case p of Push e \<Rightarrow> length e = n | TryPush e \<Rightarrow> length e = n | _ \<Rightarrow> True) \<Longrightarrow> elem_ok n (AtLock p)"
  by (cases p) (simp_all add: elem_ok_def)

lemma ring_step: "qstep s t \<Longrightarrow> ring_inv s \<Longrightarrow> ring_inv t"
proof (induction rule: qstep.induct)
  case (call i s r p)
  then show ?case using elem_call [where p = p and n = "q_elem_size (the_queue s)"]
    by (auto simp: ring_inv_def nth_list_update)
next
  case (lock i s p)
  then show ?case using elem_lock [of "q_elem_size (the_queue s)" p]
    by (auto simp: ring_inv_def nth_list_update)
next
  case (push_stores i s p e q')
  then have "length e = q_elem_size (the_queue s)"
    by (auto simp: ring_inv_def elem_ok_def dest!: spec [of _ i])
  with push_stores show ?case
    using push_commit_ok [of "the_queue s" e] by (auto simp: ring_inv_def nth_list_update)
next
  case (pop_takes i s p w q' out)
  then show ?case
    using pop_commit_ok [of "the_queue s" w] by (auto simp: ring_inv_def nth_list_update)
qed (auto simp: ring_inv_def nth_list_update)

section \<open>The waiting counters\<close>

definition waiting :: "qcond \<Rightarrow> queue \<Rightarrow> nat" where
  "waiting c q = (case c of CondPushVar \<Rightarrow> q_waiting_for_push (q_sync q) | CondPopVar \<Rightarrow> q_waiting_for_pop (q_sync q))"

definition count_inv :: "qsys \<Rightarrow> bool" where
  "count_inv s \<longleftrightarrow> (\<forall>c. waiting c (the_queue s) = threads_at (waits_on c) (pcs s))"

lemma waits_simps [simp]:
  "\<not> waits_on c (Outside r)" "\<not> waits_on c (AtLock p)" "\<not> waits_on c (AtTest p)" "\<not> waits_on c (AtSignal d)"
  "\<not> waits_on c (AtUnlock e)" "\<not> waits_on c AtSetAborted" "\<not> waits_on c AtBroadcastPop" "\<not> waits_on c AtBroadcastPush"
  "waits_on c (Asleep (Push x)) = (c = CondPushVar)" "waits_on c (Asleep (Pop w)) = (c = CondPopVar)"
  "waits_on c (Woken p) = waits_on c (Asleep p)"
  by (auto simp: waits_on_def sleeps_on_def split: qop.splits)

lemma waiting_frame [simp]:
  "waiting c (set_errno i e q) = waiting c q" "waiting c (leave i e q) = waiting c q"
  "waiting c (fst (queue_abort q)) = waiting c q"
  by (cases c; simp add: waiting_def)+

lemma waiting_sync: "q_sync q' = q_sync q \<Longrightarrow> waiting c q' = waiting c q"
  by (simp add: waiting_def split: qcond.splits)

lemma commit_sync:
  "push_commit q e = Done q' \<Longrightarrow> q_sync q' = q_sync q"
  "pop_commit q w = Done (q', out) \<Longrightarrow> q_sync q' = q_sync q"
  by (auto simp: push_commit_def pop_commit_def split: if_splits outcome.splits)

lemma threads_at_same:
  "i < length xs \<Longrightarrow> P (xs ! i) = P x \<Longrightarrow> threads_at P (xs[i := x]) = threads_at P xs"
  using threads_at_update [of i xs P x] by (simp split: if_splits)

lemma waits_broadcast [simp]: "threads_at (waits_on c) (broadcast d xs) = threads_at (waits_on c) xs"
  by (rule threads_at_broadcast) auto

lemma count_step: "qstep s t \<Longrightarrow> count_inv s \<Longrightarrow> count_inv t"
proof (induction rule: qstep.induct)
  case (signal i s c j)
  then show ?case
    by (auto simp: count_inv_def threads_at_same nth_list_update)
next
  case (push_waits i s e)
  then show ?case using threads_at_update [of i "pcs s" "waits_on CondPushVar" "Asleep (Push e)"]
    threads_at_update [of i "pcs s" "waits_on CondPopVar" "Asleep (Push e)"]
    by (auto simp: count_inv_def waiting_def split: qcond.splits)
next
  case (pop_waits i s w)
  then show ?case using threads_at_update [of i "pcs s" "waits_on CondPushVar" "Asleep (Pop w)"]
    threads_at_update [of i "pcs s" "waits_on CondPopVar" "Asleep (Pop w)"]
    by (auto simp: count_inv_def waiting_def split: qcond.splits)
next
  case (push_resumes i s e)
  then show ?case using threads_at_update [of i "pcs s" "waits_on CondPushVar" "AtTest (Push e)"]
    threads_at_update [of i "pcs s" "waits_on CondPopVar" "AtTest (Push e)"]
    by (auto simp: count_inv_def waiting_def split: qcond.splits)
next
  case (pop_resumes i s w)
  then show ?case using threads_at_update [of i "pcs s" "waits_on CondPushVar" "AtTest (Pop w)"]
    threads_at_update [of i "pcs s" "waits_on CondPopVar" "AtTest (Pop w)"]
    by (auto simp: count_inv_def waiting_def split: qcond.splits)
next
  case (push_stores i s p e q')
  then show ?case using commit_sync(1) [THEN waiting_sync]
    by (auto simp: count_inv_def threads_at_same)
next
  case (pop_takes i s p w q' out)
  then show ?case using commit_sync(2) [THEN waiting_sync]
    by (auto simp: count_inv_def threads_at_same)
qed (auto simp: count_inv_def threads_at_same)

section \<open>Wakeups\<close>

text \<open>What the threads that sleep on a condition variable are waiting for.\<close>

definition available :: "qcond \<Rightarrow> queue \<Rightarrow> nat" where
  "available c q = (case c of CondPushVar \<Rightarrow> q_capacity q - q_size (q_buffer q) | CondPopVar \<Rightarrow> q_size (q_buffer q))"

definition somebody_sleeps :: "qcond \<Rightarrow> qsys \<Rightarrow> bool" where
  "somebody_sleeps c s \<longleftrightarrow> (\<exists>j < length (pcs s). sleeps_on c (pcs s ! j))"

definition wakeup_inv :: "qsys \<Rightarrow> bool" where
  "wakeup_inv s \<longleftrightarrow> (\<forall>c. somebody_sleeps c s \<longrightarrow> available c (the_queue s) \<le> threads_at (will_serve c) (pcs s))"

lemma sleeps_simps [simp]:
  "\<not> sleeps_on c (Outside r)" "\<not> sleeps_on c (AtLock p)" "\<not> sleeps_on c (AtTest p)" "\<not> sleeps_on c (AtSignal d)"
  "\<not> sleeps_on c (AtUnlock e)" "\<not> sleeps_on c AtSetAborted" "\<not> sleeps_on c AtBroadcastPop" "\<not> sleeps_on c AtBroadcastPush"
  "sleeps_on c (Asleep (Push x)) = (c = CondPushVar)" "sleeps_on c (Asleep (Pop w)) = (c = CondPopVar)"
  "\<not> sleeps_on c (Woken p)"
  by (auto simp: sleeps_on_def)

lemma serve_simps [simp]:
  "\<not> will_serve c (Outside r)" "\<not> will_serve c (AtLock p)" "will_serve c (AtSignal d) = (c = d)"
  "\<not> will_serve c (AtUnlock r')" "\<not> will_serve c AtSetAborted" "\<not> will_serve c AtBroadcastPop"
  "\<not> will_serve c AtBroadcastPush" "\<not> will_serve c (Asleep p)"
  "will_serve c (AtTest (Push e)) = (c = CondPushVar)" "will_serve c (AtTest (Pop w)) = (c = CondPopVar)"
  "\<not> will_serve c (AtTest (TryPush e))" "\<not> will_serve c (AtTest (TryPop w))" "\<not> will_serve c (AtTest Abort)"
  "will_serve c (Woken (Push e)) = (c = CondPushVar)" "will_serve c (Woken (Pop w)) = (c = CondPopVar)"
  by (auto simp: will_serve_def)

lemma sleeps_update: "i < length (pcs s) \<Longrightarrow>
    somebody_sleeps c (s\<lparr>pcs := (pcs s)[i := x]\<rparr>) \<Longrightarrow> sleeps_on c x \<or> somebody_sleeps c s"
  by (auto simp: somebody_sleeps_def nth_list_update split: if_splits)

lemma sleeps_frame [simp]:
  "somebody_sleeps c (s\<lparr>the_queue := q\<rparr>) = somebody_sleeps c s"
  "somebody_sleeps c (s\<lparr>owner := k\<rparr>) = somebody_sleeps c s"
  "somebody_sleeps c (s\<lparr>the_queue := q, pcs := xs\<rparr>) = somebody_sleeps c (s\<lparr>pcs := xs\<rparr>)"
  "somebody_sleeps c (s\<lparr>owner := k, pcs := xs\<rparr>) = somebody_sleeps c (s\<lparr>pcs := xs\<rparr>)"
  "somebody_sleeps c (s\<lparr>the_queue := q, owner := k, pcs := xs\<rparr>) = somebody_sleeps c (s\<lparr>pcs := xs\<rparr>)"
  by (simp_all add: somebody_sleeps_def)

text \<open>
  One thread moves: the invariant survives when the new position sleeps only if there is nothing
  to wait for, and when whatever becomes available is covered by the thread itself.
\<close>

lemma wakeup_move:
  assumes inv: "wakeup_inv s" and i: "i < length (pcs s)" and t: "pcs t = (pcs s)[i := pcs t ! i]"
    and new: "\<And>c. sleeps_on c (pcs t ! i) \<Longrightarrow> available c (the_queue t) = 0"
    and bal: "\<And>c. available c (the_queue t) + (if will_serve c (pcs s ! i) then 1 else 0)
                 \<le> available c (the_queue s) + (if will_serve c (pcs t ! i) then 1 else 0)
                 \<or> available c (the_queue t) = 0 \<or> \<not> somebody_sleeps c t"
  shows "wakeup_inv t"
  unfolding wakeup_inv_def
proof (intro allI impI)
  fix c assume z: "somebody_sleeps c t"
  let ?x = "pcs t ! i"
  have "sleeps_on c ?x \<or> somebody_sleeps c s"
    using sleeps_update [OF i, of c ?x] z unfolding t [symmetric] by (simp add: somebody_sleeps_def)
  moreover have "available c (the_queue t) \<le> threads_at (will_serve c) (pcs t)" if "somebody_sleeps c s"
  proof -
    have "available c (the_queue s) \<le> threads_at (will_serve c) (pcs s)"
      using inv that by (simp add: wakeup_inv_def)
    moreover have "threads_at (will_serve c) (pcs t) + (if will_serve c (pcs s ! i) then 1 else 0)
        = threads_at (will_serve c) (pcs s) + (if will_serve c ?x then 1 else 0)"
      using threads_at_update [OF i, of "will_serve c" ?x] unfolding t [symmetric] .
    ultimately show ?thesis using bal [of c] z by linarith
  qed
  ultimately show "available c (the_queue t) \<le> threads_at (will_serve c) (pcs t)" using new by force
qed

lemma available_frame [simp]:
  "available c (set_errno i e q) = available c q" "available c (leave i e q) = available c q"
  "available c (fst (queue_abort q)) = available c q" "available c (q\<lparr>q_sync := y\<rparr>) = available c q"
  by (cases c; simp add: available_def)+

lemma commit_sizes:
  "push_commit q e = Done q' \<Longrightarrow> q_size (q_buffer q') = q_size (q_buffer q) + 1 \<and> q_capacity q' = q_capacity q"
  "pop_commit q w = Done (q', out) \<Longrightarrow> q_size (q_buffer q') = q_size (q_buffer q) - 1 \<and> q_capacity q' = q_capacity q"
  by (auto simp: push_commit_def pop_commit_def split: if_splits outcome.splits)

lemma sleeps_broadcast:
  "i < length (pcs s) \<Longrightarrow> somebody_sleeps d (s\<lparr>pcs := (broadcast c (pcs s))[i := x]\<rparr>) \<Longrightarrow> \<not> sleeps_on d x \<Longrightarrow> d \<noteq> c \<and> somebody_sleeps d s"
  by (auto simp: somebody_sleeps_def nth_list_update split: if_splits)

lemma serve_broadcast: "d \<noteq> c \<Longrightarrow> threads_at (will_serve d) (broadcast c xs) = threads_at (will_serve d) xs"
  by (rule threads_at_broadcast) (auto simp: serve_wake serve_sleep)

lemma wakeup_broadcast:
  assumes "wakeup_inv s" "i < length (pcs s)" "pcs s ! i = pc" "\<And>d. \<not> will_serve d pc" "\<And>d. \<not> sleeps_on d pc"
    "\<And>d. \<not> sleeps_on d x" "\<And>d. \<not> will_serve d x"
  shows "wakeup_inv (s\<lparr>pcs := (broadcast c (pcs s))[i := x]\<rparr>)"
  unfolding wakeup_inv_def
proof (intro allI impI)
  fix d assume z: "somebody_sleeps d (s\<lparr>pcs := (broadcast c (pcs s))[i := x]\<rparr>)"
  then have "d \<noteq> c" "somebody_sleeps d s" using sleeps_broadcast assms(2,6) by blast+
  then show "available d (the_queue (s\<lparr>pcs := (broadcast c (pcs s))[i := x]\<rparr>))
      \<le> threads_at (will_serve d) (pcs (s\<lparr>pcs := (broadcast c (pcs s))[i := x]\<rparr>))"
    using assms serve_broadcast [of d c "pcs s"]
    by (auto simp: wakeup_inv_def threads_at_same)
qed

lemma wakeup_signal:
  assumes inv: "wakeup_inv s" and i: "i < length (pcs s)" "pcs s ! i = AtSignal c"
    and j: "j < length (pcs s)" "sleeps_on c (pcs s ! j)"
  shows "wakeup_inv (s\<lparr>pcs := (pcs s)[j := wake (pcs s ! j), i := AtUnlock e]\<rparr>)"
  unfolding wakeup_inv_def
proof (intro allI impI)
  fix d
  let ?xs = "(pcs s)[j := wake (pcs s ! j)]"
  have ij: "i \<noteq> j" using i j by auto
  assume "somebody_sleeps d (s\<lparr>pcs := ?xs[i := AtUnlock e]\<rparr>)"
  then have "somebody_sleeps d s" using i j
    by (auto simp: somebody_sleeps_def nth_list_update split: if_splits)
  moreover have "threads_at (will_serve d) (?xs[i := AtUnlock e]) = threads_at (will_serve d) (pcs s)"
    using threads_at_update [of j "pcs s" "will_serve d" "wake (pcs s ! j)"]
      threads_at_update [of i ?xs "will_serve d" "AtUnlock e"] i j ij
    by (auto simp: serve_wake [OF j(2)] serve_sleep [OF j(2)] split: if_splits)
  ultimately show "available d (the_queue (s\<lparr>pcs := ?xs[i := AtUnlock e]\<rparr>))
      \<le> threads_at (will_serve d) (pcs (s\<lparr>pcs := ?xs[i := AtUnlock e]\<rparr>))"
    using inv by (simp add: wakeup_inv_def)
qed

lemma wakeup_step: "qstep s t \<Longrightarrow> wakeup_inv s \<Longrightarrow> ring_inv s \<Longrightarrow> wakeup_inv t"
proof (induction rule: qstep.induct)
  case (call i s r p)
  show ?case by (rule wakeup_move [of s i]) (use call in auto)
next
  case (call_null i s r)
  show ?case by (rule wakeup_move [of s i]) (use call_null in auto)
next
  case (lock i s p)
  show ?case by (rule wakeup_move [of s i]) (use lock in \<open>auto split: if_splits\<close>)
next
  case (trylock_fails i s p)
  show ?case by (rule wakeup_move [of s i]) (use trylock_fails in auto)
next
  case (push_waits i s e)
  show ?case by (rule wakeup_move [of s i]) (use push_waits in \<open>auto simp: available_def queue_is_full_def split: qcond.splits\<close>)
next
  case (pop_waits i s w)
  show ?case by (rule wakeup_move [of s i]) (use pop_waits in \<open>auto simp: available_def queue_is_empty_def split: qcond.splits\<close>)
next
  case (spurious_wakeup i s p)
  show ?case by (rule wakeup_move [of s i]) (use spurious_wakeup in auto)
next
  case (push_resumes i s e)
  show ?case by (rule wakeup_move [of s i]) (use push_resumes in auto)
next
  case (pop_resumes i s w)
  show ?case by (rule wakeup_move [of s i]) (use pop_resumes in auto)
next
  case (push_aborts i s e)
  show ?case by (rule wakeup_move [of s i]) (use push_aborts in \<open>auto simp: available_def queue_is_full_def split: qcond.splits\<close>)
next
  case (pop_aborts i s w)
  show ?case by (rule wakeup_move [of s i]) (use pop_aborts in \<open>auto simp: available_def queue_is_empty_def split: qcond.splits\<close>)
next
  case (try_push_full i s e)
  show ?case by (rule wakeup_move [of s i]) (use try_push_full in auto)
next
  case (try_pop_empty i s w)
  show ?case by (rule wakeup_move [of s i]) (use try_pop_empty in auto)
next
  case (push_stores i s p e q')
  then have "q_size (q_buffer (the_queue s)) < q_capacity (the_queue s)"
    by (simp add: ring_inv_def queue_inv_def queue_is_full_def)
  note facts = this push_stores commit_sizes(1) [OF push_stores(5)]
  show ?case by (rule wakeup_move [of s i]) (use facts in \<open>auto simp: available_def split: qcond.splits\<close>)
next
  case (pop_takes i s p w q' out)
  then have "q_size (q_buffer (the_queue s)) \<le> q_capacity (the_queue s)" "0 < q_size (q_buffer (the_queue s))"
    by (simp_all add: ring_inv_def queue_inv_def queue_is_empty_def)
  note facts = this pop_takes commit_sizes(2) [OF pop_takes(5)]
  show ?case by (rule wakeup_move [of s i]) (use facts in \<open>auto simp: available_def split: qcond.splits\<close>)
next
  case (signal i s c j)
  then show ?case by (intro wakeup_signal)
next
  case (signal_nobody i s c)
  show ?case by (rule wakeup_move [of s i]) (use signal_nobody in \<open>auto simp: somebody_sleeps_def nth_list_update\<close>)
next
  case (set_aborted i s)
  show ?case by (rule wakeup_move [of s i]) (use set_aborted in auto)
next
  case (broadcast_pop i s)
  show ?case by (rule wakeup_broadcast [where pc = AtBroadcastPop]) (use broadcast_pop in auto)
next
  case (broadcast_push i s)
  show ?case by (rule wakeup_broadcast [where pc = AtBroadcastPush]) (use broadcast_push in auto)
next
  case (unlock i s c)
  show ?case by (rule wakeup_move [of s i]) (use unlock in auto)
qed

section \<open>Abort\<close>

text \<open>After an abort the only sleepers are those the aborting thread is about to wake.\<close>

definition abort_inv :: "qsys \<Rightarrow> bool" where
  "abort_inv s \<longleftrightarrow> q_aborted (q_sync (the_queue s)) \<longrightarrow> (\<forall>c. somebody_sleeps c s \<longrightarrow>
     (\<exists>k. owner s = Some k \<and> k < length (pcs s) \<and>
        (pcs s ! k = AtBroadcastPop \<or> c = CondPushVar \<and> pcs s ! k = AtBroadcastPush)))"

lemma abort_other:
  assumes inv: "abort_inv s" and i: "i < length (pcs s)" and t: "pcs t = (pcs s)[i := pcs t ! i]"
    and q: "q_aborted (q_sync (the_queue t)) = q_aborted (q_sync (the_queue s))"
    and o: "pcs s ! i \<noteq> AtBroadcastPop" "pcs s ! i \<noteq> AtBroadcastPush" "owner t = owner s \<or> \<not> q_aborted (q_sync (the_queue s))
       \<or> owner s = None \<or> owner s = Some i"
    and new: "\<And>c. sleeps_on c (pcs t ! i) \<Longrightarrow> \<not> q_aborted (q_sync (the_queue t))"
  shows "abort_inv t"
  unfolding abort_inv_def
proof (intro impI allI)
  fix c assume a: "q_aborted (q_sync (the_queue t))" and z: "somebody_sleeps c t"
  have "sleeps_on c (pcs t ! i) \<or> somebody_sleeps c s"
    using sleeps_update [OF i, of c "pcs t ! i"] z unfolding t [symmetric] by (simp add: somebody_sleeps_def)
  with new a have "somebody_sleeps c s" by blast
  with inv a q obtain k where k: "owner s = Some k" "k < length (pcs s)"
      "pcs s ! k = AtBroadcastPop \<or> c = CondPushVar \<and> pcs s ! k = AtBroadcastPush"
    by (auto simp: abort_inv_def)
  then have "k \<noteq> i" using o by auto
  moreover have "pcs t ! k = pcs s ! k" using \<open>k \<noteq> i\<close> by (subst t) simp
  moreover have "length (pcs t) = length (pcs s)" by (subst t) simp
  ultimately show "\<exists>k. owner t = Some k \<and> k < length (pcs t) \<and>
      (pcs t ! k = AtBroadcastPop \<or> c = CondPushVar \<and> pcs t ! k = AtBroadcastPush)"
    using k o a q by (intro exI [of _ k]) auto
qed

lemma abort_step: "qstep s t \<Longrightarrow> abort_inv s \<Longrightarrow> mutex_inv s \<Longrightarrow> abort_inv t"
proof (induction rule: qstep.induct)
  case (call i s r p)
  show ?case by (rule abort_other [of s i]) (use call in auto)
next
  case (call_null i s r)
  show ?case by (rule abort_other [of s i]) (use call_null in auto)
next
  case (lock i s p)
  show ?case by (rule abort_other [of s i]) (use lock in \<open>auto split: if_splits\<close>)
next
  case (trylock_fails i s p)
  show ?case by (rule abort_other [of s i]) (use trylock_fails in auto)
next
  case (push_waits i s e)
  show ?case by (rule abort_other [of s i]) (use push_waits in auto)
next
  case (pop_waits i s w)
  show ?case by (rule abort_other [of s i]) (use pop_waits in auto)
next
  case (spurious_wakeup i s p)
  show ?case by (rule abort_other [of s i]) (use spurious_wakeup in auto)
next
  case (push_resumes i s e)
  show ?case by (rule abort_other [of s i]) (use push_resumes in auto)
next
  case (pop_resumes i s w)
  show ?case by (rule abort_other [of s i]) (use pop_resumes in auto)
next
  case (push_aborts i s e)
  show ?case by (rule abort_other [of s i]) (use push_aborts in auto)
next
  case (pop_aborts i s w)
  show ?case by (rule abort_other [of s i]) (use pop_aborts in auto)
next
  case (try_push_full i s e)
  show ?case by (rule abort_other [of s i]) (use try_push_full in auto)
next
  case (try_pop_empty i s w)
  show ?case by (rule abort_other [of s i]) (use try_pop_empty in auto)
next
  case (push_stores i s p e q')
  show ?case by (rule abort_other [of s i]) (use push_stores commit_sync(1) [OF push_stores(5)] in auto)
next
  case (pop_takes i s p w q' out)
  show ?case by (rule abort_other [of s i]) (use pop_takes commit_sync(2) [OF pop_takes(5)] in auto)
next
  case (signal i s c j)
  then have "owner s = Some i" by (auto simp: mutex_inv_def)
  with signal show ?case
    by (auto simp: abort_inv_def somebody_sleeps_def nth_list_update split: if_splits)
next
  case (signal_nobody i s c)
  show ?case by (rule abort_other [of s i]) (use signal_nobody in auto)
next
  case (set_aborted i s)
  then have "owner s = Some i" by (auto simp: mutex_inv_def)
  with set_aborted show ?case by (auto simp: abort_inv_def)
next
  case (broadcast_pop i s)
  then have "owner s = Some i" by (auto simp: mutex_inv_def)
  with broadcast_pop show ?case using sleeps_broadcast [of i s _ CondPopVar AtBroadcastPush]
    by (auto simp: abort_inv_def) (metis qcond.exhaust)
next
  case (broadcast_push i s)
  then have "owner s = Some i" by (auto simp: mutex_inv_def)
  with broadcast_push show ?case using sleeps_broadcast [of i s _ CondPushVar "AtUnlock QUEUE_SUCCESS"]
    by (fastforce simp: abort_inv_def)
next
  case (unlock i s c)
  then have "owner s = Some i" by (auto simp: mutex_inv_def)
  show ?case by (rule abort_other [of s i]) (use unlock \<open>owner s = Some i\<close> in auto)
qed

section \<open>The invariant of the system\<close>

definition qsys_inv :: "qsys \<Rightarrow> bool" where
  "qsys_inv s \<longleftrightarrow> mutex_inv s \<and> ring_inv s \<and> count_inv s \<and> wakeup_inv s \<and> abort_inv s"

lemma threads_at_replicate [simp]: "\<not> P x \<Longrightarrow> threads_at P (replicate n x) = 0"
  by (simp add: threads_at_def)

lemma qinit_inv: "qsys_inv (qinit n es c)"
  using new_queue_inv [of es c]
  by (auto simp: qsys_inv_def qinit_def mutex_inv_def ring_inv_def count_inv_def wakeup_inv_def abort_inv_def
      somebody_sleeps_def waiting_def new_queue_def split: qcond.splits)

interpretation qs: invariant_system "\<lambda>s. \<exists>n es c. s = qinit n es c" qstep qsys_inv
proof unfold_locales
  fix s t assume "qsys_inv s" "qstep s t"
  then show "qsys_inv t" unfolding qsys_inv_def
    using mutex_step ring_step count_step wakeup_step abort_step by blast
qed (auto simp: qinit_inv)

lemma reachable_inv: "reaches qstep (qinit n es c) s \<Longrightarrow> qsys_inv s"
  by (rule qs.inv_reachable) auto

section \<open>Progress\<close>

text \<open>A thread is active when it is inside an operation and not asleep.\<close>

definition active :: "qpc \<Rightarrow> bool" where
  "active pc \<longleftrightarrow> (case pc of Outside _ \<Rightarrow> False | Asleep _ \<Rightarrow> False | _ \<Rightarrow> True)"

definition can_move :: "qsys \<Rightarrow> nat \<Rightarrow> bool" where
  "can_move s i \<longleftrightarrow> (\<exists>t. qstep s t \<and> i < length (pcs s) \<and> pcs t ! i \<noteq> pcs s ! i)"

lemma serve_active: "will_serve d pc \<Longrightarrow> active pc"
  by (cases pc) (auto simp: active_def)

lemma can_moveI: "qstep s t \<Longrightarrow> i < length (pcs s) \<Longrightarrow> pcs t ! i \<noteq> pcs s ! i \<Longrightarrow> can_move s i"
  by (auto simp: can_move_def)

lemma test_moves:
  assumes i: "i < length (pcs s)" and pc: "pcs s ! i = AtTest p" and ring: "ring_inv s"
  shows "can_move s i"
proof -
  let ?q = "the_queue s"
  have inv: "queue_inv ?q" and ok: "elem_ok (q_elem_size ?q) (AtTest p)" using ring i pc by (auto simp: ring_inv_def)
  have push: "can_move s i" if p: "p = Push e \<or> p = TryPush e" and room: "\<not> queue_is_full ?q" for e
  proof -
    have "length e = q_elem_size ?q" using ok p by (auto simp: elem_ok_def)
    then obtain q' where "push_commit ?q e = Done q'" using push_commit_ok [OF inv room, of e] by auto
    from qstep.push_stores [OF i pc p room this] i pc show ?thesis by (auto intro: can_moveI)
  qed
  have pop: "can_move s i" if p: "p = Pop w \<or> p = TryPop w" and some: "\<not> queue_is_empty ?q" for w
  proof -
    obtain q' out where "pop_commit ?q w = Done (q', out)" using pop_commit_ok [OF inv some, of w] by auto
    from qstep.pop_takes [OF i pc p some this] i pc show ?thesis by (auto intro: can_moveI)
  qed
  show ?thesis
  proof (cases p)
    case (Push e)
    then show ?thesis using push [of e] pc i qstep.push_waits [OF i, of e] qstep.push_aborts [OF i, of e]
      by (cases "queue_is_full ?q"; cases "q_aborted (q_sync ?q)") (auto intro: can_moveI)
  next
    case (Pop w)
    then show ?thesis using pop [of w] pc i qstep.pop_waits [OF i, of w] qstep.pop_aborts [OF i, of w]
      by (cases "queue_is_empty ?q"; cases "q_aborted (q_sync ?q)") (auto intro: can_moveI)
  next
    case (TryPush e)
    then show ?thesis using push [of e] pc i qstep.try_push_full [OF i, of e]
      by (cases "queue_is_full ?q") (auto intro: can_moveI)
  next
    case (TryPop w)
    then show ?thesis using pop [of w] pc i qstep.try_pop_empty [OF i, of w]
      by (cases "queue_is_empty ?q") (auto intro: can_moveI)
  next
    case Abort
    then show ?thesis using ok by (simp add: elem_ok_def)
  qed
qed

lemma critical_moves:
  assumes "i < length (pcs s)" "in_critical (pcs s ! i)" "ring_inv s"
  shows "can_move s i"
proof (cases "pcs s ! i")
  case (AtTest p)
  then show ?thesis using assms test_moves by blast
next
  case (AtSignal c)
  show ?thesis
  proof (cases "\<exists>j < length (pcs s). sleeps_on c (pcs s ! j)")
    case True
    then obtain j where "j < length (pcs s)" "sleeps_on c (pcs s ! j)" by blast
    from qstep.signal [OF assms(1) AtSignal this] show ?thesis using assms AtSignal by (auto intro: can_moveI)
  next
    case False
    then have "\<forall>j < length (pcs s). \<not> sleeps_on c (pcs s ! j)" by blast
    from qstep.signal_nobody [OF assms(1) AtSignal this] show ?thesis using assms AtSignal by (auto intro: can_moveI)
  qed
qed (use assms qstep.unlock [OF assms(1)] qstep.set_aborted [OF assms(1)] qstep.broadcast_pop [OF assms(1)]
    qstep.broadcast_push [OF assms(1)] in \<open>auto intro: can_moveI\<close>)

lemma waiting_thread_moves:
  assumes i: "i < length (pcs s)" "active (pcs s ! i)" "\<not> in_critical (pcs s ! i)" and free: "owner s = None"
    and ok: "ring_inv s"
  shows "can_move s i"
proof (cases "pcs s ! i")
  case (AtLock p)
  show ?thesis by (rule can_moveI [OF qstep.lock [OF i(1) AtLock free] i(1)]) (simp add: i AtLock)
next
  case (Woken p)
  then have "(\<exists>e. p = Push e) \<or> (\<exists>w. p = Pop w)" if "\<not> can_move s i"
    using ok i that by (cases p) (auto simp: ring_inv_def elem_ok_def)
  then show ?thesis using qstep.push_resumes [OF i(1)] qstep.pop_resumes [OF i(1)] Woken i(1) free
    by (cases "can_move s i") (auto intro: can_moveI)
qed (use i in \<open>auto simp: active_def\<close>)

section \<open>After an abort nobody sleeps any more\<close>

definition all_awake :: "qsys \<Rightarrow> bool" where
  "all_awake s \<longleftrightarrow> q_aborted (q_sync (the_queue s)) \<and> (\<forall>c. \<not> somebody_sleeps c s)"

lemma awake_step: "qstep s t \<Longrightarrow> all_awake s \<Longrightarrow> all_awake t"
proof (induction rule: qstep.induct)
  case (push_stores i s p e q')
  then show ?case using commit_sync(1) by (fastforce simp: all_awake_def dest: sleeps_update)
next
  case (pop_takes i s p w q' out)
  then show ?case using commit_sync(2) by (fastforce simp: all_awake_def dest: sleeps_update)
next
  case (signal i s c j)
  then show ?case by (auto simp: all_awake_def somebody_sleeps_def)
next
  case (broadcast_pop i s)
  then show ?case using sleeps_broadcast by (fastforce simp: all_awake_def)
next
  case (broadcast_push i s)
  then show ?case using sleeps_broadcast by (fastforce simp: all_awake_def)
next
  case (lock i s p)
  then show ?case by (cases "p = Abort") (auto simp: all_awake_def dest: sleeps_update)
qed (auto simp: all_awake_def dest: sleeps_update)

interpretation awake: invariant_system all_awake qstep all_awake
  by unfold_locales (auto intro: awake_step)

section \<open>The properties\<close>

text \<open>
  C4: whatever the threads do, in every reachable state the ring buffer invariant holds, at
  most one thread is between a lock and the matching unlock, and the two waiting counters that
  \<^verbatim>\<open>queue_forecast\<close> reads are exactly the numbers of threads inside the two waits.
\<close>

theorem queue_threads_safe:
  assumes "reaches qstep (qinit n es c) s"
  shows "queue_inv (the_queue s) \<and>
    (\<forall>i j. i < length (pcs s) \<longrightarrow> j < length (pcs s) \<longrightarrow> in_critical (pcs s ! i) \<longrightarrow> in_critical (pcs s ! j) \<longrightarrow> i = j) \<and>
    q_waiting_for_push (q_sync (the_queue s)) = threads_at (waits_on CondPushVar) (pcs s) \<and>
    q_waiting_for_pop (q_sync (the_queue s)) = threads_at (waits_on CondPopVar) (pcs s)"
proof -
  have inv: "mutex_inv s" "ring_inv s" "count_inv s" using reachable_inv [OF assms] by (simp_all add: qsys_inv_def)
  have "\<And>i j. i < length (pcs s) \<Longrightarrow> j < length (pcs s) \<Longrightarrow> in_critical (pcs s ! i) \<Longrightarrow> in_critical (pcs s ! j) \<Longrightarrow> i = j"
    using inv(1) by (fastforce simp: mutex_inv_def)
  moreover have "waiting d (the_queue s) = threads_at (waits_on d) (pcs s)" for d using inv(3) by (simp add: count_inv_def)
  from this [of CondPushVar] this [of CondPopVar] have
    "q_waiting_for_push (q_sync (the_queue s)) = threads_at (waits_on CondPushVar) (pcs s)"
    "q_waiting_for_pop (q_sync (the_queue s)) = threads_at (waits_on CondPopVar) (pcs s)" by (simp_all add: waiting_def)
  ultimately show ?thesis using inv(2) by (auto simp: ring_inv_def)
qed

text \<open>
  The state in which thread 0 sleeps in a pop and thread 1 has just stored an element and is
  about to signal; it is reached in six steps.
\<close>

definition demo_stored :: qsys where
  "demo_stored =
     \<lparr>the_queue = ring_put (set_sync (\<lambda>y. y\<lparr>q_waiting_for_pop := 1\<rparr>) (new_queue 1 1)) [7],
      owner = Some 1, pcs = [Asleep (Pop True), AtSignal CondPopVar]\<rparr>"

lemma reaches_trans: "reaches st a b \<Longrightarrow> st b d \<Longrightarrow> d = e \<Longrightarrow> reaches st a e"
  by (auto intro: reaches_step)

lemma demo_stored_reached: "reaches qstep (qinit 2 1 1) demo_stored"
proof -
  let ?q = "new_queue 1 1" and ?w = "set_sync (\<lambda>y. y\<lparr>q_waiting_for_pop := 1\<rparr>) (new_queue 1 1)"
  have 0: "reaches qstep (qinit 2 1 1) \<lparr>the_queue = ?q, owner = None, pcs = [Outside None, Outside None]\<rparr>"
    using reaches_refl [of qstep "qinit 2 1 1"] by (simp add: qinit_def numeral_2_eq_2)
  have 1: "reaches qstep (qinit 2 1 1) \<lparr>the_queue = ?q, owner = None, pcs = [AtLock (Pop True), Outside None]\<rparr>"
    by (rule reaches_trans [OF 0 qstep.call [of 0 _ None "Pop True"]]) simp_all
  have 2: "reaches qstep (qinit 2 1 1) \<lparr>the_queue = ?q, owner = Some 0, pcs = [AtTest (Pop True), Outside None]\<rparr>"
    by (rule reaches_trans [OF 1 qstep.lock [of 0 _ "Pop True"]]) simp_all
  have 3: "reaches qstep (qinit 2 1 1) \<lparr>the_queue = ?w, owner = None, pcs = [Asleep (Pop True), Outside None]\<rparr>"
    by (rule reaches_trans [OF 2 qstep.pop_waits [of 0 _ True]]) (simp_all add: new_queue_def queue_is_empty_def)
  have 4: "reaches qstep (qinit 2 1 1) \<lparr>the_queue = ?w, owner = None, pcs = [Asleep (Pop True), AtLock (Push [7])]\<rparr>"
    by (rule reaches_trans [OF 3 qstep.call [of 1 _ None "Push [7]"]]) (simp_all add: new_queue_def)
  have 5: "reaches qstep (qinit 2 1 1) \<lparr>the_queue = ?w, owner = Some 1, pcs = [Asleep (Pop True), AtTest (Push [7])]\<rparr>"
    by (rule reaches_trans [OF 4 qstep.lock [of 1 _ "Push [7]"]]) simp_all
  show ?thesis
    by (rule reaches_trans [OF 5 qstep.push_stores [where i = 1 and e = "[7]" and p = "Push [7]" and q' = "ring_put ?w [7]"]])
      (simp_all add: demo_stored_def ring_put_def push_commit_def mem_store_def new_queue_def queue_is_full_def)
qed

lemma demo_stored_facts:
  "somebody_sleeps CondPopVar demo_stored" "q_size (q_buffer (the_queue demo_stored)) = 1"
  "q_waiting_for_pop (q_sync (the_queue demo_stored)) = 1" "\<not> q_aborted (q_sync (the_queue demo_stored))"
  by (auto simp: somebody_sleeps_def demo_stored_def ring_put_def push_commit_def mem_store_def new_queue_def)

theorem queue_threads_safe_witness:
  "reaches qstep (qinit 2 1 1) demo_stored \<and> queue_inv (the_queue demo_stored) \<and>
   threads_at (waits_on CondPopVar) (pcs demo_stored) = 1"
  using queue_threads_safe [OF demo_stored_reached] demo_stored_reached demo_stored_facts by simp

text \<open>
  C6: no wakeup is lost.  In every reachable state where a thread sleeps in \<^verbatim>\<open>queue_pop\<close>, each
  stored element is covered by a different thread that is about to signal, has been woken, or
  is about to look at the queue; the same holds for free slots and sleepers in \<^verbatim>\<open>queue_push\<close>.
\<close>

theorem queue_no_lost_wakeup:
  assumes "reaches qstep (qinit n es cap) s"
  shows "(somebody_sleeps CondPopVar s \<longrightarrow>
        queue_size (the_queue s) \<le> threads_at (will_serve CondPopVar) (pcs s)) \<and>
    (somebody_sleeps CondPushVar s \<longrightarrow>
        queue_capacity (the_queue s) - queue_size (the_queue s) \<le> threads_at (will_serve CondPushVar) (pcs s))"
proof -
  have "somebody_sleeps d s \<longrightarrow> available d (the_queue s) \<le> threads_at (will_serve d) (pcs s)" for d
    using reachable_inv [OF assms] by (simp add: qsys_inv_def wakeup_inv_def)
  from this [of CondPopVar] this [of CondPushVar] show ?thesis
    by (simp add: available_def queue_size_def queue_capacity_def)
qed

theorem queue_no_lost_wakeup_witness:
  "somebody_sleeps CondPopVar demo_stored \<and> 1 \<le> threads_at (will_serve CondPopVar) (pcs demo_stored)"
  using queue_no_lost_wakeup [OF demo_stored_reached] demo_stored_facts by (simp add: queue_size_def)

text \<open>
  C7: there is no deadlock.  In every reachable state, while some thread is inside an operation
  and not asleep, such a thread can take a step; and when all threads that are inside are
  asleep, the queue has not been aborted, is empty if a pop sleeps and full if a push sleeps.
\<close>

theorem queue_no_deadlock:
  assumes "reaches qstep (qinit n es cap) s"
  shows "if \<exists>i < length (pcs s). active (pcs s ! i)
    then \<exists>i < length (pcs s). active (pcs s ! i) \<and> can_move s i
    else (somebody_sleeps CondPopVar s \<longrightarrow> queue_is_empty (the_queue s) \<and> \<not> q_aborted (q_sync (the_queue s))) \<and>
         (somebody_sleeps CondPushVar s \<longrightarrow> queue_is_full (the_queue s) \<and> \<not> q_aborted (q_sync (the_queue s)))"
proof -
  have inv: "mutex_inv s" "ring_inv s" "wakeup_inv s" "abort_inv s" using reachable_inv [OF assms] by (simp_all add: qsys_inv_def)
  have crit: "active pc" if "in_critical pc" for pc using that by (cases pc) (auto simp: active_def)
  show ?thesis
  proof (cases "\<exists>i < length (pcs s). active (pcs s ! i)")
    case True
    then obtain i where i: "i < length (pcs s)" "active (pcs s ! i)" by blast
    show ?thesis
    proof (cases "owner s")
      case None
      with i inv(1) have "\<not> in_critical (pcs s ! i)" by (auto simp: mutex_inv_def)
      with waiting_thread_moves [OF i this None inv(2)] i True show ?thesis by auto
    next
      case (Some k)
      with inv(1) have "k < length (pcs s)" "in_critical (pcs s ! k)" by (auto simp: mutex_inv_def)
      with critical_moves [OF this inv(2)] crit True show ?thesis by auto
    qed
  next
    case False
    have idle: "threads_at (will_serve d) (pcs s) = 0" for d
      using False serve_active by (fastforce simp: threads_at_def filter_empty_conv in_set_conv_nth)
    have "available d (the_queue s) = 0 \<and> \<not> q_aborted (q_sync (the_queue s))" if "somebody_sleeps d s" for d
      using inv(3,4) that idle [of d] False by (fastforce simp: wakeup_inv_def abort_inv_def active_def)
    from this [of CondPopVar] this [of CondPushVar] False inv(2) show ?thesis
      by (auto simp: available_def queue_is_empty_def queue_is_full_def ring_inv_def queue_inv_def)
  qed
qed

theorem queue_no_deadlock_witness:
  "\<exists>i < length (pcs demo_stored). active (pcs demo_stored ! i) \<and> can_move demo_stored i"
proof -
  have "\<exists>i < length (pcs demo_stored). active (pcs demo_stored ! i)"
    by (rule exI [of _ 1]) (simp add: demo_stored_def active_def)
  then show ?thesis using queue_no_deadlock [OF demo_stored_reached] by simp
qed

text \<open>
  C8: \<^verbatim>\<open>queue_abort\<close> releases everybody for good.  Once the queue is aborted and the aborting
  thread has left the mutex, no thread sleeps in a push or a pop, and none will ever again.
\<close>

theorem queue_abort_releases:
  assumes "reaches qstep (qinit n es cap) s" "q_aborted (q_sync (the_queue s))" "owner s = None" "reaches qstep s t"
  shows "\<not> somebody_sleeps c t \<and> q_aborted (q_sync (the_queue t))"
proof -
  have "abort_inv s" using reachable_inv [OF assms(1)] by (simp add: qsys_inv_def)
  then have "all_awake s" using assms(2,3) by (auto simp: all_awake_def abort_inv_def)
  from awake.inv_reaches [OF assms(4) this] show ?thesis by (simp add: all_awake_def)
qed

definition demo_aborted :: qsys where
  "demo_aborted = \<lparr>the_queue = fst (queue_abort (new_queue 1 1)), owner = None, pcs = [Outside (Some QUEUE_SUCCESS)]\<rparr>"

lemma demo_aborted_reached: "reaches qstep (qinit 1 1 1) demo_aborted"
proof -
  let ?q = "new_queue 1 1" and ?a = "fst (queue_abort (new_queue 1 1))"
  have 0: "reaches qstep (qinit 1 1 1) \<lparr>the_queue = ?q, owner = None, pcs = [Outside None]\<rparr>"
    using reaches_refl [of qstep "qinit 1 1 1"] by (simp add: qinit_def)
  have 1: "reaches qstep (qinit 1 1 1) \<lparr>the_queue = ?q, owner = None, pcs = [AtLock Abort]\<rparr>"
    by (rule reaches_trans [OF 0 qstep.call [of 0 _ None Abort]]) simp_all
  have 2: "reaches qstep (qinit 1 1 1) \<lparr>the_queue = ?q, owner = Some 0, pcs = [AtSetAborted]\<rparr>"
    by (rule reaches_trans [OF 1 qstep.lock [of 0 _ Abort]]) simp_all
  have 3: "reaches qstep (qinit 1 1 1) \<lparr>the_queue = ?a, owner = Some 0, pcs = [AtBroadcastPop]\<rparr>"
    by (rule reaches_trans [OF 2 qstep.set_aborted [of 0]]) simp_all
  have 4: "reaches qstep (qinit 1 1 1) \<lparr>the_queue = ?a, owner = Some 0, pcs = [AtBroadcastPush]\<rparr>"
    by (rule reaches_trans [OF 3 qstep.broadcast_pop [of 0]]) (simp_all add: broadcast_def)
  have 5: "reaches qstep (qinit 1 1 1) \<lparr>the_queue = ?a, owner = Some 0, pcs = [AtUnlock QUEUE_SUCCESS]\<rparr>"
    by (rule reaches_trans [OF 4 qstep.broadcast_push [of 0]]) (simp_all add: broadcast_def)
  show ?thesis
    by (rule reaches_trans [OF 5 qstep.unlock [of 0 _ QUEUE_SUCCESS]]) (simp_all add: demo_aborted_def leave_def)
qed

theorem queue_abort_releases_witness:
  "reaches qstep (qinit 1 1 1) demo_aborted \<and> \<not> somebody_sleeps CondPopVar demo_aborted"
  using queue_abort_releases [OF demo_aborted_reached _ _ reaches_refl, of CondPopVar] demo_aborted_reached
  by (simp add: demo_aborted_def)

end
