(* ===== verification/Linked_List.thy ===== *)
theory Linked_List
  imports Fifo_Spec
begin

text \<open>
  \<^verbatim>\<open>ex09/primes/list.c\<close>: the singly linked list with head and tail pointers, on an explicit heap of
  nodes.  A pointer is an address or \<^verbatim>\<open>NULL\<close> (\<open>None\<close>); dereferencing \<^verbatim>\<open>NULL\<close> or a freed node faults.
  What \<^verbatim>\<open>malloc\<close> returns is an argument of the operation that calls it.
\<close>

section \<open>Data and operations\<close>

type_synonym addr = nat

record node =
  next_ptr :: "addr option"
  node_value :: int

record list_head =
  head_ptr :: "addr option"
  tail_ptr :: "addr option"
  list_sz :: nat

type_synonym cells = "addr \<Rightarrow> node option"

text \<open>\<open>None\<close> is a failed \<^verbatim>\<open>calloc\<close>.\<close>

definition list_init :: "bool \<Rightarrow> list_head option" where
  "list_init calloc_ok = (if calloc_ok then Some \<lparr>head_ptr = None, tail_ptr = None, list_sz = 0\<rparr> else None)"

definition list_size :: "list_head \<Rightarrow> nat" where "list_size l = list_sz l"

definition list_is_empty :: "list_head \<Rightarrow> bool" where "list_is_empty l \<longleftrightarrow> list_sz l = 0"

definition list_push :: "addr option \<Rightarrow> int \<Rightarrow> cells \<times> list_head \<Rightarrow> ((cells \<times> list_head) \<times> bool) outcome" where
  "list_push malloc v st =
     (case st of (c, l) \<Rightarrow>
      case malloc of
        None \<Rightarrow> Done ((c, l), False)
      | Some a \<Rightarrow>
          (let c1 = c(a \<mapsto> \<lparr>next_ptr = None, node_value = v\<rparr>) in
           case head_ptr l of
             None \<Rightarrow> Done ((c1, l\<lparr>head_ptr := Some a, tail_ptr := Some a, list_sz := list_sz l + 1\<rparr>), True)
           | Some _ \<Rightarrow>
               (case tail_ptr l of
                  None \<Rightarrow> Fault NullDeref
                | Some t \<Rightarrow>
                    (case c1 t of
                       None \<Rightarrow> Fault OutOfBounds
                     | Some tn \<Rightarrow>
                         Done ((c1(t \<mapsto> tn\<lparr>next_ptr := Some a\<rparr>),
                                l\<lparr>tail_ptr := Some a, list_sz := list_sz l + 1\<rparr>), True)))))"

text \<open>The value is \<open>None\<close> when the list is empty; the caller's \<^verbatim>\<open>value != NULL\<close> decides whether it is stored.\<close>

definition list_pop :: "cells \<times> list_head \<Rightarrow> ((cells \<times> list_head) \<times> int option) outcome" where
  "list_pop st =
     (case st of (c, l) \<Rightarrow>
      if list_sz l = 0 then Done ((c, l), None)
      else case head_ptr l of
        None \<Rightarrow> Fault NullDeref
      | Some rm \<Rightarrow>
          (case c rm of
             None \<Rightarrow> Fault OutOfBounds
           | Some n \<Rightarrow>
               Done ((c(rm := None),
                      l\<lparr>head_ptr := next_ptr n, tail_ptr := (if next_ptr n = None then None else tail_ptr l),
                        list_sz := list_sz l - 1\<rparr>), Some (node_value n))))"

text \<open>\<^verbatim>\<open>while (list_pop(list, NULL));\<close> with fuel; the result is the heap after the last node is freed.\<close>

fun list_destroy :: "nat \<Rightarrow> cells \<times> list_head \<Rightarrow> cells outcome option" where
  "list_destroy 0 st = None"
| "list_destroy (Suc fuel) st =
     (case list_pop st of
        Fault f \<Rightarrow> Some (Fault f)
      | Exit e \<Rightarrow> Some (Exit e)
      | Done (st', Some _) \<Rightarrow> list_destroy fuel st'
      | Done (st', None) \<Rightarrow> Some (Done (fst st')))"

section \<open>The shape of the heap\<close>

fun list_at :: "cells \<Rightarrow> addr option \<Rightarrow> addr list \<Rightarrow> bool" where
  "list_at c p [] = (p = None)"
| "list_at c p (a # as) = (p = Some a \<and> (case c a of None \<Rightarrow> False | Some n \<Rightarrow> list_at c (next_ptr n) as))"

text \<open>The nodes of the list are all there is on its heap, in the order of the addresses \<open>as\<close>.\<close>

definition shape :: "cells \<times> list_head \<Rightarrow> addr list \<Rightarrow> bool" where
  "shape st as \<longleftrightarrow> list_at (fst st) (head_ptr (snd st)) as \<and> distinct as \<and> dom (fst st) = set as \<and>
     list_sz (snd st) = length as \<and> tail_ptr (snd st) = (if as = [] then None else Some (last as))"

definition list_inv :: "cells \<times> list_head \<Rightarrow> bool" where
  "list_inv st \<longleftrightarrow> (\<exists>as. shape st as)"

text \<open>The values, found by following \<^verbatim>\<open>next\<close> from the head.\<close>

fun values_from :: "nat \<Rightarrow> cells \<Rightarrow> addr option \<Rightarrow> int list" where
  "values_from 0 c p = []"
| "values_from (Suc n) c p =
     (case p of None \<Rightarrow> []
      | Some a \<Rightarrow> (case c a of None \<Rightarrow> [] | Some nd \<Rightarrow> node_value nd # values_from n c (next_ptr nd)))"

definition list_contents :: "cells \<times> list_head \<Rightarrow> int list" where
  "list_contents st = values_from (list_sz (snd st)) (fst st) (head_ptr (snd st))"

lemma list_at_values: "list_at c p as \<Longrightarrow> values_from (length as) c p = map (\<lambda>a. node_value (the (c a))) as"
  by (induction as arbitrary: p) (auto split: option.splits)

lemma shape_contents: "shape st as \<Longrightarrow> list_contents st = map (\<lambda>a. node_value (the (fst st a))) as"
  by (simp add: shape_def list_contents_def list_at_values)

lemma list_at_head: "list_at c p as \<Longrightarrow> p = None \<longleftrightarrow> as = []"
  by (cases as) auto

lemma list_at_frame: "a \<notin> set as \<Longrightarrow> list_at (c(a := x)) p as = list_at c p as"
  by (induction as arbitrary: p) (auto split: option.splits)

lemma list_at_snoc:
  assumes "list_at c p as" "as \<noteq> []" "distinct as" "b \<notin> set as" "c (last as) = Some tn"
  shows "list_at (c(b \<mapsto> \<lparr>next_ptr = None, node_value = v\<rparr>, last as \<mapsto> tn\<lparr>next_ptr := Some b\<rparr>)) p (as @ [b])"
  using assms
proof (induction as arbitrary: p)
  case (Cons a as)
  show ?case
  proof (cases "as = []")
    case True
    with Cons.prems show ?thesis by auto
  next
    case False
    with Cons.prems have "a \<noteq> last as" by (metis distinct.simps(2) last_in_set)
    with Cons False show ?thesis by (auto split: option.splits)
  qed
qed simp

lemma push_ok:
  assumes "shape (c, l) as" "c a = None"
  shows "\<exists>st'. list_push (Some a) v (c, l) = Done (st', True) \<and> shape st' (as @ [a]) \<and> list_contents st' = list_contents (c, l) @ [v]"
proof -
  have dom: "dom c = set as" "list_at c (head_ptr l) as" "distinct as" "list_sz l = length as"
      "tail_ptr l = (if as = [] then None else Some (last as))" using assms(1) by (auto simp: shape_def)
  have a: "a \<notin> set as" using assms(2) dom(1) by auto
  show ?thesis
  proof (cases "as = []")
    case True
    let ?st = "(c(a \<mapsto> \<lparr>next_ptr = None, node_value = v\<rparr>), l\<lparr>head_ptr := Some a, tail_ptr := Some a, list_sz := list_sz l + 1\<rparr>)"
    have "list_push (Some a) v (c, l) = Done (?st, True)" using True dom by (simp add: list_push_def Let_def)
    moreover have "shape ?st [a]" using True dom by (simp add: shape_def)
    moreover from this have "list_contents ?st = [v]" by (simp add: shape_contents)
    ultimately show ?thesis using True shape_contents [OF assms(1)] by auto
  next
    case False
    then have "last as \<in> dom c" using dom(1) by simp
    then obtain tn where tn: "c (last as) = Some tn" by auto
    have ne: "last as \<noteq> a" using a False by auto
    let ?c = "c(a \<mapsto> \<lparr>next_ptr = None, node_value = v\<rparr>, last as \<mapsto> tn\<lparr>next_ptr := Some a\<rparr>)"
    let ?st = "(?c, l\<lparr>tail_ptr := Some a, list_sz := list_sz l + 1\<rparr>)"
    obtain h where h: "head_ptr l = Some h" using list_at_head [OF dom(2)] False by auto
    have "list_push (Some a) v (c, l) = Done (?st, True)" using h False dom(5) tn ne by (simp add: list_push_def Let_def)
    moreover have sh: "shape ?st (as @ [a])"
      using list_at_snoc [OF dom(2) False dom(3) a tn] dom(1,3,4) a False by (auto simp: shape_def)
    moreover have "list_contents ?st = list_contents (c, l) @ [v]"
      using shape_contents [OF sh] shape_contents [OF assms(1)] a ne tn by (auto simp: map_eq_conv)
    ultimately show ?thesis by blast
  qed
qed

lemma pop_ok:
  assumes "shape (c, l) (a # as)"
  shows "\<exists>st'. list_pop (c, l) = Done (st', Some (hd (list_contents (c, l)))) \<and> shape st' as \<and> list_contents st' = tl (list_contents (c, l))"
proof -
  obtain n where n: "c a = Some n" "list_at c (next_ptr n) as" and h: "head_ptr l = Some a" and dom: "dom c = insert a (set as)"
    and d: "a \<notin> set as" "distinct as" "list_sz l = Suc (length as)" "tail_ptr l = Some (last (a # as))"
    using assms by (auto simp: shape_def split: option.splits)
  let ?st = "(c(a := None), l\<lparr>head_ptr := next_ptr n, tail_ptr := (if next_ptr n = None then None else tail_ptr l), list_sz := list_sz l - 1\<rparr>)"
  have cont: "list_contents (c, l) = node_value n # map (\<lambda>a. node_value (the (c a))) as"
    using shape_contents [OF assms] n by simp
  have "list_pop (c, l) = Done (?st, Some (node_value n))" using h n d by (simp add: list_pop_def)
  moreover have sh: "shape ?st as"
    using n(2) d dom list_at_head [OF n(2)] by (auto simp: shape_def list_at_frame)
  moreover have "list_contents ?st = map (\<lambda>a. node_value (the (c a))) as"
    using shape_contents [OF sh] d(1) by auto
  ultimately show ?thesis using cont by auto
qed

section \<open>The list is a first-in first-out container\<close>

text \<open>An allocator that always finds a free address, to run the list on.\<close>

definition next_address :: "cells \<Rightarrow> addr" where
  "next_address c = Suc (Max (insert 0 (dom c)))"

definition list_put :: "cells \<times> list_head \<Rightarrow> int \<Rightarrow> cells \<times> list_head" where
  "list_put st v = (case list_push (Some (next_address (fst st))) v st of Done (st', _) \<Rightarrow> st' | _ \<Rightarrow> st)"

definition list_get :: "cells \<times> list_head \<Rightarrow> cells \<times> list_head" where
  "list_get st = (case list_pop st of Done (st', _) \<Rightarrow> st' | _ \<Rightarrow> st)"

definition list_front :: "cells \<times> list_head \<Rightarrow> int" where
  "list_front st = (case list_pop st of Done (_, Some v) \<Rightarrow> v | _ \<Rightarrow> 0)"

lemma next_address_fresh: "finite (dom c) \<Longrightarrow> c (next_address c) = None"
proof -
  assume "finite (dom c)"
  then have "\<forall>a \<in> dom c. a < next_address c" by (simp add: next_address_def less_Suc_eq_le)
  then show ?thesis by (metis domIff less_irrefl)
qed

lemma list_put_ok: "list_inv st \<Longrightarrow> list_inv (list_put st v) \<and> list_contents (list_put st v) = list_contents st @ [v]"
proof -
  assume "list_inv st"
  then obtain c l as where st: "st = (c, l)" "shape (c, l) as" by (cases st) (auto simp: list_inv_def)
  then have "finite (dom c)" by (simp add: shape_def)
  from push_ok [OF st(2) next_address_fresh [OF this], of v] st(1) show ?thesis
    by (auto simp: list_put_def list_inv_def)
qed

lemma list_get_ok:
  assumes "list_inv st" "\<not> list_is_empty (snd st)"
  shows "list_inv (list_get st) \<and> list_contents (list_get st) = tl (list_contents st) \<and> list_front st = hd (list_contents st)"
proof -
  obtain c l a as where st: "st = (c, l)" "shape (c, l) (a # as)"
    using assms by (cases st) (auto simp: list_inv_def list_is_empty_def shape_def neq_Nil_conv)
  from pop_ok [OF st(2)] st(1) show ?thesis by (auto simp: list_get_def list_front_def list_inv_def)
qed

lemma contents_empty: "list_inv st \<Longrightarrow> list_is_empty (snd st) \<longleftrightarrow> list_contents st = []"
proof -
  assume "list_inv st"
  then obtain as where as: "shape st as" by (auto simp: list_inv_def)
  then have "list_sz (snd st) = length as" by (simp add: shape_def)
  with shape_contents [OF as] show ?thesis by (simp add: list_is_empty_def)
qed

interpretation ll: fifo_values list_inv list_contents "\<lambda>_ _. True" list_put "\<lambda>st. \<not> list_is_empty (snd st)" list_get list_front
  by unfold_locales (auto simp: list_put_ok list_get_ok contents_empty)

lemma destroy_ok: "shape st as \<Longrightarrow> length as < fuel \<Longrightarrow> list_destroy fuel st = Some (Done Map.empty)"
proof (induction as arbitrary: st fuel)
  case Nil
  then obtain f where "fuel = Suc f" by (cases fuel) auto
  with Nil show ?case by (cases st) (auto simp: shape_def list_pop_def)
next
  case (Cons a as)
  then obtain f where f: "fuel = Suc f" by (cases fuel) auto
  obtain c l where st: "st = (c, l)" by fastforce
  from pop_ok [of c l a as] Cons.prems(1) st obtain st' x where "list_pop st = Done (st', Some x)" "shape st' as" by auto
  with Cons.IH [of st' f] Cons.prems(2) f show ?case by simp
qed

section \<open>The properties\<close>

text \<open>
  \<^verbatim>\<open>list_push\<close> and \<^verbatim>\<open>list_pop\<close> never dereference a bad pointer on a well-formed list and keep it
  well formed.  A push appends its value, or changes nothing when \<^verbatim>\<open>malloc\<close> fails; a pop removes and
  returns the oldest value, or reports that there is none.
\<close>

theorem list_operations_correct:
  assumes "list_inv st" "\<And>a. malloc = Some a \<Longrightarrow> fst st a = None"
  shows "\<exists>st1 ok st2 r. list_push malloc v st = Done (st1, ok) \<and> list_inv st1 \<and> ok = (malloc \<noteq> None) \<and>
      list_contents st1 = list_contents st @ (if ok then [v] else []) \<and>
    list_pop st = Done (st2, r) \<and> list_inv st2 \<and>
      (case list_contents st of [] \<Rightarrow> r = None \<and> st2 = st | x # xs \<Rightarrow> r = Some x \<and> list_contents st2 = xs)"
proof -
  obtain c l as where st: "st = (c, l)" "shape (c, l) as" using assms(1) by (cases st) (auto simp: list_inv_def)
  have push: "\<exists>st1 ok. list_push malloc v st = Done (st1, ok) \<and> list_inv st1 \<and> ok = (malloc \<noteq> None) \<and>
      list_contents st1 = list_contents st @ (if ok then [v] else [])"
  proof (cases malloc)
    case None
    then show ?thesis using assms(1) st(1) by (auto simp: list_push_def)
  next
    case (Some a)
    with push_ok [OF st(2), of a v] assms(2) [OF Some] st(1) show ?thesis by (auto simp: list_inv_def)
  qed
  have pop: "\<exists>st2 r. list_pop st = Done (st2, r) \<and> list_inv st2 \<and>
      (case list_contents st of [] \<Rightarrow> r = None \<and> st2 = st | x # xs \<Rightarrow> r = Some x \<and> list_contents st2 = xs)"
  proof (cases as)
    case Nil
    with st shape_contents [OF st(2)] assms(1) show ?thesis by (simp add: list_pop_def shape_def)
  next
    case (Cons a bs)
    with pop_ok [of c l a bs] st shape_contents [OF st(2)] show ?thesis by (auto simp: list_inv_def)
  qed
  from push pop show ?thesis by blast
qed

definition demo_list :: "cells \<times> list_head" where
  "demo_list = ([3 \<mapsto> \<lparr>next_ptr = Some 8, node_value = 10\<rparr>, 8 \<mapsto> \<lparr>next_ptr = None, node_value = 20\<rparr>],
     \<lparr>head_ptr = Some 3, tail_ptr = Some 8, list_sz = 2\<rparr>)"

lemma demo_list_ok: "shape demo_list [3, 8]" "list_contents demo_list = [10, 20]"
proof -
  show sh: "shape demo_list [3, 8]" by (auto simp: shape_def demo_list_def)
  show "list_contents demo_list = [10, 20]" unfolding shape_contents [OF sh] by (simp add: demo_list_def)
qed

theorem list_operations_correct_witness:
  "\<exists>st1. list_push (Some 5) 30 demo_list = Done (st1, True) \<and> list_contents st1 = [10, 20, 30]"
proof -
  have "list_inv demo_list" using demo_list_ok(1) by (auto simp: list_inv_def)
  from list_operations_correct [OF this, of "Some 5" 30] show ?thesis
    using demo_list_ok(2) by (auto simp: demo_list_def)
qed



text \<open>
  \<^verbatim>\<open>list_destroy\<close> ends after at most one round more than there are elements and frees every node.
\<close>

theorem list_destroy_frees_all:
  assumes "list_inv st" "length (list_contents st) < fuel"
  shows "list_destroy fuel st = Some (Done Map.empty)"
proof -
  obtain as where as: "shape st as" using assms(1) by (auto simp: list_inv_def)
  show ?thesis using assms(2) shape_contents [OF as] by (intro destroy_ok [OF as]) simp
qed

theorem list_destroy_frees_all_witness: "list_destroy 3 demo_list = Some (Done Map.empty)"
  by (rule list_destroy_frees_all) (auto simp: list_inv_def demo_list_ok(2) intro: demo_list_ok(1))

end
