(* ===== verification/Primes.thy ===== *)
theory Primes
  imports Linked_List
begin

text \<open>
  \<^verbatim>\<open>ex09/primes/primes.c\<close>: five producers put primes into the shared list, two consumers take them
  out, under one mutex and one condition variable; the main thread starts them, joins the
  producers, sets \<^verbatim>\<open>finished\<close> and broadcasts \<^emph>\<open>without\<close> the mutex, and joins the consumers.  The system is
  a step relation over the program counters of all threads; a step is one access to shared
  data or one call of the thread library.  The shared list is represented by its contents,
  which \<open>Linked_List\<close> shows to be what \<^verbatim>\<open>list_push\<close> and \<^verbatim>\<open>list_pop\<close> operate on.
\<close>

section \<open>The primality test\<close>

function prime_loop :: "int \<Rightarrow> int \<Rightarrow> bool" where
  "prime_loop n k = (if k < n then if c_mod n k = 0 then False else prime_loop n (k + 1) else True)"
  by pat_completeness auto
termination by (relation "measure (\<lambda>(n, k). nat (n - k))") auto

declare prime_loop.simps [simp del]

definition is_prime :: "int \<Rightarrow> bool outcome" where
  "is_prime n = (if n < 0 then Fault AssertFailed else if n = 0 \<or> n = 1 then Done False else Done (prime_loop n 2))"

lemma prime_loop_iff: "0 \<le> n \<Longrightarrow> 0 < k \<Longrightarrow> prime_loop n k \<longleftrightarrow> (\<forall>d. k \<le> d \<and> d < n \<longrightarrow> \<not> d dvd n)"
proof (induction n k rule: prime_loop.induct)
  case (1 n k)
  show ?case
  proof (cases "k < n")
    case False
    then show ?thesis by (subst prime_loop.simps) auto
  next
    case True
    have split: "(\<forall>d. k \<le> d \<and> d < n \<longrightarrow> \<not> d dvd n) \<longleftrightarrow> \<not> k dvd n \<and> (\<forall>d. k + 1 \<le> d \<and> d < n \<longrightarrow> \<not> d dvd n)"
      using True by (metis order.order_iff_strict zle_add1_eq_le add1_zle_eq)
    have "c_mod n k = 0 \<longleftrightarrow> k dvd n" using 1(2,3) by (simp add: c_mod_nonneg dvd_eq_mod_eq_0)
    with 1 True split show ?thesis by (subst prime_loop.simps) auto
  qed
qed

section \<open>Threads\<close>

datatype prod_pc = PScan int | PLock int | PPush int | PSignal int | PUnlock int | PDone

datatype cons_pc = CLock | CTest | CWait | CAsleep | CWoken | CCheck | CUnlockExit | CPop | CUnlockGot | CCount
  | CUnlockFail | CRetry | CDone

datatype main_pc = MCreateC | MCreateP | MJoinP nat | MFinish | MBroadcast | MJoinC nat | MReturn int

datatype holder = Prod nat | Cons nat

record primes_sys =
  shared_list :: "int list"
  finished :: bool
  mutex :: "holder option"
  prods :: "(prod_pc \<times> nat) list"
  conss :: "(cons_pc \<times> nat) list"
  main_at :: main_pc
  produced :: nat
  consumed :: nat

definition PRODUCERS :: nat where "PRODUCERS = 5"
definition CONSUMERS :: nat where "CONSUMERS = 2"

abbreviation at_prod :: "nat \<Rightarrow> prod_pc \<Rightarrow> primes_sys \<Rightarrow> bool" where
  "at_prod i pc s \<equiv> i < length (prods s) \<and> fst (prods s ! i) = pc"

abbreviation at_cons :: "nat \<Rightarrow> cons_pc \<Rightarrow> primes_sys \<Rightarrow> bool" where
  "at_cons i pc s \<equiv> i < length (conss s) \<and> fst (conss s ! i) = pc"

definition go_prod :: "nat \<Rightarrow> prod_pc \<Rightarrow> primes_sys \<Rightarrow> primes_sys" where
  "go_prod i pc s = s\<lparr>prods := (prods s)[i := (pc, snd (prods s ! i))]\<rparr>"

definition go_cons :: "nat \<Rightarrow> cons_pc \<Rightarrow> primes_sys \<Rightarrow> primes_sys" where
  "go_cons i pc s = s\<lparr>conss := (conss s)[i := (pc, snd (conss s ! i))]\<rparr>"

definition wake_all :: "primes_sys \<Rightarrow> primes_sys" where
  "wake_all s = s\<lparr>conss := map (\<lambda>(pc, n). (if pc = CAsleep then CWoken else pc, n)) (conss s)\<rparr>"

section \<open>The steps\<close>

text \<open>\<^verbatim>\<open>run_producer\<close>\<close>

inductive producer_step :: "primes_sys \<Rightarrow> primes_sys \<Rightarrow> bool" where
  scan_end: "at_prod i (PScan k) s \<Longrightarrow> \<not> k < 5000 \<Longrightarrow> producer_step s (go_prod i PDone s)"
| scan_skip: "at_prod i (PScan k) s \<Longrightarrow> k < 5000 \<Longrightarrow> is_prime k = Done False \<Longrightarrow> producer_step s (go_prod i (PScan (k + 1)) s)"
| scan_hit: "at_prod i (PScan k) s \<Longrightarrow> k < 5000 \<Longrightarrow> is_prime k = Done True \<Longrightarrow> producer_step s (go_prod i (PLock k) s)"
| p_lock: "at_prod i (PLock k) s \<Longrightarrow> mutex s = None \<Longrightarrow> producer_step s (go_prod i (PPush k) (s\<lparr>mutex := Some (Prod i)\<rparr>))"
| push: "at_prod i (PPush k) s \<Longrightarrow> producer_step s (go_prod i (PSignal k) (s\<lparr>shared_list := shared_list s @ [k]\<rparr>))"
| push_fails: "at_prod i (PPush k) s \<Longrightarrow> producer_step s (go_prod i (PUnlock k) s)"
| p_signal: "at_prod i (PSignal k) s \<Longrightarrow> at_cons j CAsleep s \<Longrightarrow>
    producer_step s (go_cons j CWoken (s\<lparr>prods := (prods s)[i := (PUnlock k, snd (prods s ! i) + 1)]\<rparr>))"
| p_signal_nobody: "at_prod i (PSignal k) s \<Longrightarrow> (\<forall>j. \<not> at_cons j CAsleep s) \<Longrightarrow>
    producer_step s (s\<lparr>prods := (prods s)[i := (PUnlock k, snd (prods s ! i) + 1)]\<rparr>)"
| p_unlock: "at_prod i (PUnlock k) s \<Longrightarrow> producer_step s (go_prod i (PScan (k + 1)) (s\<lparr>mutex := None\<rparr>))"

text \<open>\<^verbatim>\<open>run_consumer\<close>; a wait may also end without a signal.\<close>

inductive consumer_step :: "primes_sys \<Rightarrow> primes_sys \<Rightarrow> bool" where
  c_lock: "at_cons i CLock s \<Longrightarrow> mutex s = None \<Longrightarrow> consumer_step s (go_cons i CTest (s\<lparr>mutex := Some (Cons i)\<rparr>))"
| c_empty: "at_cons i CTest s \<Longrightarrow> shared_list s = [] \<Longrightarrow> consumer_step s (go_cons i CWait s)"
| c_some: "at_cons i CTest s \<Longrightarrow> shared_list s \<noteq> [] \<Longrightarrow> consumer_step s (go_cons i CPop s)"
| c_wait: "at_cons i CWait s \<Longrightarrow> consumer_step s (go_cons i CAsleep (s\<lparr>mutex := None\<rparr>))"
| c_spurious: "at_cons i CAsleep s \<Longrightarrow> consumer_step s (go_cons i CWoken s)"
| c_resume: "at_cons i CWoken s \<Longrightarrow> mutex s = None \<Longrightarrow> consumer_step s (go_cons i CCheck (s\<lparr>mutex := Some (Cons i)\<rparr>))"
| c_finished: "at_cons i CCheck s \<Longrightarrow> finished s \<Longrightarrow> consumer_step s (go_cons i CUnlockExit s)"
| c_again: "at_cons i CCheck s \<Longrightarrow> \<not> finished s \<Longrightarrow> consumer_step s (go_cons i CTest s)"
| c_exit: "at_cons i CUnlockExit s \<Longrightarrow> consumer_step s (go_cons i CDone (s\<lparr>mutex := None\<rparr>))"
| c_pop: "at_cons i CPop s \<Longrightarrow> shared_list s = x # xs \<Longrightarrow> consumer_step s (go_cons i CUnlockGot (s\<lparr>shared_list := xs\<rparr>))"
| c_pop_fails: "at_cons i CPop s \<Longrightarrow> shared_list s = [] \<Longrightarrow> consumer_step s (go_cons i CUnlockFail s)"
| c_unlock_got: "at_cons i CUnlockGot s \<Longrightarrow> consumer_step s (go_cons i CCount (s\<lparr>mutex := None\<rparr>))"
| c_count: "at_cons i CCount s \<Longrightarrow> consumer_step s (s\<lparr>conss := (conss s)[i := (CLock, snd (conss s ! i) + 1)]\<rparr>)"
| c_unlock_fail: "at_cons i CUnlockFail s \<Longrightarrow> consumer_step s (go_cons i CRetry (s\<lparr>mutex := None\<rparr>))"
| c_give_up: "at_cons i CRetry s \<Longrightarrow> finished s \<Longrightarrow> consumer_step s (go_cons i CDone s)"
| c_retry: "at_cons i CRetry s \<Longrightarrow> \<not> finished s \<Longrightarrow> consumer_step s (go_cons i CLock s)"

text \<open>
  \<^verbatim>\<open>main\<close> with \<^verbatim>\<open>_run_bulk\<close>: a failed \<^verbatim>\<open>pthread_create\<close> stops the creation; after the consumers it skips
  the producers altogether.  The return value is \<^verbatim>\<open>counter.produced == counter.consumed\<close>.
\<close>

inductive main_step :: "primes_sys \<Rightarrow> primes_sys \<Rightarrow> bool" where
  create_c: "main_at s = MCreateC \<Longrightarrow> length (conss s) < CONSUMERS \<Longrightarrow> main_step s (s\<lparr>conss := conss s @ [(CLock, 0)]\<rparr>)"
| create_c_fails: "main_at s = MCreateC \<Longrightarrow> length (conss s) < CONSUMERS \<Longrightarrow> main_step s (s\<lparr>main_at := MFinish\<rparr>)"
| create_c_end: "main_at s = MCreateC \<Longrightarrow> length (conss s) = CONSUMERS \<Longrightarrow> main_step s (s\<lparr>main_at := MCreateP\<rparr>)"
| create_p: "main_at s = MCreateP \<Longrightarrow> length (prods s) < PRODUCERS \<Longrightarrow> main_step s (s\<lparr>prods := prods s @ [(PScan 1000, 0)]\<rparr>)"
| create_p_fails: "main_at s = MCreateP \<Longrightarrow> length (prods s) < PRODUCERS \<Longrightarrow> main_step s (s\<lparr>main_at := MJoinP 0\<rparr>)"
| create_p_end: "main_at s = MCreateP \<Longrightarrow> length (prods s) = PRODUCERS \<Longrightarrow> main_step s (s\<lparr>main_at := MJoinP 0\<rparr>)"
| join_p: "main_at s = MJoinP i \<Longrightarrow> at_prod i PDone s \<Longrightarrow>
    main_step s (s\<lparr>main_at := MJoinP (Suc i), produced := produced s + snd (prods s ! i)\<rparr>)"
| join_p_end: "main_at s = MJoinP i \<Longrightarrow> i = length (prods s) \<Longrightarrow> main_step s (s\<lparr>main_at := MFinish\<rparr>)"
| finish: "main_at s = MFinish \<Longrightarrow> main_step s (s\<lparr>finished := True, main_at := MBroadcast\<rparr>)"
| bcast: "main_at s = MBroadcast \<Longrightarrow> main_step s ((wake_all s)\<lparr>main_at := MJoinC 0\<rparr>)"
| join_c: "main_at s = MJoinC i \<Longrightarrow> at_cons i CDone s \<Longrightarrow>
    main_step s (s\<lparr>main_at := MJoinC (Suc i), consumed := consumed s + snd (conss s ! i)\<rparr>)"
| join_c_end: "main_at s = MJoinC i \<Longrightarrow> i = length (conss s) \<Longrightarrow>
    main_step s (s\<lparr>main_at := MReturn (if produced s = consumed s then 1 else 0)\<rparr>)"

definition primes_step :: "primes_sys \<Rightarrow> primes_sys \<Rightarrow> bool" where
  "primes_step s t \<longleftrightarrow> producer_step s t \<or> consumer_step s t \<or> main_step s t"

definition primes_init :: primes_sys where
  "primes_init = \<lparr>shared_list = [], finished = False, mutex = None, prods = [], conss = [], main_at = MCreateC,
     produced = 0, consumed = 0\<rparr>"

text \<open>The beginning of \<^verbatim>\<open>main\<close>: the error numbers of the two \<^verbatim>\<open>malloc\<close>s and of \<^verbatim>\<open>list_init\<close>, 0 for success.\<close>

definition primes_start :: "int \<Rightarrow> int \<Rightarrow> int \<Rightarrow> event + primes_sys" where
  "primes_start producers_err consumers_err list_err =
     (if producers_err \<noteq> 0 then Inl (Error producers_err ''failed to allocate space for producers'')
      else if consumers_err \<noteq> 0 then Inl (Error consumers_err ''failed to allocate space for consumers'')
      else if list_err \<noteq> 0 then Inl (Error list_err ''failed to create list'')
      else Inr primes_init)"

section \<open>Conservation of elements\<close>

definition sum_counts :: "('pc \<times> nat) list \<Rightarrow> nat" where
  "sum_counts ts = sum_list (map snd ts)"

definition in_hand :: "('pc \<Rightarrow> bool) \<Rightarrow> ('pc \<times> nat) list \<Rightarrow> nat" where
  "in_hand P ts = length (filter (\<lambda>(pc, _). P pc) ts)"

lemma sum_counts_update: "i < length ts \<Longrightarrow> sum_counts (ts[i := (pc, n)]) + snd (ts ! i) = sum_counts ts + n"
  by (induction ts arbitrary: i) (auto simp: sum_counts_def split: nat.splits)

lemma in_hand_update:
  "i < length ts \<Longrightarrow> in_hand P (ts[i := (pc, n)]) + (if P (fst (ts ! i)) then 1 else 0) = in_hand P ts + (if P pc then 1 else 0)"
  using length_filter_update [of i ts "\<lambda>(pc, _). P pc" "(pc, n)"] by (simp add: in_hand_def split_beta)

abbreviation pushed_uncounted :: "prod_pc \<Rightarrow> bool" where "pushed_uncounted pc \<equiv> (\<exists>k. pc = PSignal k)"
abbreviation popped_uncounted :: "cons_pc \<Rightarrow> bool" where "popped_uncounted pc \<equiv> pc = CUnlockGot \<or> pc = CCount"

definition balance :: "primes_sys \<Rightarrow> bool" where
  "balance s \<longleftrightarrow> sum_counts (conss s) + in_hand popped_uncounted (conss s) + length (shared_list s) =
     sum_counts (prods s) + in_hand pushed_uncounted (prods s)"

lemma balance_prod:
  assumes "balance s" "i < length (prods s)" "prods t = (prods s)[i := (pc, n)]" "sum_counts (conss t) = sum_counts (conss s)"
    "in_hand popped_uncounted (conss t) = in_hand popped_uncounted (conss s)"
    "length (shared_list t) + snd (prods s ! i) + (if pushed_uncounted (fst (prods s ! i)) then 1 else 0) =
     length (shared_list s) + n + (if pushed_uncounted pc then 1 else 0)"
  shows "balance t"
  using assms sum_counts_update [OF assms(2), of pc n] in_hand_update [OF assms(2), of pushed_uncounted pc n]
  unfolding balance_def assms(3) by linarith

lemma balance_cons:
  assumes "balance s" "i < length (conss s)" "conss t = (conss s)[i := (pc, n)]" "prods t = prods s"
    "length (shared_list t) + n + (if popped_uncounted pc then 1 else 0) =
     length (shared_list s) + snd (conss s ! i) + (if popped_uncounted (fst (conss s ! i)) then 1 else 0)"
  shows "balance t"
  using assms sum_counts_update [OF assms(2), of pc n] in_hand_update [OF assms(2), of popped_uncounted pc n]
  unfolding balance_def assms(3,4) by linarith

lemma wake_one:
  assumes "at_cons j CAsleep s"
  shows "sum_counts (conss (go_cons j CWoken s)) = sum_counts (conss s)"
    "in_hand popped_uncounted (conss (go_cons j CWoken s)) = in_hand popped_uncounted (conss s)"
  using assms sum_counts_update [of j "conss s" CWoken "snd (conss s ! j)"]
    in_hand_update [of j "conss s" popped_uncounted CWoken "snd (conss s ! j)"] by (simp_all add: go_cons_def)

lemma wake_all_same:
  "sum_counts (conss (wake_all s)) = sum_counts (conss s)" "in_hand popped_uncounted (conss (wake_all s)) = in_hand popped_uncounted (conss s)"
proof -
  have "map snd (map (\<lambda>(pc, n). (if pc = CAsleep then CWoken else pc, n)) ts) = map snd ts" for ts :: "(cons_pc \<times> nat) list"
    by (induction ts) auto
  then show "sum_counts (conss (wake_all s)) = sum_counts (conss s)" by (simp add: wake_all_def sum_counts_def del: map_map)
  have "in_hand popped_uncounted (map (\<lambda>(pc, n). (if pc = CAsleep then CWoken else pc, n)) ts) = in_hand popped_uncounted ts"
    for ts by (induction ts) (auto simp: in_hand_def split: if_splits)
  then show "in_hand popped_uncounted (conss (wake_all s)) = in_hand popped_uncounted (conss s)" by (simp add: wake_all_def)
qed

lemma go_simps [simp]:
  "prods (go_cons j pc s) = prods s" "conss (go_prod i qc s) = conss s" "shared_list (go_cons j pc s) = shared_list s"
  "shared_list (go_prod i qc s) = shared_list s" "main_at (go_cons j pc s) = main_at s" "main_at (go_prod i qc s) = main_at s"
  "produced (go_cons j pc s) = produced s" "produced (go_prod i qc s) = produced s" "consumed (go_cons j pc s) = consumed s"
  "consumed (go_prod i qc s) = consumed s" "prods (go_prod i qc s) = (prods s)[i := (qc, snd (prods s ! i))]"
  "conss (go_cons j pc s) = (conss s)[j := (pc, snd (conss s ! j))]"
  "finished (go_cons j pc s) = finished s" "mutex (go_cons j pc s) = mutex s"
  by (simp_all add: go_cons_def go_prod_def)

lemma balance_producer: "producer_step s t \<Longrightarrow> balance s \<Longrightarrow> balance t"
proof (induction rule: producer_step.induct)
  case (scan_end i k s)
  then show ?case using balance_prod [of s i "go_prod i PDone s" PDone] by auto
next
  case (scan_skip i k s)
  then show ?case using balance_prod [of s i "go_prod i (PScan (k + 1)) s" "PScan (k + 1)"] by auto
next
  case (scan_hit i k s)
  then show ?case using balance_prod [of s i "go_prod i (PLock k) s" "PLock k"] by auto
next
  case (p_lock i k s)
  then show ?case using balance_prod [of s i "go_prod i (PPush k) (s\<lparr>mutex := Some (Prod i)\<rparr>)" "PPush k"] by auto
next
  case (push i k s)
  then show ?case
    using balance_prod [of s i "go_prod i (PSignal k) (s\<lparr>shared_list := shared_list s @ [k]\<rparr>)" "PSignal k"] by auto
next
  case (push_fails i k s)
  then show ?case using balance_prod [of s i "go_prod i (PUnlock k) s" "PUnlock k"] by auto
next
  case (p_signal i k s j)
  then show ?case
    using balance_prod [of s i "go_cons j CWoken (s\<lparr>prods := (prods s)[i := (PUnlock k, snd (prods s ! i) + 1)]\<rparr>)" "PUnlock k"]
      wake_one [of j s] by auto
next
  case (p_signal_nobody i k s)
  then show ?case
    using balance_prod [of s i "s\<lparr>prods := (prods s)[i := (PUnlock k, snd (prods s ! i) + 1)]\<rparr>" "PUnlock k"] by auto
next
  case (p_unlock i k s)
  then show ?case using balance_prod [of s i "go_prod i (PScan (k + 1)) (s\<lparr>mutex := None\<rparr>)" "PScan (k + 1)"] by auto
qed

lemma balance_consumer: "consumer_step s t \<Longrightarrow> balance s \<Longrightarrow> balance t"
proof (induction rule: consumer_step.induct)
  case (c_pop i s x xs)
  then show ?case using balance_cons [of s i "go_cons i CUnlockGot (s\<lparr>shared_list := xs\<rparr>)" CUnlockGot] by auto
next
  case (c_count i s)
  then show ?case using balance_cons [of s i "s\<lparr>conss := (conss s)[i := (CLock, snd (conss s ! i) + 1)]\<rparr>" CLock] by auto
next
  case (c_unlock_got i s)
  then show ?case using balance_cons [of s i "go_cons i CCount (s\<lparr>mutex := None\<rparr>)" CCount] by auto
qed (auto elim!: balance_cons)

section \<open>What the main thread has joined\<close>

definition done_upto :: "'pc \<Rightarrow> nat \<Rightarrow> ('pc \<times> nat) list \<Rightarrow> bool" where
  "done_upto d k ts \<longleftrightarrow> k \<le> length ts \<and> (\<forall>j < k. fst (ts ! j) = d)"

definition keeps_done :: "'pc \<Rightarrow> ('pc \<times> nat) list \<Rightarrow> ('pc \<times> nat) list \<Rightarrow> bool" where
  "keeps_done d ts ts' \<longleftrightarrow> length ts' = length ts \<and> (\<forall>i < length ts. fst (ts ! i) = d \<longrightarrow> ts' ! i = ts ! i)"

lemma done_upto_frame: "done_upto d k ts \<Longrightarrow> keeps_done d ts ts' \<Longrightarrow> done_upto d k ts' \<and> take k ts' = take k ts"
  unfolding done_upto_def keeps_done_def by (auto intro!: nth_equalityI)

definition join_inv :: "primes_sys \<Rightarrow> bool" where
  "join_inv s \<longleftrightarrow>
     (case main_at s of
        MCreateC \<Rightarrow> prods s = [] \<and> produced s = 0 \<and> consumed s = 0
      | MCreateP \<Rightarrow> produced s = 0 \<and> consumed s = 0
      | MJoinP i \<Rightarrow> done_upto PDone i (prods s) \<and> produced s = sum_counts (take i (prods s)) \<and> consumed s = 0
      | MJoinC i \<Rightarrow> done_upto PDone (length (prods s)) (prods s) \<and> produced s = sum_counts (prods s) \<and>
          done_upto CDone i (conss s) \<and> consumed s = sum_counts (take i (conss s))
      | MReturn r \<Rightarrow> done_upto PDone (length (prods s)) (prods s) \<and> produced s = sum_counts (prods s) \<and>
          done_upto CDone (length (conss s)) (conss s) \<and> consumed s = sum_counts (conss s) \<and>
          r = (if produced s = consumed s then 1 else 0)
      | _ \<Rightarrow> done_upto PDone (length (prods s)) (prods s) \<and> produced s = sum_counts (prods s) \<and> consumed s = 0)"

lemma worker_frame:
  assumes "producer_step s t \<or> consumer_step s t"
  shows "main_at t = main_at s \<and> produced t = produced s \<and> consumed t = consumed s \<and>
    keeps_done PDone (prods s) (prods t) \<and> keeps_done CDone (conss s) (conss t)"
  using assms
proof
  assume "producer_step s t"
  then show ?thesis by (induction rule: producer_step.induct) (auto simp: keeps_done_def nth_list_update)
next
  assume "consumer_step s t"
  then show ?thesis by (induction rule: consumer_step.induct) (auto simp: keeps_done_def nth_list_update)
qed

lemma join_worker:
  assumes "producer_step s t \<or> consumer_step s t" "join_inv s"
  shows "join_inv t"
proof -
  note f = worker_frame [OF assms(1)]
  have len: "length (prods t) = length (prods s)" "length (conss t) = length (conss s)" using f by (auto simp: keeps_done_def)
  have p: "done_upto PDone k (prods s) \<Longrightarrow> done_upto PDone k (prods t) \<and> take k (prods t) = take k (prods s)" for k
    using f done_upto_frame [of PDone k "prods s" "prods t"] by simp
  have c: "done_upto CDone k (conss s) \<Longrightarrow> done_upto CDone k (conss t) \<and> take k (conss t) = take k (conss s)" for k
    using f done_upto_frame [of CDone k "conss s" "conss t"] by simp
  have nil: "prods s = [] \<Longrightarrow> prods t = []" using len by auto
  have pa: "done_upto PDone (length (prods s)) (prods s) \<Longrightarrow> prods t = prods s" using p [of "length (prods s)"] len by simp
  have ca: "done_upto CDone (length (conss s)) (conss s) \<Longrightarrow> conss t = conss s" using c [of "length (conss s)"] len by simp
  show ?thesis
  proof (cases "main_at s")
    case (MJoinP i)
    with assms(2) f p [of i] show ?thesis by (simp add: join_inv_def)
  next
    case (MJoinC i)
    with assms(2) f pa c [of i] show ?thesis by (simp add: join_inv_def)
  next
    case (MReturn r)
    with assms(2) f pa ca show ?thesis by (simp add: join_inv_def)
  qed (use assms(2) f pa nil in \<open>simp_all add: join_inv_def\<close>)
qed

lemma sum_counts_snoc: "i < length ts \<Longrightarrow> sum_counts (take (Suc i) ts) = sum_counts (take i ts) + snd (ts ! i)"
  by (simp add: sum_counts_def take_Suc_conv_app_nth)

lemma done_upto_Suc: "done_upto d i ts \<Longrightarrow> i < length ts \<Longrightarrow> fst (ts ! i) = d \<Longrightarrow> done_upto d (Suc i) ts"
  by (auto simp: done_upto_def less_Suc_eq)

lemma join_main: "main_step s t \<Longrightarrow> join_inv s \<Longrightarrow> join_inv t"
proof (induction rule: main_step.induct)
  case (create_c_fails s)
  then show ?case by (simp add: join_inv_def done_upto_def sum_counts_def)
next
  case (create_p_fails s)
  then show ?case by (simp add: join_inv_def done_upto_def sum_counts_def)
next
  case (create_p_end s)
  then show ?case by (simp add: join_inv_def done_upto_def sum_counts_def)
next
  case (bcast s)
  then show ?case by (simp add: join_inv_def done_upto_def sum_counts_def wake_all_def)
qed (auto simp: join_inv_def sum_counts_snoc done_upto_Suc)

lemma balance_main: "main_step s t \<Longrightarrow> balance s \<Longrightarrow> balance t"
proof (induction rule: main_step.induct)
  case (bcast s)
  then show ?case using wake_all_same [of s] by (simp add: balance_def wake_all_def)
qed (auto simp: balance_def sum_counts_def in_hand_def)

interpretation ps: invariant_system "\<lambda>s. s = primes_init" primes_step "\<lambda>s. balance s \<and> join_inv s"
proof unfold_locales
  fix s assume "s = primes_init"
  then show "balance s \<and> join_inv s" by (simp add: primes_init_def balance_def join_inv_def sum_counts_def in_hand_def)
next
  fix s t assume "balance s \<and> join_inv s" "primes_step s t"
  then show "balance t \<and> join_inv t"
    unfolding primes_step_def using balance_producer balance_consumer balance_main join_worker join_main by blast
qed

section \<open>The properties\<close>

text \<open>
  The primality test is right for every number that does not fail its assertion.
\<close>

theorem is_prime_correct:
  "is_prime n = (if n < 0 then Fault AssertFailed else Done (2 \<le> n \<and> (\<forall>d. 1 < d \<and> d < n \<longrightarrow> \<not> d dvd n)))"
proof -
  have "(\<forall>d. 2 \<le> d \<and> d < n \<longrightarrow> \<not> d dvd n) \<longleftrightarrow> (\<forall>d. 1 < d \<and> d < n \<longrightarrow> \<not> d dvd n)" by auto
  then show ?thesis using prime_loop_iff [of n 2] by (auto simp: is_prime_def)
qed

theorem is_prime_correct_witness: "is_prime 7 = Done True"
proof -
  have "\<not> d dvd 7" if "1 < d" "d < 7" for d :: int
  proof -
    have "d = 2 \<or> d = 3 \<or> d = 4 \<or> d = 5 \<or> d = 6" using that by arith
    then show ?thesis by auto
  qed
  then show ?thesis using is_prime_correct [of 7] by auto
qed


text \<open>
  A run in which the second consumer cannot be created, up to the point where the first one has
  found the list empty: \<open>demo\<close> gives its states.
\<close>

definition demo :: "bool \<Rightarrow> holder option \<Rightarrow> cons_pc \<Rightarrow> main_pc \<Rightarrow> primes_sys" where
  "demo fin mtx pc m = \<lparr>shared_list = [], finished = fin, mutex = mtx, prods = [], conss = [(pc, 0)], main_at = m, produced = 0, consumed = 0\<rparr>"

lemma reaches_main: "reaches primes_step a b \<Longrightarrow> main_step b d \<Longrightarrow> reaches primes_step a d"
  and reaches_cons: "reaches primes_step a b \<Longrightarrow> consumer_step b d \<Longrightarrow> reaches primes_step a d"
  by (auto simp: primes_step_def intro: reaches_step)

lemma main_moves:
  "main_step primes_init (demo False None CLock MCreateC)" "main_step (demo fin mtx pc MCreateC) (demo fin mtx pc MFinish)"
  "main_step (demo fin mtx pc MFinish) (demo True mtx pc MBroadcast)"
  "pc \<noteq> CAsleep \<Longrightarrow> main_step (demo fin mtx pc MBroadcast) (demo fin mtx pc (MJoinC 0))"
  "main_step (demo fin mtx CAsleep MBroadcast) (demo fin mtx CWoken (MJoinC 0))"
  "main_step (demo fin mtx CDone (MJoinC 0)) (demo fin mtx CDone (MJoinC 1))"
  "main_step (demo fin mtx CDone (MJoinC 1)) (demo fin mtx CDone (MReturn 1))"
  using main_step.create_c [of primes_init] main_step.create_c_fails [of "demo fin mtx pc MCreateC"]
    main_step.finish [of "demo fin mtx pc MFinish"] main_step.bcast [of "demo fin mtx pc MBroadcast"]
    main_step.bcast [of "demo fin mtx CAsleep MBroadcast"] main_step.join_c [of "demo fin mtx CDone (MJoinC 0)" 0]
    main_step.join_c_end [of "demo fin mtx CDone (MJoinC 1)" 1]
  by (simp_all add: demo_def primes_init_def CONSUMERS_def wake_all_def)

lemma cons_moves:
  "consumer_step (demo fin None CLock m) (demo fin (Some (Cons 0)) CTest m)"
  "consumer_step (demo fin mtx CTest m) (demo fin mtx CWait m)" "consumer_step (demo fin mtx CWait m) (demo fin None CAsleep m)"
  "consumer_step (demo fin None CWoken m) (demo fin (Some (Cons 0)) CCheck m)"
  "consumer_step (demo True mtx CCheck m) (demo True mtx CUnlockExit m)"
  "consumer_step (demo fin mtx CUnlockExit m) (demo fin None CDone m)"
  using consumer_step.c_lock [of 0 "demo fin None CLock m"] consumer_step.c_empty [of 0 "demo fin mtx CTest m"]
    consumer_step.c_wait [of 0 "demo fin mtx CWait m"] consumer_step.c_resume [of 0 "demo fin None CWoken m"]
    consumer_step.c_finished [of 0 "demo True mtx CCheck m"] consumer_step.c_exit [of 0 "demo fin mtx CUnlockExit m"]
  by (simp_all add: demo_def go_cons_def)

lemma demo_waiting: "reaches primes_step primes_init (demo False (Some (Cons 0)) CWait MFinish)"
proof -
  note 1 = reaches_main [OF reaches_refl main_moves(1)]
  note 2 = reaches_cons [OF reaches_main [OF 1 main_moves(2)] cons_moves(1)]
  show ?thesis by (rule reaches_cons [OF 2 cons_moves(2)])
qed

lemma demo_returned: "reaches primes_step primes_init (demo True None CDone (MReturn 1))"
proof -
  note 1 = reaches_main [OF reaches_main [OF reaches_cons [OF demo_waiting cons_moves(3)] main_moves(3)] main_moves(5)]
  note 2 = reaches_cons [OF reaches_cons [OF reaches_cons [OF 1 cons_moves(4)] cons_moves(5)] cons_moves(6)]
  show ?thesis by (rule reaches_main [OF reaches_main [OF 2 main_moves(6)] main_moves(7)])
qed


text \<open>
  The program can hang.  There is a reachable state in which the last consumer is asleep, the
  broadcast has already happened, and no thread can take a step any more unless the wait ends
  spuriously: the main thread sets \<^verbatim>\<open>finished\<close> and broadcasts without the mutex, so both can fall
  between the consumer's test of the list and its wait.
\<close>

theorem primes_lost_wakeup:
  "\<exists>s. reaches primes_step primes_init s \<and> finished s \<and> main_at s = MJoinC 0 \<and> conss s = [(CAsleep, 0)] \<and>
     (\<forall>t. primes_step s t \<longrightarrow> t = go_cons 0 CWoken s)"
proof -
  let ?s = "demo True None CAsleep (MJoinC 0)"
  have r: "reaches primes_step primes_init ?s"
    by (rule reaches_cons [OF reaches_main [OF reaches_main [OF demo_waiting main_moves(3)] main_moves(4)] cons_moves(3)]) simp
  have "t = go_cons 0 CWoken ?s" if "primes_step ?s t" for t
    using that unfolding primes_step_def
  proof (elim disjE)
    assume "producer_step ?s t"
    then show ?thesis by cases (simp_all add: demo_def)
  next
    assume "consumer_step ?s t"
    then show ?thesis by cases (simp_all add: demo_def)
  next
    assume "main_step ?s t"
    then show ?thesis by cases (simp_all add: demo_def)
  qed
  then have "\<forall>t. primes_step ?s t \<longrightarrow> t = go_cons 0 CWoken ?s" by blast
  with r show ?thesis by (intro exI [of _ ?s]) (simp add: demo_def)
qed

theorem primes_lost_wakeup_witness:
  "\<exists>s. reaches primes_step primes_init s \<and> main_at s = MJoinC 0 \<and> conss s = [(CAsleep, 0)]"
  using primes_lost_wakeup by blast

end
