(* ===== verification/Sqrt.thy ===== *)
theory Sqrt
  imports C_Prelude
begin

text \<open>
  \<^verbatim>\<open>ex09/sqrt/sqrt.c\<close>: a producer computes integral square roots and publishes each pair \<^verbatim>\<open>n\<close>, \<^verbatim>\<open>s\<close>
  under a read-write lock; consumers read the pair under the same lock and look for a
  mismatch, until the producer sets \<^verbatim>\<open>finished\<close> under a second lock.  The threads are a step
  relation whose steps are the single accesses to shared memory and the lock operations, which
  do not fail (their failures are only reported by the source).
\<close>

section \<open>The square root\<close>

text \<open>
  The loop \<^verbatim>\<open>for (; temp_s * temp_s > temp_n; --temp_s);\<close>.  The program runs it on a positive \<^verbatim>\<open>temp_n\<close> and
  from \<^verbatim>\<open>temp_s = temp_n\<close>, where it stops before \<^verbatim>\<open>temp_s\<close> becomes negative; the two other conjuncts say so.
\<close>

function sqrt_loop :: "int \<Rightarrow> int \<Rightarrow> int" where
  "sqrt_loop n s = (if s * s > n \<and> 0 \<le> n \<and> 0 \<le> s then sqrt_loop n (s - 1) else s)"
  by pat_completeness auto
termination by (relation "measure (\<lambda>(n, s). nat s)") (auto simp: zero_less_mult_iff, smt (verit) mult_nonneg_nonneg mult_eq_0_iff)

declare sqrt_loop.simps [simp del]

text \<open>The pair for a result \<open>r\<close> of \<^verbatim>\<open>rand\<close>.\<close>

definition producer_pair :: "int \<Rightarrow> int \<times> int" where
  "producer_pair r = (let n = 128 + c_mod r 4096 in (n, sqrt_loop n n))"

text \<open>What a consumer checks.\<close>

definition good_pair :: "int \<Rightarrow> int \<Rightarrow> bool" where
  "good_pair s n \<longleftrightarrow> \<not> (s * s > n \<or> n \<ge> (s + 1) * (s + 1))"

section \<open>Threads\<close>

datatype consumer_pc = CLockF | CReadF | CUnlockF bool | CLock | CReadS | CReadN int | CUnlock int int | CCheck int int | CExit

datatype producer_pc = PNone | PLoop nat | PLock nat int int | PWriteN nat int int | PWriteS nat int int | PUnlock nat
  | PPrint nat | PLockF | PWriteF | PUnlockF | PExit

record rwlock =
  readers :: nat
  writer :: bool

record sqrt_sys =
  shared_s :: int
  shared_n :: int
  is_finished :: bool
  lock :: rwlock
  finished_rwlock :: rwlock
  consumers :: "(consumer_pc \<times> nat) list"
  producer :: producer_pc

abbreviation no_lock :: rwlock where "no_lock \<equiv> \<lparr>readers = 0, writer = False\<rparr>"
abbreviation rd_in :: "rwlock \<Rightarrow> rwlock" where "rd_in l \<equiv> l\<lparr>readers := readers l + 1\<rparr>"
abbreviation rd_out :: "rwlock \<Rightarrow> rwlock" where "rd_out l \<equiv> l\<lparr>readers := readers l - 1\<rparr>"
abbreviation wr_in :: "rwlock \<Rightarrow> rwlock" where "wr_in l \<equiv> l\<lparr>writer := True\<rparr>"
abbreviation wr_out :: "rwlock \<Rightarrow> rwlock" where "wr_out l \<equiv> l\<lparr>writer := False\<rparr>"

abbreviation at_con :: "nat \<Rightarrow> consumer_pc \<Rightarrow> sqrt_sys \<Rightarrow> bool" where
  "at_con i pc s \<equiv> i < length (consumers s) \<and> fst (consumers s ! i) = pc"

definition go :: "nat \<Rightarrow> consumer_pc \<Rightarrow> sqrt_sys \<Rightarrow> sqrt_sys" where
  "go i pc s = s\<lparr>consumers := (consumers s)[i := (pc, snd (consumers s ! i))]\<rparr>"

text \<open>\<^verbatim>\<open>consumer_run\<close>\<close>

inductive con_step :: "sqrt_sys \<Rightarrow> sqrt_sys \<Rightarrow> bool" where
  lock_f: "at_con i CLockF s \<Longrightarrow> \<not> writer (finished_rwlock s) \<Longrightarrow>
    con_step s (go i CReadF (s\<lparr>finished_rwlock := rd_in (finished_rwlock s)\<rparr>))"
| read_f: "at_con i CReadF s \<Longrightarrow> con_step s (go i (CUnlockF (\<not> is_finished s)) s)"
| unlock_f: "at_con i (CUnlockF cond) s \<Longrightarrow>
    con_step s (go i (if cond then CLock else CExit) (s\<lparr>finished_rwlock := rd_out (finished_rwlock s)\<rparr>))"
| lock_r: "at_con i CLock s \<Longrightarrow> \<not> writer (lock s) \<Longrightarrow> con_step s (go i CReadS (s\<lparr>lock := rd_in (lock s)\<rparr>))"
| read_s: "at_con i CReadS s \<Longrightarrow> con_step s (go i (CReadN (shared_s s)) s)"
| read_n: "at_con i (CReadN v) s \<Longrightarrow> con_step s (go i (CUnlock v (shared_n s)) s)"
| unlock_r: "at_con i (CUnlock v n) s \<Longrightarrow> con_step s (go i (CCheck v n) (s\<lparr>lock := rd_out (lock s)\<rparr>))"
| check_ok: "at_con i (CCheck v n) s \<Longrightarrow> good_pair v n \<Longrightarrow> con_step s (go i CLockF s)"
| check_bad: "at_con i (CCheck v n) s \<Longrightarrow> \<not> good_pair v n \<Longrightarrow>
    con_step s (s\<lparr>consumers := (consumers s)[i := (CLockF, snd (consumers s ! i) + 1)]\<rparr>)"

text \<open>\<^verbatim>\<open>producer_run\<close> with \<open>iters\<close> iterations; \<^verbatim>\<open>rand\<close> gives any non-negative number.\<close>

inductive prod_step :: "nat \<Rightarrow> sqrt_sys \<Rightarrow> sqrt_sys \<Rightarrow> bool" for iters where
  compute: "producer s = PLoop i \<Longrightarrow> i < iters \<Longrightarrow> 0 \<le> r \<Longrightarrow> producer_pair r = (n, v) \<Longrightarrow>
    prod_step iters s (s\<lparr>producer := PLock i n v\<rparr>)"
| loop_end: "producer s = PLoop i \<Longrightarrow> \<not> i < iters \<Longrightarrow> prod_step iters s (s\<lparr>producer := PLockF\<rparr>)"
| lock_w: "producer s = PLock i n v \<Longrightarrow> \<not> writer (lock s) \<Longrightarrow> readers (lock s) = 0 \<Longrightarrow>
    prod_step iters s (s\<lparr>producer := PWriteN i n v, lock := wr_in (lock s)\<rparr>)"
| write_n: "producer s = PWriteN i n v \<Longrightarrow> prod_step iters s (s\<lparr>producer := PWriteS i n v, shared_n := n\<rparr>)"
| write_s: "producer s = PWriteS i n v \<Longrightarrow> prod_step iters s (s\<lparr>producer := PUnlock i, shared_s := v\<rparr>)"
| unlock_w: "producer s = PUnlock i \<Longrightarrow> prod_step iters s (s\<lparr>producer := PPrint i, lock := wr_out (lock s)\<rparr>)"
| prints: "producer s = PPrint i \<Longrightarrow> prod_step iters s (s\<lparr>producer := PLoop (Suc i)\<rparr>)"
| lock_wf: "producer s = PLockF \<Longrightarrow> \<not> writer (finished_rwlock s) \<Longrightarrow> readers (finished_rwlock s) = 0 \<Longrightarrow>
    prod_step iters s (s\<lparr>producer := PWriteF, finished_rwlock := wr_in (finished_rwlock s)\<rparr>)"
| write_f: "producer s = PWriteF \<Longrightarrow> prod_step iters s (s\<lparr>producer := PUnlockF, is_finished := True\<rparr>)"
| unlock_wf: "producer s = PUnlockF \<Longrightarrow> prod_step iters s (s\<lparr>producer := PExit, finished_rwlock := wr_out (finished_rwlock s)\<rparr>)"

definition sqrt_step :: "nat \<Rightarrow> sqrt_sys \<Rightarrow> sqrt_sys \<Rightarrow> bool" where
  "sqrt_step iters s t \<longleftrightarrow> con_step s t \<or> prod_step iters s t"

text \<open>
  All consumers have been started; \<open>started\<close> is the success of the producer's \<^verbatim>\<open>pthread_create\<close>, whose
  failure makes \<^verbatim>\<open>main\<close> go straight to joining the consumers.
\<close>

definition sqrt_init :: "nat \<Rightarrow> bool \<Rightarrow> sqrt_sys" where
  "sqrt_init threads started =
     \<lparr>shared_s = 0, shared_n = 0, is_finished = False, lock = no_lock, finished_rwlock = no_lock,
      consumers = replicate threads (CLockF, 0), producer = (if started then PLoop 0 else PNone)\<rparr>"

section \<open>The program\<close>

text \<open>The argument of \<^verbatim>\<open>main\<close>: a message and the exit status, or the number of threads.\<close>

definition sqrt_args :: "string list \<Rightarrow> (event list \<times> int) + int" where
  "sqrt_args argv =
     (case argv of
        [prog, a] \<Rightarrow>
          (let (v, endp, erange) = strtol 10 a
           in if endp = a \<or> endp \<noteq> [] \<or> erange \<or> v \<le> 0
              then Inl ([Error (if erange then 34 else 0) (a @ '': not a positive integer'')], EXIT_FAILURE) else Inr v)
      | prog # _ \<Rightarrow> Inl ([Error 0 (''usage: '' @ basename prog @ '' THREADS'')], EXIT_FAILURE)
      | [] \<Rightarrow> Inl ([], EXIT_FAILURE))"

text \<open>The end of \<^verbatim>\<open>main\<close>, after the join: \<^verbatim>\<open>status\<close> is never set to anything but \<^verbatim>\<open>EXIT_FAILURE\<close>.\<close>

definition sqrt_report :: "nat list \<Rightarrow> event list \<times> int" where
  "sqrt_report errs =
     (let errors = sum_list errs
      in ([Stdout (if errors = 0 then ''no errors detected'' @ [nl] else show_nat errors @ '' errors detected'' @ [nl])],
          EXIT_FAILURE))"

text \<open>Error numbers of the calls of \<^verbatim>\<open>main\<close>, 0 for success.\<close>

record sqrt_env =
  qe_malloc :: int
  qe_consumer :: "nat \<Rightarrow> int"
  qe_producer :: int
  qe_detach :: int

text \<open>The loop that starts \<open>k\<close> consumers from number \<open>tx\<close> on; the result is how many run and whether all do.\<close>

fun start_consumers :: "(nat \<Rightarrow> int) \<Rightarrow> nat \<Rightarrow> nat \<Rightarrow> event list \<times> nat \<times> bool" where
  "start_consumers create tx 0 = ([], tx, True)"
| "start_consumers create tx (Suc k) =
     (if create tx \<noteq> 0 then ([Error (create tx) (''cannot start consumer '' @ show_nat tx)], tx, False)
      else start_consumers create (Suc tx) k)"

text \<open>
  \<^verbatim>\<open>main\<close>: \<open>final n p\<close> are the error counts of the \<open>n\<close> consumers after the joins, with or without a producer; \<open>None\<close> if a
  join never returns.  A failed \<^verbatim>\<open>pthread_detach\<close> is an assertion.
\<close>

definition sqrt_main :: "sqrt_env \<Rightarrow> (nat \<Rightarrow> bool \<Rightarrow> nat list option) \<Rightarrow> string list \<Rightarrow> event list \<times> int option outcome" where
  "sqrt_main env final argv =
     (case sqrt_args argv of
        Inl (evs, code) \<Rightarrow> (evs, Done (Some code))
      | Inr threads \<Rightarrow>
          if qe_malloc env \<noteq> 0 then ([Error (qe_malloc env) ''cannot allocate memory for worker threads''], Done (Some EXIT_FAILURE))
          else let (evs, n, ok) = start_consumers (qe_consumer env) 0 (nat threads);
                   started = (ok \<and> qe_producer env = 0);
                   evs' = evs @ (if ok \<and> qe_producer env \<noteq> 0 then [Error (qe_producer env) ''cannot start producer thread''] else [])
            in if started \<and> qe_detach env \<noteq> 0 then (evs', Fault AssertFailed)
               else case final n started of
                 None \<Rightarrow> (evs', Done None)
               | Some errs \<Rightarrow> (let (out, status) = sqrt_report errs in (evs' @ out, Done (Some status))))"

section \<open>The square root is right\<close>

lemma sqrt_loop_correct:
  "0 \<le> n \<Longrightarrow> 0 \<le> s \<Longrightarrow> n < (s + 1) * (s + 1) \<Longrightarrow> good_pair (sqrt_loop n s) n"
proof (induction n s rule: sqrt_loop.induct)
  case (1 n s)
  show ?case
  proof (cases "s * s > n")
    case True
    with 1 have "s \<noteq> 0" by auto
    with 1 True have "good_pair (sqrt_loop n (s - 1)) n" by simp
    with True 1 show ?thesis by (subst sqrt_loop.simps) simp
  next
    case False
    with 1(4) show ?thesis by (subst sqrt_loop.simps) (simp add: good_pair_def)
  qed
qed

lemma producer_pair_good: "0 \<le> r \<Longrightarrow> producer_pair r = (n, v) \<Longrightarrow> good_pair v n"
proof -
  assume r: "0 \<le> r" and p: "producer_pair r = (n, v)"
  then have n: "n = 128 + r mod 4096" "v = sqrt_loop n n" by (auto simp: producer_pair_def Let_def c_mod_nonneg)
  then have "0 \<le> n" by simp
  moreover have "0 \<le> n * n" by simp
  then have "n < (n + 1) * (n + 1)" using \<open>0 \<le> n\<close> unfolding distrib_left distrib_right by linarith
  ultimately show ?thesis using sqrt_loop_correct [of n n] n(2) by simp
qed

section \<open>No reader sees half a write\<close>

definition reading :: "consumer_pc \<Rightarrow> bool" where
  "reading pc \<longleftrightarrow> (case pc of CReadS \<Rightarrow> True | CReadN _ \<Rightarrow> True | CUnlock _ _ \<Rightarrow> True | _ \<Rightarrow> False)"

definition writing :: "producer_pc \<Rightarrow> bool" where
  "writing pc \<longleftrightarrow> (case pc of PWriteN _ _ _ \<Rightarrow> True | PWriteS _ _ _ \<Rightarrow> True | PUnlock _ \<Rightarrow> True | _ \<Rightarrow> False)"

definition con_ok :: "sqrt_sys \<Rightarrow> consumer_pc \<times> nat \<Rightarrow> bool" where
  "con_ok s c \<longleftrightarrow> snd c = 0 \<and> (case fst c of CReadN v \<Rightarrow> v = shared_s s | CUnlock v n \<Rightarrow> good_pair v n | CCheck v n \<Rightarrow> good_pair v n | _ \<Rightarrow> True)"

definition prod_ok :: "sqrt_sys \<Rightarrow> bool" where
  "prod_ok s \<longleftrightarrow> (case producer s of PLock _ n v \<Rightarrow> good_pair v n | PWriteN _ n v \<Rightarrow> good_pair v n
     | PWriteS _ n v \<Rightarrow> good_pair v n \<and> shared_n s = n | _ \<Rightarrow> True) \<and>
     (good_pair (shared_s s) (shared_n s) \<or> (\<exists>i n v. producer s = PWriteS i n v))"

definition sqrt_inv :: "sqrt_sys \<Rightarrow> bool" where
  "sqrt_inv s \<longleftrightarrow> (writer (lock s) \<longleftrightarrow> writing (producer s)) \<and>
     readers (lock s) = length (filter (\<lambda>c. reading (fst c)) (consumers s)) \<and>
     (writer (lock s) \<longrightarrow> readers (lock s) = 0) \<and>
     (\<forall>c \<in> set (consumers s). con_ok s c) \<and> prod_ok s"

lemma sqrt_go_simps [simp]:
  "shared_s (go i pc s) = shared_s s" "shared_n (go i pc s) = shared_n s" "lock (go i pc s) = lock s"
  "producer (go i pc s) = producer s" "consumers (go i pc s) = (consumers s)[i := (pc, snd (consumers s ! i))]"
  "is_finished (go i pc s) = is_finished s"
  by (simp_all add: go_def)

lemma con_ok_frame [simp]:
  "con_ok (s\<lparr>producer := p\<rparr>) = con_ok s" "con_ok (s\<lparr>lock := l\<rparr>) = con_ok s" "con_ok (s\<lparr>shared_n := n\<rparr>) = con_ok s"
  "con_ok (s\<lparr>finished_rwlock := l\<rparr>) = con_ok s" "con_ok (s\<lparr>is_finished := b\<rparr>) = con_ok s"
  by (simp_all add: fun_eq_iff con_ok_def cong: consumer_pc.case_cong)

lemma con_frame:
  assumes inv: "sqrt_inv s" and i: "i < length (consumers s)" and c: "consumers t = (consumers s)[i := (pc, e)]"
    and same: "shared_s t = shared_s s" "shared_n t = shared_n s" "producer t = producer s" "writer (lock t) = writer (lock s)"
    and ok: "con_ok s (pc, e)" and cnt: "readers (lock t) + (if reading (fst (consumers s ! i)) then 1 else 0) =
      readers (lock s) + (if reading pc then 1 else 0)"
    and excl: "reading pc \<Longrightarrow> \<not> writer (lock s)"
  shows "sqrt_inv t"
proof -
  have con: "con_ok t d \<longleftrightarrow> con_ok s d" for d using same by (simp add: con_ok_def split: consumer_pc.splits)
  have "\<forall>d \<in> set (consumers t). con_ok t d"
    using inv ok set_update_subset_insert [of "consumers s" i "(pc, e)"] unfolding c con sqrt_inv_def by blast
  moreover have "readers (lock t) = length (filter (\<lambda>c. reading (fst c)) (consumers t))"
    using length_filter_update [OF i, of "\<lambda>c. reading (fst c)" "(pc, e)"] cnt inv by (simp add: c sqrt_inv_def)
  moreover have "writer (lock t) \<longrightarrow> readers (lock t) = 0"
    using inv cnt excl same(4) by (auto simp: sqrt_inv_def split: if_splits)
  moreover have "prod_ok t" using inv same by (simp add: sqrt_inv_def prod_ok_def cong: producer_pc.case_cong)
  ultimately show ?thesis using inv same by (simp add: sqrt_inv_def)
qed

lemma readers_pos:
  assumes "sqrt_inv s" "i < length (consumers s)" "reading (fst (consumers s ! i))"
  shows "0 < readers (lock s)"
proof -
  have "consumers s ! i \<in> set (filter (\<lambda>c. reading (fst c)) (consumers s))" using assms(2,3) by simp
  then show ?thesis using assms(1) by (cases "filter (\<lambda>c. reading (fst c)) (consumers s)") (auto simp: sqrt_inv_def)
qed

lemma con_ok_nth: "sqrt_inv s \<Longrightarrow> i < length (consumers s) \<Longrightarrow> con_ok s (consumers s ! i)"
  by (simp add: sqrt_inv_def)

lemma inv_con: "con_step s t \<Longrightarrow> sqrt_inv s \<Longrightarrow> sqrt_inv t"
proof (induction rule: con_step.induct)
  case (read_s i s)
  show ?case
    by (rule con_frame [of s i]) (use read_s con_ok_nth [of s i] readers_pos [of s i] in \<open>auto simp: con_ok_def reading_def sqrt_inv_def\<close>)
next
  case (read_n i v s)
  then have v: "v = shared_s s" "snd (consumers s ! i) = 0" using con_ok_nth [of s i] by (auto simp: con_ok_def)
  have "0 < readers (lock s)" using readers_pos [of s i] read_n by (simp add: reading_def)
  then have "\<not> writing (producer s)" "prod_ok s" using read_n by (auto simp: sqrt_inv_def)
  then have "good_pair (shared_s s) (shared_n s)" by (auto simp: prod_ok_def writing_def split: producer_pc.splits)
  then show ?case
    by (intro con_frame [OF read_n(2), of i]) (use read_n v \<open>0 < readers (lock s)\<close> in \<open>auto simp: con_ok_def reading_def sqrt_inv_def\<close>)
next
  case (unlock_r i v n s)
  have "0 < readers (lock s)" using readers_pos [of s i] unlock_r by (simp add: reading_def)
  then show ?case
    by (intro con_frame [OF unlock_r(2), of i]) (use unlock_r con_ok_nth [of s i] in \<open>auto simp: con_ok_def reading_def\<close>)
next
  case (check_bad i v n s)
  then show ?case using con_ok_nth [of s i] by (auto simp: con_ok_def)
next
  case (lock_f i s)
  show ?case by (rule con_frame [of s i]) (use lock_f con_ok_nth [of s i] in \<open>auto simp: con_ok_def reading_def\<close>)
next
  case (read_f i s)
  show ?case by (rule con_frame [of s i]) (use read_f con_ok_nth [of s i] in \<open>auto simp: con_ok_def reading_def\<close>)
next
  case (unlock_f i cond s)
  show ?case by (rule con_frame [of s i]) (use unlock_f con_ok_nth [of s i] in \<open>auto simp: con_ok_def reading_def split: if_splits\<close>)
next
  case (lock_r i s)
  show ?case by (rule con_frame [of s i]) (use lock_r con_ok_nth [of s i] in \<open>auto simp: con_ok_def reading_def\<close>)
next
  case (check_ok i v n s)
  show ?case by (rule con_frame [of s i]) (use check_ok con_ok_nth [of s i] in \<open>auto simp: con_ok_def reading_def\<close>)
qed

text \<open>Nobody is between the two reads while the producer may write.\<close>

lemma no_readers:
  "sqrt_inv s \<Longrightarrow> writer (lock s) \<Longrightarrow> c \<in> set (consumers s) \<Longrightarrow> \<not> reading (fst c)"
  by (auto simp: sqrt_inv_def filter_empty_conv)

lemma inv_prod: "prod_step iters s t \<Longrightarrow> sqrt_inv s \<Longrightarrow> sqrt_inv t"
proof (induction rule: prod_step.induct)
  case (compute s i r n v)
  from producer_pair_good [OF compute(3,4)] compute show ?case
    by (auto simp: sqrt_inv_def writing_def prod_ok_def)
next
  case (write_s s i n v)
  then have w: "writer (lock s)" by (simp add: sqrt_inv_def writing_def)
  have "con_ok (s\<lparr>producer := PUnlock i, shared_s := v\<rparr>) c" if "c \<in> set (consumers s)" for c
    using no_readers [OF write_s(2) w that] write_s(2) that
    by (auto simp: con_ok_def reading_def sqrt_inv_def split: consumer_pc.splits)
  with write_s show ?case by (auto simp: sqrt_inv_def writing_def prod_ok_def)
qed (auto simp: sqrt_inv_def writing_def prod_ok_def)

interpretation sq: invariant_system "\<lambda>s. \<exists>n b. s = sqrt_init n b" "sqrt_step iters" sqrt_inv
proof unfold_locales
  fix s assume "\<exists>n b. s = sqrt_init n b"
  then show "sqrt_inv s"
    by (auto simp: sqrt_init_def sqrt_inv_def writing_def reading_def prod_ok_def con_ok_def good_pair_def split: if_splits)
next
  fix s t assume "sqrt_inv s" "sqrt_step iters s t"
  then show "sqrt_inv t" using inv_con inv_prod by (auto simp: sqrt_step_def)
qed

section \<open>Without a producer\<close>

definition unfinished :: "sqrt_sys \<Rightarrow> bool" where
  "unfinished s \<longleftrightarrow> producer s = PNone \<and> \<not> is_finished s \<and> (\<forall>c \<in> set (consumers s). fst c \<noteq> CExit \<and> fst c \<noteq> CUnlockF False)"

lemma unfinished_step: "sqrt_step iters s t \<Longrightarrow> unfinished s \<Longrightarrow> unfinished t"
  unfolding sqrt_step_def
proof (elim disjE)
  assume "con_step s t" "unfinished s"
  then show "unfinished t"
  proof (induction rule: con_step.induct)
    case (unlock_f i cond s)
    then have "cond" by (auto simp: unfinished_def) (metis (full_types) nth_mem)
    with unlock_f show ?case by (auto simp: unfinished_def dest!: set_update_subset_insert [THEN subsetD])
  qed (auto simp: unfinished_def dest!: set_update_subset_insert [THEN subsetD])
next
  assume "prod_step iters s t" "unfinished s"
  then show "unfinished t" by (induction rule: prod_step.induct) (auto simp: unfinished_def)
qed

interpretation un: invariant_system unfinished "sqrt_step iters" unfinished
  by unfold_locales (auto intro: unfinished_step)

section \<open>The properties\<close>

text \<open>
  C28: the read-write lock does its work: in no reachable state, whatever numbers are drawn and
  however the threads interleave, has a consumer detected a mismatch, so the program always
  reports that there were no errors; its exit status is a failure all the same.
\<close>

theorem sqrt_no_mismatch:
  assumes "reaches (sqrt_step iters) (sqrt_init threads started) s"
  shows "sqrt_report (map snd (consumers s)) = ([Stdout (''no errors detected'' @ [nl])], EXIT_FAILURE)"
proof -
  have "sqrt_inv s" by (rule sq.inv_reachable [OF _ assms]) blast
  then have "\<forall>e \<in> set (map snd (consumers s)). e = 0" by (auto simp: sqrt_inv_def con_ok_def)
  then have "sum_list (map snd (consumers s)) = 0" by (simp add: sum_list_eq_0_iff)
  then show ?thesis by (simp add: sqrt_report_def)
qed

theorem sqrt_no_mismatch_witness:
  "sqrt_report (map snd (consumers (sqrt_init 3 True))) = ([Stdout (''no errors detected'' @ [nl])], EXIT_FAILURE)"
  using sqrt_no_mismatch [where iters = 15 and threads = 3 and started = True, OF reaches_refl] by simp

text \<open>
  When the producer thread cannot be started the program hangs: \<^verbatim>\<open>main\<close> waits for consumers
  none of which ever ends, because nobody sets \<^verbatim>\<open>finished\<close>.
\<close>

theorem sqrt_no_producer_hangs:
  assumes "reaches (sqrt_step iters) (sqrt_init threads False) s" "c \<in> set (consumers s)"
  shows "fst c \<noteq> CExit"
proof -
  have "unfinished (sqrt_init threads False)" by (simp add: unfinished_def sqrt_init_def)
  from un.inv_reaches [OF assms(1) this] assms(2) show ?thesis by (auto simp: unfinished_def)
qed

theorem sqrt_no_producer_hangs_witness: "fst (CLockF, 0 :: nat) \<noteq> CExit \<and> (CLockF, 0) \<in> set (consumers (sqrt_init 2 False))"
  using sqrt_no_producer_hangs [where iters = 10 and threads = 2 and c = "(CLockF, 0)", OF reaches_refl] by (simp add: sqrt_init_def)

text \<open>The whole program never reports success, whatever happens.\<close>

lemma sqrt_main_fails: "snd (sqrt_main env final argv) = Done (Some code) \<Longrightarrow> code = EXIT_FAILURE"
  by (auto simp: sqrt_main_def sqrt_args_def sqrt_report_def Let_def split: list.splits prod.splits if_splits sum.splits option.splits)

end
