(* ===== verification/Power_Threads.thy ===== *)
theory Power_Threads
  imports C_Prelude
begin

text \<open>
  \<^verbatim>\<open>ex09/power/power.c\<close>: \<open>n\<close> threads wait for each other at a barrier and then each increments a shared
  counter \<open>n\<close> times under a mutex.  A step is one access to the counter or one call of the thread
  library; the increment is a read and a write.  The lock calls do not fail.
\<close>

section \<open>Threads\<close>

datatype worker_pc = WStart | WBarrier | WLoop nat | WRead nat | WWrite nat int | WUnlock nat | WExit

record power_sys =
  counter :: int
  holder :: "nat option"
  workers :: "worker_pc list"

definition arrived :: "worker_pc \<Rightarrow> bool" where "arrived pc \<longleftrightarrow> pc \<noteq> WStart"

text \<open>\<^verbatim>\<open>worker_run\<close>; \<open>n\<close> is both the number of the barrier and the number of increments.\<close>

inductive power_step :: "nat \<Rightarrow> power_sys \<Rightarrow> power_sys \<Rightarrow> bool" for n where
  arrive: "i < length (workers s) \<Longrightarrow> workers s ! i = WStart \<Longrightarrow> power_step n s (s\<lparr>workers := (workers s)[i := WBarrier]\<rparr>)"
| pass: "i < length (workers s) \<Longrightarrow> workers s ! i = WBarrier \<Longrightarrow> n \<le> length (filter arrived (workers s)) \<Longrightarrow>
    power_step n s (s\<lparr>workers := (workers s)[i := WLoop 0]\<rparr>)"
| exits: "i < length (workers s) \<Longrightarrow> workers s ! i = WLoop k \<Longrightarrow> \<not> k < n \<Longrightarrow> power_step n s (s\<lparr>workers := (workers s)[i := WExit]\<rparr>)"
| locks: "i < length (workers s) \<Longrightarrow> workers s ! i = WLoop k \<Longrightarrow> k < n \<Longrightarrow> holder s = None \<Longrightarrow>
    power_step n s (s\<lparr>holder := Some i, workers := (workers s)[i := WRead k]\<rparr>)"
| reads: "i < length (workers s) \<Longrightarrow> workers s ! i = WRead k \<Longrightarrow> power_step n s (s\<lparr>workers := (workers s)[i := WWrite k (counter s)]\<rparr>)"
| writes: "i < length (workers s) \<Longrightarrow> workers s ! i = WWrite k v \<Longrightarrow> v < INT_MAX \<Longrightarrow>
    power_step n s (s\<lparr>counter := v + 1, workers := (workers s)[i := WUnlock k]\<rparr>)"
| unlocks: "i < length (workers s) \<Longrightarrow> workers s ! i = WUnlock k \<Longrightarrow>
    power_step n s (s\<lparr>holder := None, workers := (workers s)[i := WLoop (Suc k)]\<rparr>)"

text \<open>\<open>created\<close> is how many of the \<open>n\<close> threads \<^verbatim>\<open>main\<close> was able to start before it goes to the joins.\<close>

definition power_init :: "nat \<Rightarrow> power_sys" where
  "power_init created = \<lparr>counter = 0, holder = None, workers = replicate created WStart\<rparr>"

section \<open>The program\<close>

definition power_args :: "string list \<Rightarrow> (event list \<times> int) + int" where
  "power_args argv =
     (case argv of
        [prog, a] \<Rightarrow>
          (let (v, endp, erange) = strtol 10 a
           in if endp = a \<or> endp \<noteq> [] \<or> erange \<or> v \<le> 0
              then Inl ([Error (if erange then 34 else 0) (a @ '': not a positive integer'')], EXIT_FAILURE) else Inr v)
      | prog # _ \<Rightarrow> Inl ([Error 0 (''usage: '' @ basename prog @ '' THREADS'')], EXIT_FAILURE)
      | [] \<Rightarrow> Inl ([], EXIT_FAILURE))"

text \<open>The superscript two of the messages, as UTF-8.\<close>

definition squared :: string where "squared = [CHR 0xC2, CHR 0xB2]"

text \<open>
  The end of \<^verbatim>\<open>main\<close>: the line labelled \<^verbatim>\<open>expected\<close> prints the counter and the line labelled \<^verbatim>\<open>got\<close> the
  expected value.
\<close>

definition power_report :: "int \<Rightarrow> int \<Rightarrow> int \<Rightarrow> event list \<times> int" where
  "power_report threads expect cnt =
     ([Stdout (''expected: '' @ show_int threads @ squared @ '' = '' @ show_int cnt @ [nl]),
       Stdout (''got:      '' @ show_int threads @ squared @ '' = '' @ show_int expect @ [nl]),
       Stdout (if cnt = expect then ''ok'' @ [nl] else ''value mismatch; possible synchronization failure'' @ [nl])],
      if cnt = expect then EXIT_SUCCESS else EXIT_FAILURE)"

text \<open>Error numbers of the calls of \<^verbatim>\<open>main\<close>, 0 for success; \<open>pv_create\<close> for the creation of each thread.\<close>

record power_env =
  pv_malloc :: int
  pv_mutex :: int
  pv_barrier :: int
  pv_create :: "nat \<Rightarrow> int"
  pv_destroy :: int

text \<open>The loop that starts the threads: \<open>k\<close> more from number \<open>tx\<close> on; the result is how many were started.\<close>

fun start_loop :: "(nat \<Rightarrow> int) \<Rightarrow> nat \<Rightarrow> nat \<Rightarrow> event list \<times> nat" where
  "start_loop create tx 0 = ([], tx)"
| "start_loop create tx (Suc k) =
     (if create tx \<noteq> 0 then ([Error (create tx) (''cannot start thread '' @ show_nat tx)], tx) else start_loop create (Suc tx) k)"

text \<open>
  \<^verbatim>\<open>main\<close>: \<open>final created\<close> is the counter after all of the \<open>created\<close> threads have been joined, \<open>None\<close> if a join never returns.
\<close>

definition power_main :: "power_env \<Rightarrow> (nat \<Rightarrow> int option) \<Rightarrow> string list \<Rightarrow> event list \<times> int option" where
  "power_main env final argv =
     (case power_args argv of
        Inl (evs, code) \<Rightarrow> (evs, Some code)
      | Inr threads \<Rightarrow>
          if pv_malloc env \<noteq> 0 then ([Error (pv_malloc env) ''cannot allocate memory for worker threads''], Some EXIT_FAILURE)
          else if pv_mutex env \<noteq> 0 then ([Error (pv_mutex env) ''mutex_init''], Some EXIT_FAILURE)
          else if pv_barrier env \<noteq> 0 then ([Error (pv_barrier env) ''barrier init''], Some EXIT_FAILURE)
          else let (evs, created) = start_loop (pv_create env) 0 (nat threads)
            in case final created of
                 None \<Rightarrow> (evs, None)
               | Some cnt \<Rightarrow>
                   (let (out, status) = power_report (int created) (to_int (threads * threads)) cnt
                    in (evs @ (if pv_destroy env \<noteq> 0 then [Error (pv_destroy env) ''barrier destroy''] else []) @ out, Some status)))"

section \<open>No increment is lost\<close>

fun increments :: "nat \<Rightarrow> worker_pc \<Rightarrow> nat" where
  "increments n (WLoop k) = k"
| "increments n (WRead k) = k"
| "increments n (WWrite k v) = k"
| "increments n (WUnlock k) = Suc k"
| "increments n WExit = n"
| "increments n _ = 0"

definition in_section :: "worker_pc \<Rightarrow> bool" where
  "in_section pc \<longleftrightarrow> (case pc of WRead _ \<Rightarrow> True | WWrite _ _ \<Rightarrow> True | WUnlock _ \<Rightarrow> True | _ \<Rightarrow> False)"

definition bounded :: "nat \<Rightarrow> worker_pc \<Rightarrow> bool" where
  "bounded n pc \<longleftrightarrow> (case pc of WLoop k \<Rightarrow> k \<le> n | WRead k \<Rightarrow> k < n | WWrite k _ \<Rightarrow> k < n | WUnlock k \<Rightarrow> k < n | _ \<Rightarrow> True)"

definition power_inv :: "nat \<Rightarrow> power_sys \<Rightarrow> bool" where
  "power_inv n s \<longleftrightarrow> counter s = int (sum_list (map (increments n) (workers s))) \<and>
     (\<forall>i < length (workers s). (in_section (workers s ! i) \<longleftrightarrow> holder s = Some i) \<and> bounded n (workers s ! i) \<and>
        (\<forall>k v. workers s ! i = WWrite k v \<longrightarrow> v = counter s))"

lemma sum_update:
  fixes f :: "'a \<Rightarrow> nat"
  shows "i < length xs \<Longrightarrow> sum_list (map f (xs[i := x])) + f (xs ! i) = sum_list (map f xs) + f x"
  by (induction xs arbitrary: i) (auto split: nat.splits)

lemma power_frame:
  assumes inv: "power_inv n s" and i: "i < length (workers s)" and w: "workers t = (workers s)[i := pc]"
    and inc: "counter t + int (increments n (workers s ! i)) = counter s + int (increments n pc)"
    and others: "\<And>j. j < length (workers s) \<Longrightarrow> j \<noteq> i \<Longrightarrow> holder t = Some j \<longleftrightarrow> holder s = Some j"
    and self: "in_section pc \<longleftrightarrow> holder t = Some i" "bounded n pc" "\<And>k v. pc = WWrite k v \<Longrightarrow> v = counter t"
    and cnt: "counter t = counter s \<or> holder s = Some i"
  shows "power_inv n t"
proof -
  have "counter t = int (sum_list (map (increments n) (workers t)))"
    using inv inc sum_update [OF i, of "increments n" pc] unfolding w power_inv_def by linarith
  moreover have "(in_section (workers t ! j) \<longleftrightarrow> holder t = Some j) \<and> bounded n (workers t ! j) \<and>
      (\<forall>k v. workers t ! j = WWrite k v \<longrightarrow> v = counter t)" if j: "j < length (workers s)" for j
  proof (cases "j = i")
    case True
    with self i w show ?thesis by auto
  next
    case False
    have old: "in_section (workers s ! j) \<longleftrightarrow> holder s = Some j" "bounded n (workers s ! j)"
        "\<And>k v. workers s ! j = WWrite k v \<Longrightarrow> v = counter s" using inv j by (auto simp: power_inv_def)
    have "v = counter t" if "workers s ! j = WWrite k v" for k v
    proof -
      have "holder s = Some j" using old(1) that by (simp add: in_section_def)
      with cnt False old(3) [OF that] show ?thesis by auto
    qed
    with False old others [OF j False] w show ?thesis by auto
  qed
  ultimately show ?thesis using w by (simp add: power_inv_def)
qed

lemma power_inv_step: "power_step n s t \<Longrightarrow> power_inv n s \<Longrightarrow> power_inv n t"
proof (induction rule: power_step.induct)
  case (arrive i s)
  show ?case by (rule power_frame [of n s i]) (use arrive in \<open>auto simp: power_inv_def in_section_def bounded_def\<close>)
next
  case (pass i s)
  show ?case by (rule power_frame [of n s i]) (use pass in \<open>auto simp: power_inv_def in_section_def bounded_def\<close>)
next
  case (exits i s k)
  then have "k = n" by (fastforce simp: power_inv_def bounded_def)
  show ?case by (rule power_frame [of n s i]) (use exits \<open>k = n\<close> in \<open>auto simp: power_inv_def in_section_def bounded_def\<close>)
next
  case (locks i s k)
  show ?case by (rule power_frame [of n s i]) (use locks in \<open>auto simp: in_section_def bounded_def\<close>)
next
  case (reads i s k)
  show ?case by (rule power_frame [of n s i]) (use reads in \<open>fastforce simp: power_inv_def in_section_def bounded_def\<close>)+
next
  case (writes i s k v)
  then have "v = counter s" "holder s = Some i" "k < n" by (fastforce simp: power_inv_def in_section_def bounded_def)+
  show ?case by (rule power_frame [of n s i]) (use writes \<open>v = counter s\<close> \<open>holder s = Some i\<close> \<open>k < n\<close> in \<open>auto simp: in_section_def bounded_def\<close>)
next
  case (unlocks i s k)
  then have "holder s = Some i" "k < n" by (fastforce simp: power_inv_def in_section_def bounded_def)+
  show ?case by (rule power_frame [of n s i]) (use unlocks \<open>holder s = Some i\<close> \<open>k < n\<close> in \<open>auto simp: in_section_def bounded_def\<close>)
qed

interpretation pw: invariant_system "\<lambda>s. \<exists>m. s = power_init m" "power_step n" "power_inv n"
proof unfold_locales
  fix s assume "\<exists>m. s = power_init m"
  then show "power_inv n s" by (auto simp: power_init_def power_inv_def in_section_def bounded_def sum_list_replicate)
qed (auto intro: power_inv_step)

section \<open>A barrier that never opens\<close>

definition waiting_forever :: "nat \<Rightarrow> power_sys \<Rightarrow> bool" where
  "waiting_forever n s \<longleftrightarrow> length (workers s) < n \<and> set (workers s) \<subseteq> {WStart, WBarrier}"

lemma waiting_step: "power_step n s t \<Longrightarrow> waiting_forever n s \<Longrightarrow> waiting_forever n t"
proof (induction rule: power_step.induct)
  case (arrive i s)
  then show ?case by (auto simp: waiting_forever_def dest!: set_update_subset_insert [THEN subsetD])
next
  case (pass i s)
  then show ?case using length_filter_le [of arrived "workers s"] by (simp add: waiting_forever_def)
qed (auto simp: waiting_forever_def dest!: nth_mem)

interpretation wf: invariant_system "waiting_forever n" "power_step n" "waiting_forever n"
  by unfold_locales (auto intro: waiting_step)

section \<open>The properties\<close>

text \<open>
  When all \<open>n\<close> threads have ended, however they interleaved, the counter is the square of their
  number and the program reports success (as long as the square fits in an \<^verbatim>\<open>int\<close>); the two
  values are printed under each other's label.
\<close>

theorem power_counts:
  assumes "reaches (power_step n) (power_init n) s" "length (workers s) = n" "\<forall>pc \<in> set (workers s). pc = WExit"
    "int n * int n \<le> INT_MAX"
  shows "counter s = int n * int n \<and> snd (power_report (int n) (to_int (int n * int n)) (counter s)) = EXIT_SUCCESS"
proof -
  have "power_inv n s" by (rule pw.inv_reachable [OF _ assms(1)]) blast
  moreover have "workers s = replicate n WExit" using assms(2,3) by (simp add: replicate_eqI)
  ultimately have c: "counter s = int n * int n" by (simp add: power_inv_def sum_list_replicate)
  moreover have "0 \<le> int n * int n" by simp
  then have "in_int (int n * int n)" using assms(4) unfolding in_int_def INT_MIN_def by linarith
  ultimately show ?thesis by (simp add: power_report_def Let_def)
qed

lemma one_thread_run:
  "reaches (power_step 1) (power_init 1) \<lparr>counter = 1, holder = None, workers = [WExit]\<rparr>"
proof -
  let ?s = "\<lambda>c h w. \<lparr>counter = c, holder = h, workers = [w]\<rparr> :: power_sys"
  have 1: "reaches (power_step 1) (power_init 1) (?s 0 None WStart)"
    using reaches_refl [of "power_step 1" "power_init 1"] by (simp add: power_init_def)
  have 2: "reaches (power_step 1) (power_init 1) (?s 0 None WBarrier)"
    using reaches_step [OF 1 power_step.arrive [of 0]] by simp
  have 3: "reaches (power_step 1) (power_init 1) (?s 0 None (WLoop 0))"
    using reaches_step [OF 2 power_step.pass [of 0]] by (simp add: arrived_def)
  have 4: "reaches (power_step 1) (power_init 1) (?s 0 (Some 0) (WRead 0))"
    using reaches_step [OF 3 power_step.locks [of 0 _ 0]] by simp
  have 5: "reaches (power_step 1) (power_init 1) (?s 0 (Some 0) (WWrite 0 0))"
    using reaches_step [OF 4 power_step.reads [of 0 _ 0]] by simp
  have 6: "reaches (power_step 1) (power_init 1) (?s 1 (Some 0) (WUnlock 0))"
    using reaches_step [OF 5 power_step.writes [of 0 _ 0 0]] by (simp add: INT_MAX_def)
  have 7: "reaches (power_step 1) (power_init 1) (?s 1 None (WLoop 1))"
    using reaches_step [OF 6 power_step.unlocks [of 0 _ 0]] by simp
  show ?thesis using reaches_step [OF 7 power_step.exits [of 0 _ 1]] by simp
qed

theorem power_counts_witness: "snd (power_report 1 (to_int 1) 1) = EXIT_SUCCESS"
  using power_counts [OF one_thread_run] by (simp add: INT_MAX_def)

text \<open>
  If \<^verbatim>\<open>main\<close> cannot start all threads, those it started never get past the barrier, and the joins
  never return (the source has a remark to that effect).
\<close>

lemma power_barrier_hangs:
  assumes "reaches (power_step n) (power_init created) s" "created < n" "pc \<in> set (workers s)"
  shows "pc \<noteq> WExit"
proof -
  have "waiting_forever n (power_init created)" using assms(2) by (auto simp: waiting_forever_def power_init_def)
  from wf.inv_reaches [OF assms(1) this] assms(3) show ?thesis by (auto simp: waiting_forever_def)
qed

lemma start_loop_all: "(\<forall>i. create i = 0) \<Longrightarrow> start_loop create tx k = ([], tx + k)"
  by (induction k arbitrary: tx) auto

text \<open>The whole program, when nothing fails: it prints the square twice and succeeds.\<close>

lemma power_main_ok:
  assumes "strtol 10 a = (int n, [], False)" "0 < n" "int n * int n \<le> INT_MAX" "a \<noteq> []"
    and "pv_malloc env = 0" "pv_mutex env = 0" "pv_barrier env = 0" "\<forall>i. pv_create env i = 0" "pv_destroy env = 0"
    and "reaches (power_step n) (power_init n) s" "length (workers s) = n" "\<forall>pc \<in> set (workers s). pc = WExit" "final n = Some (counter s)"
  shows "snd (power_main env final [prog, a]) = Some EXIT_SUCCESS"
  using power_counts [of n s] assms start_loop_all [of "pv_create env" 0 n]
  by (auto simp: power_main_def power_args_def split_beta)

end
