(* ===== verification/File_Copy.thy ===== *)
theory File_Copy
  imports C_Prelude "HOL-Library.Sublist"
begin

text \<open>
  \<^verbatim>\<open>ex10\<close>: \<^verbatim>\<open>cat\<close> and the two file copiers \<^verbatim>\<open>copy/slow\<close> (read and write with a buffer) and \<^verbatim>\<open>copy/fast\<close>
  (\<^verbatim>\<open>sendfile\<close>).  The system decides how much each call transfers: the successive results of
  \<^verbatim>\<open>read\<close> are a list, and for the \<open>i\<close>-th \<^verbatim>\<open>write\<close> or \<^verbatim>\<open>sendfile\<close> an error number or the number of bytes it
  is willing to take.
\<close>

section \<open>System calls\<close>

datatype read_ret = Got "byte list" | ReadFails int

type_synonym transfer = "nat \<Rightarrow> int + nat"

text \<open>The bytes that the reads deliver before the end of file or an error, and that error.\<close>

fun read_data :: "read_ret list \<Rightarrow> byte list" where
  "read_data (Got bs # rs) = (if bs = [] then [] else bs @ read_data rs)"
| "read_data _ = []"

fun read_failure :: "read_ret list \<Rightarrow> int option" where
  "read_failure (Got bs # rs) = (if bs = [] then None else read_failure rs)"
| "read_failure (ReadFails e # _) = Some e"
| "read_failure [] = None"

section \<open>copy/slow.c\<close>

text \<open>
  The inner loop: what is written, whether the last result is an error (with its number), what
  is left of the buffer and the number of the next call.
\<close>

function write_loop :: "transfer \<Rightarrow> nat \<Rightarrow> byte list \<Rightarrow> byte list \<times> int option \<times> byte list \<times> nat" where
  "write_loop wr i buf =
     (if buf = [] then ([], None, [], i)
      else case wr i of
        Inl e \<Rightarrow> ([], Some e, buf, Suc i)
      | Inr k \<Rightarrow>
          (let n = min k (length buf)
           in if n = 0 then ([], None, buf, Suc i)
              else let (out, err, rest, j) = write_loop wr (Suc i) (drop n buf) in (take n buf @ out, err, rest, j)))"
  by pat_completeness auto
termination by (relation "measure (\<lambda>(_, _, buf). length buf)") auto

declare write_loop.simps [simp del]

text \<open>The outer loop: the bytes written, the error of a read, the error of a write.\<close>

fun copy_loop :: "transfer \<Rightarrow> nat \<Rightarrow> read_ret list \<Rightarrow> byte list \<times> int option \<times> int option" where
  "copy_loop wr i [] = ([], None, None)"
| "copy_loop wr i (ReadFails e # rs) = ([], Some e, None)"
| "copy_loop wr i (Got bs # rs) =
     (if bs = [] then ([], None, None)
      else case write_loop wr i bs of
        (out, Some e, _, _) \<Rightarrow> (out, None, Some e)
      | (out, None, _, j) \<Rightarrow> (let (out', re, we) = copy_loop wr j rs in (out @ out', re, we)))"

definition copy_fd :: "transfer \<Rightarrow> read_ret list \<Rightarrow> event list \<times> bool \<times> byte list" where
  "copy_fd wr reads =
     (case copy_loop wr 0 reads of
        (out, Some e, _) \<Rightarrow> ([Error e ''read''], False, out)
      | (out, None, Some e) \<Rightarrow> ([Error e ''write''], False, out)
      | (out, None, None) \<Rightarrow> ([], True, out))"

text \<open>
  What the calls of \<^verbatim>\<open>main\<close> answer: for the source an error number or the reads, for the destination
  an error number (0 for success) or the writes, and the results of the two \<^verbatim>\<open>close\<close>s.
\<close>

record copy_env =
  ce_source :: "int + read_ret list"
  ce_open_dest :: int
  ce_write :: transfer
  ce_close_dest :: int
  ce_close_source :: int

text \<open>The result is the output, the exit status and the contents of the destination (\<open>None\<close>: not opened).\<close>

definition slow_main :: "copy_env \<Rightarrow> string list \<Rightarrow> event list \<times> int \<times> byte list option" where
  "slow_main env argv =
     (case argv of
        [prog, src, dst] \<Rightarrow>
          (case ce_source env of
             Inl e \<Rightarrow> ([Error e (''open('' @ src @ '')'')], EXIT_FAILURE, None)
           | Inr reads \<Rightarrow>
               (let close_src = (if ce_close_source env = 0 then [] else [Error (ce_close_source env) (''close('' @ src @ '')'')])
                in if ce_open_dest env \<noteq> 0
                   then ([Error (ce_open_dest env) (''open('' @ dst @ '')'')] @ close_src, EXIT_FAILURE, None)
                   else let (evs, ok, out) = copy_fd (ce_write env) reads;
                            close_dst = (if ce_close_dest env = 0 then [] else [Error (ce_close_dest env) (''close('' @ dst @ '')'')])
                     in (evs @ close_dst @ close_src, if ok then EXIT_SUCCESS else EXIT_FAILURE, Some out)))
      | _ \<Rightarrow> ([Stderr (''usage: '' @ (case argv of p # _ \<Rightarrow> p | [] \<Rightarrow> []) @ '' SOURCE DESTINATION'' @ [nl])], EXIT_FAILURE, None))"

section \<open>cat.c\<close>

definition write_to_stdout :: "transfer \<Rightarrow> read_ret list \<Rightarrow> event list \<times> bool \<times> byte list" where
  "write_to_stdout wr reads =
     (case copy_loop wr 0 reads of
        (out, Some e, _) \<Rightarrow> ([Error e ''read''], False, out)
      | (out, None, Some e) \<Rightarrow> ([Error e ''write''], False, out)
      | (out, None, None) \<Rightarrow> ([], True, out))"

text \<open>
  \<open>files\<close> is the error number of \<^verbatim>\<open>open\<close> or the reads of a file, \<open>wrs\<close> the writes while that file is copied,
  \<open>closes\<close> the error number of its \<^verbatim>\<open>close\<close>; the last component is what reaches the standard output.
\<close>

fun cat_loop :: "(string \<Rightarrow> int + read_ret list) \<Rightarrow> (string \<Rightarrow> transfer) \<Rightarrow> (string \<Rightarrow> int) \<Rightarrow> string list \<Rightarrow>
    event list \<times> int \<times> byte list" where
  "cat_loop files wrs closes [] = ([], EXIT_SUCCESS, [])"
| "cat_loop files wrs closes (f # fs) =
     (case files f of
        Inl e \<Rightarrow> ([Error e (''open('' @ f @ '')'')], 1, [])
      | Inr reads \<Rightarrow>
          (let (evs, ok, out) = write_to_stdout (wrs f) reads
           in if \<not> ok then (evs @ [Stderr (''problems with '' @ f @ [nl])], EXIT_FAILURE, out)
              else if closes f \<noteq> 0 then (evs @ [Error (closes f) (''close('' @ f @ '')'')], 1, out)
              else let (evs', code, out') = cat_loop files wrs closes fs in (evs @ evs', code, out @ out')))"

definition cat_main :: "(string \<Rightarrow> int + read_ret list) \<Rightarrow> (string \<Rightarrow> transfer) \<Rightarrow> (string \<Rightarrow> int) \<Rightarrow> read_ret list \<Rightarrow> transfer \<Rightarrow>
    string list \<Rightarrow> event list \<times> int \<times> byte list" where
  "cat_main files wrs closes stdin_reads stdin_wr args =
     (if args = [] then
        (let (evs, ok, out) = write_to_stdout stdin_wr stdin_reads
         in if \<not> ok then (evs @ [Stderr (''problems with stdin'' @ [nl])], EXIT_FAILURE, out) else (evs, EXIT_SUCCESS, out))
      else cat_loop files wrs closes args)"

section \<open>copy/fast.c\<close>

text \<open>The loop over \<^verbatim>\<open>sendfile\<close> from \<open>offset\<close> with \<open>size\<close> bytes to go; the kernel never sends more than there is.\<close>

function send_loop :: "transfer \<Rightarrow> nat \<Rightarrow> byte list \<Rightarrow> nat \<Rightarrow> nat \<Rightarrow> byte list \<times> int option" where
  "send_loop sf i content offset sz =
     (case sf i of
        Inl e \<Rightarrow> ([], Some e)
      | Inr k \<Rightarrow>
          (let copied = min k (min sz (length content - offset))
           in if copied = 0 then ([], None)
              else let (out, err) = send_loop sf (Suc i) content (offset + copied) (sz - copied)
                   in (take copied (drop offset content) @ out, err)))"
  by pat_completeness auto
termination by (relation "measure (\<lambda>(_, _, _, _, sz). sz)") auto

declare send_loop.simps [simp del]

text \<open>\<open>fstat_size\<close>: an error number or \<^verbatim>\<open>st_size\<close>.\<close>

definition fast_copy_fd :: "transfer \<Rightarrow> int + nat \<Rightarrow> byte list \<Rightarrow> event list \<times> bool \<times> byte list" where
  "fast_copy_fd sf fstat_size content =
     (case fstat_size of
        Inl e \<Rightarrow> ([Error e ''failed to fstat source file''], False, [])
      | Inr sz \<Rightarrow>
          (case send_loop sf 0 content 0 sz of
             (out, Some e) \<Rightarrow> ([Error e ''sendfile failed''], False, out)
           | (out, None) \<Rightarrow> ([], True, out)))"

record fast_env =
  fe_source :: "int + byte list"
  fe_size :: "int + nat"
  fe_open_dest :: int
  fe_send :: transfer
  fe_close_dest :: int
  fe_close_source :: int

definition fast_main :: "fast_env \<Rightarrow> string list \<Rightarrow> event list \<times> int \<times> byte list option" where
  "fast_main env argv =
     (case argv of
        [prog, src, dst] \<Rightarrow>
          (case fe_source env of
             Inl e \<Rightarrow> ([Error e src], EXIT_FAILURE, None)
           | Inr content \<Rightarrow>
               (let close_src = (if fe_close_source env = 0 then [] else [Error (fe_close_source env) (''failed to close '' @ src)])
                in if fe_open_dest env \<noteq> 0 then ([Error (fe_open_dest env) dst] @ close_src, EXIT_FAILURE, None)
                   else let (evs, ok, out) = fast_copy_fd (fe_send env) (fe_size env) content;
                            close_dst = (if fe_close_dest env = 0 then [] else [Error (fe_close_dest env) (''failed to close '' @ dst)])
                     in (evs @ close_dst @ close_src, if ok then EXIT_SUCCESS else EXIT_FAILURE, Some out)))
      | _ \<Rightarrow> ([Stderr (''usage: '' @ (case argv of p # _ \<Rightarrow> p | [] \<Rightarrow> []) @ '' SOURCE DESTINATION'' @ [nl])], EXIT_FAILURE, None))"

section \<open>What arrives\<close>

text \<open>A call that takes anything takes at least one byte.\<close>

definition progresses :: "transfer \<Rightarrow> bool" where
  "progresses wr \<longleftrightarrow> (\<forall>i. wr i \<noteq> Inr 0)"

definition never_fails :: "transfer \<Rightarrow> bool" where
  "never_fails wr \<longleftrightarrow> (\<forall>i e. wr i \<noteq> Inl e)"

lemma write_loop_prefix:
  "write_loop wr i buf = (out, err, rest, j) \<Longrightarrow>
     out @ rest = buf \<and> (progresses wr \<longrightarrow> err = None \<longrightarrow> rest = []) \<and> (never_fails wr \<longrightarrow> err = None)"
proof (induction wr i buf arbitrary: out rule: write_loop.induct)
  case (1 wr i buf)
  show ?case
  proof (cases "buf = []")
    case True
    then show ?thesis using "1.prems" by (auto simp: write_loop.simps [of wr i "[]"])
  next
    case nonempty: False
    show ?thesis
    proof (cases "wr i")
      case (Inl e)
      then show ?thesis using nonempty "1.prems"
        by (auto simp: write_loop.simps [of wr i buf] never_fails_def)
    next
      case (Inr k)
      define n where "n = min k (length buf)"
      show ?thesis
      proof (cases "n = 0")
        case True
        then have "k = 0" using nonempty by (auto simp: n_def min_def split: if_splits)
        then show ?thesis using nonempty Inr "1.prems"
          by (auto simp: write_loop.simps [of wr i buf] progresses_def)
      next
        case False
        have step: "write_loop wr i buf =
            (let (out, err, rest, j) = write_loop wr (Suc i) (drop n buf) in (take n buf @ out, err, rest, j))"
          using nonempty Inr False by (simp add: write_loop.simps [of wr i buf] Let_def flip: n_def)
        obtain out' where rec: "write_loop wr (Suc i) (drop n buf) = (out', err, rest, j)" and out: "out = take n buf @ out'"
          using "1.prems" unfolding step by (auto split: prod.splits)
        have "out' @ rest = drop n buf \<and> (progresses wr \<longrightarrow> err = None \<longrightarrow> rest = []) \<and> (never_fails wr \<longrightarrow> err = None)"
          by (rule "1.IH" [OF nonempty Inr n_def False rec])
        then show ?thesis by (simp add: out)
      qed
    qed
  qed
qed

lemma copy_loop_prefix:
  assumes "progresses wr"
  shows "copy_loop wr i reads = (out, re, we) \<Longrightarrow>
    prefix out (read_data reads) \<and> (we = None \<longrightarrow> out = read_data reads \<and> re = read_failure reads) \<and>
    (we \<noteq> None \<longrightarrow> re = None) \<and> (never_fails wr \<longrightarrow> we = None)"
proof (induction reads arbitrary: i out)
  case (Cons r rs)
  show ?case
  proof (cases r)
    case (Got bs)
    show ?thesis
    proof (cases "bs = []")
      case True
      then show ?thesis using Cons.prems Got by auto
    next
      case False
      obtain o1 err rest j where wl: "write_loop wr i bs = (o1, err, rest, j)" by (cases "write_loop wr i bs") auto
      show ?thesis
      proof (cases err)
        case (Some e)
        have "prefix o1 bs" using write_loop_prefix [OF wl] by (auto simp: prefix_def)
        then show ?thesis using False Cons.prems write_loop_prefix [OF wl] wl Some Got by (auto intro: prefix_prefix)
      next
        case None
        obtain o2 where rec: "copy_loop wr j rs = (o2, re, we)" and out: "out = o1 @ o2"
          using False Cons.prems wl None Got by (auto split: prod.splits)
        have "o1 = bs" using write_loop_prefix [OF wl] assms None by auto
        then show ?thesis using Cons.IH [OF rec] False by (simp add: out Got)
      qed
    qed
  qed (use Cons.prems in auto)
qed auto

lemma copy_loop_complete:
  assumes "progresses wr" "never_fails wr"
  shows "copy_loop wr i reads = (read_data reads, read_failure reads, None)"
  using copy_loop_prefix [OF assms(1)] assms(2) by (cases "copy_loop wr i reads") fastforce

lemma slow_main_success:
  assumes "progresses (ce_write env)" "ce_source env = Inr reads" "slow_main env [prog, src, dst] = (evs, EXIT_SUCCESS, Some out)"
  shows "out = read_data reads"
proof -
  obtain out' re we where cl: "copy_loop (ce_write env) 0 reads = (out', re, we)" by (cases "copy_loop (ce_write env) 0 reads") auto
  show ?thesis
    using copy_loop_prefix [OF assms(1) cl] assms(2,3) cl
    by (cases we; cases "read_failure reads"; cases re) (auto simp: slow_main_def copy_fd_def Let_def split: if_splits)
qed

text \<open>
  C29: whatever sizes the reads and writes have, the destination of \<^verbatim>\<open>slow\<close> holds a prefix of the source, and
  the exit status is success exactly if nothing failed; then the destination is the whole source.
\<close>

theorem slow_copy_correct:
  assumes "progresses (ce_write env)" "ce_source env = Inr reads" "ce_open_dest env = 0"
    and "slow_main env [prog, src, dst] = (evs, code, dest)"
  shows "\<exists>out. dest = Some out \<and> prefix out (read_data reads) \<and> (code = EXIT_SUCCESS \<or> code = EXIT_FAILURE) \<and>
    (code = EXIT_SUCCESS \<longrightarrow> out = read_data reads \<and> read_failure reads = None) \<and>
    (never_fails (ce_write env) \<longrightarrow> out = read_data reads \<and> (code = EXIT_SUCCESS \<longleftrightarrow> read_failure reads = None))"
proof -
  obtain out re we where cl: "copy_loop (ce_write env) 0 reads = (out, re, we)" by (cases "copy_loop (ce_write env) 0 reads") auto
  show ?thesis
    using copy_loop_prefix [OF assms(1) cl] assms(2-4) cl
    by (cases we; cases "read_failure reads"; cases re) (auto simp: slow_main_def copy_fd_def EXIT_SUCCESS_def EXIT_FAILURE_def Let_def)
qed

theorem slow_copy_correct_witness:
  "let env = \<lparr>ce_source = Inr [Got [1, 2, 3], Got [4]], ce_open_dest = 0, ce_write = (\<lambda>i. if i = 2 then Inl 28 else Inr 2), ce_close_dest = 0, ce_close_source = 0\<rparr>
   in slow_main env [''slow'', ''a'', ''b''] = ([Error 28 ''write''], EXIT_FAILURE, Some [1, 2, 3]) \<and> prefix [1, 2, 3] (read_data [Got [1, 2, 3], Got [4]])"
proof -
  let ?env = "\<lparr>ce_source = Inr [Got [1, 2, 3], Got [4]], ce_open_dest = 0, ce_write = (\<lambda>i. if i = 2 then Inl 28 else Inr 2), ce_close_dest = 0, ce_close_source = 0\<rparr>"
  have run: "slow_main ?env [''slow'', ''a'', ''b''] = ([Error 28 ''write''], EXIT_FAILURE, Some [1, 2, 3])"
    by code_simp
  have "progresses (ce_write ?env)" by (simp add: progresses_def)
  from slow_copy_correct [OF this _ _ run, of "[Got [1, 2, 3], Got [4]]"] show ?thesis using run by (simp add: Let_def)
qed

lemma cat_loop_correct:
  assumes "\<And>f. f \<in> set fs \<Longrightarrow> files f = Inr (content f) \<and> read_failure (content f) = None \<and> progresses (wrs f) \<and> never_fails (wrs f) \<and> closes f = 0"
  shows "cat_loop files wrs closes fs = ([], EXIT_SUCCESS, concat (map (\<lambda>f. read_data (content f)) fs))"
  using assms
proof (induction fs)
  case (Cons f fs)
  have f: "files f = Inr (content f)" "read_failure (content f) = None" "progresses (wrs f)" "never_fails (wrs f)" "closes f = 0"
    using Cons.prems [of f] by auto
  have "cat_loop files wrs closes fs = ([], EXIT_SUCCESS, concat (map (\<lambda>f. read_data (content f)) fs))"
    using Cons by auto
  then show ?case using f by (simp add: write_to_stdout_def copy_loop_complete)
qed simp

lemma send_loop_complete:
  assumes "progresses sf" "never_fails sf"
  shows "offset + sz = length content \<Longrightarrow> send_loop sf i content offset sz = (drop offset content, None)"
proof (induction sz arbitrary: i offset rule: less_induct)
  case (less sz)
  obtain k where k: "sf i = Inr k" "k \<noteq> 0" using assms by (cases "sf i") (auto simp: progresses_def never_fails_def)
  show ?case
  proof (cases "sz = 0")
    case True
    then show ?thesis using less.prems k by (simp add: send_loop.simps [of sf i])
  next
    case False
    let ?n = "min k sz"
    have n: "?n \<noteq> 0" "?n \<le> sz" "length content - offset = sz" using False k less.prems by auto
    have "send_loop sf (Suc i) content (offset + ?n) (sz - ?n) = (drop (offset + ?n) content, None)"
      by (rule less.IH) (use n less.prems in auto)
    then have "send_loop sf i content offset sz = (take ?n (drop offset content) @ drop (offset + ?n) content, None)"
      using n k by (simp add: send_loop.simps [of sf i content offset sz] Let_def)
    also have "take ?n (drop offset content) @ drop (offset + ?n) content = drop offset content"
      by (metis add.commute append_take_drop_id drop_drop)
    finally show ?thesis .
  qed
qed

text \<open>
  C30: the copiers agree.  With a system that makes progress and reports no error, both ways of copying and \<^verbatim>\<open>cat\<close>
  end without a message and deliver exactly the sources, \<^verbatim>\<open>cat\<close> the concatenation of its arguments, however the
  transfers are cut.
\<close>

theorem copiers_agree:
  assumes "progresses wr" "never_fails wr"
    and "\<And>f. f \<in> set args \<Longrightarrow> read_failure (content f) = None" "file \<in> set args"
  shows "copy_fd wr (content file) = ([], True, read_data (content file)) \<and>
    fast_copy_fd wr (Inr (length (read_data (content file)))) (read_data (content file)) = ([], True, read_data (content file)) \<and>
    cat_main (\<lambda>f. Inr (content f)) (\<lambda>_. wr) (\<lambda>_. 0) stdin_reads stdin_wr args =
      ([], EXIT_SUCCESS, concat (map (\<lambda>f. read_data (content f)) args))"
proof -
  have "cat_loop (\<lambda>f. Inr (content f)) (\<lambda>_. wr) (\<lambda>_. 0) args = ([], EXIT_SUCCESS, concat (map (\<lambda>f. read_data (content f)) args))"
    by (rule cat_loop_correct) (use assms in auto)
  then show ?thesis using assms
    by (auto simp: copy_fd_def copy_loop_complete fast_copy_fd_def send_loop_complete cat_main_def)
qed

theorem copiers_agree_witness:
  "copy_fd (\<lambda>_. Inr 2) [Got [1, 2, 3], Got [4]] = ([], True, [1, 2, 3, 4]) \<and>
   cat_main (\<lambda>f. Inr (if f = ''a'' then [Got [1, 2, 3], Got [4]] else [Got [5]])) (\<lambda>_ _. Inr 2) (\<lambda>_. 0) [] (\<lambda>_. Inr 1) [''a'', ''b'', ''a''] =
     ([], EXIT_SUCCESS, [1, 2, 3, 4, 5, 1, 2, 3, 4])"
  using copiers_agree [of "\<lambda>_. Inr 2" "[''a'', ''b'', ''a'']" "\<lambda>f. if f = ''a'' then [Got [1, 2, 3], Got [4]] else [Got [5]]" "''a''" "[]" "\<lambda>_. Inr 1"]
  by (simp add: progresses_def never_fails_def)

end
