(* ===== verification/Drop_Priv.thy ===== *)
theory Drop_Priv
  imports Getopt
begin

text \<open>
  \<^verbatim>\<open>ex05/drop_priv/drop.c\<close>: a set-uid program that gives up its privileges in a wrong and in a right
  way and then tests whether they are gone.  The credentials of a process and the system calls
  on them are the documented ones of Linux; \<^verbatim>\<open>getresuid\<close> can only fail for bad addresses, which the
  program never passes, so its error branch has no counterpart here.
\<close>

section \<open>Credentials\<close>

type_synonym uid = u32

record creds =
  ruid :: uid
  euid :: uid
  suid :: uid

definition EPERM :: int where "EPERM = 1"
definition EINVAL :: int where "EINVAL = 22"

text \<open>
  \<^verbatim>\<open>setuid(u)\<close>: root changes all three ids, everybody else only the effective one, and only to the real or
  saved one.  The result is the error number (0: the call returned 0).
\<close>

definition setuid :: "uid \<Rightarrow> creds \<Rightarrow> int \<times> creds" where
  "setuid u c =
     (if u = - 1 then (EINVAL, c)
      else if euid c = 0 then (0, \<lparr>ruid = u, euid = u, suid = u\<rparr>)
      else if u = ruid c \<or> u = suid c then (0, c\<lparr>euid := u\<rparr>)
      else (EPERM, c))"

definition seteuid :: "uid \<Rightarrow> creds \<Rightarrow> int \<times> creds" where
  "seteuid u c =
     (if u = - 1 then (EINVAL, c)
      else if euid c = 0 \<or> u = ruid c \<or> u = euid c \<or> u = suid c then (0, c\<lparr>euid := u\<rparr>)
      else (EPERM, c))"

section \<open>Messages\<close>

text \<open>The colours are escape sequences \<^verbatim>\<open>ESC [ n m\<close>.\<close>

definition sgr :: "string \<Rightarrow> string" where
  "sgr n = CHR 0x1B # ''['' @ n @ ''m''"

definition logexpr :: "string \<Rightarrow> int \<Rightarrow> bool \<Rightarrow> event" where
  "logexpr expr_str expr_val is_errcode =
     Stdout (sgr ''97'' @ '' * '' @ sgr ''0'' @ sgr ''92'' @ expr_str @ sgr ''0'' @
       (if is_errcode
        then '' ('' @ (if expr_val = 0 then sgr ''92'' else sgr ''91'') @ show_int expr_val @ '' '' @
               (if expr_val = 0 then ''success'' else ''error'') @ sgr ''0'' @ '')'' @ [nl]
        else '' = '' @ sgr ''97'' @ show_int expr_val @ sgr ''0'' @ [nl]))"

definition LOGCALL :: "string \<Rightarrow> int \<Rightarrow> event" where
  "LOGCALL expr_str err = logexpr expr_str (if err = 0 then 0 else - 1) True"

definition LOGNOTIFY :: "string \<Rightarrow> event" where
  "LOGNOTIFY s = Stdout (sgr ''96'' @ '' * '' @ sgr ''0'' @ sgr ''96'' @ s @ sgr ''0'' @ [nl])"

definition LOGINFO :: "string \<Rightarrow> event" where
  "LOGINFO s = Stdout (sgr ''94'' @ '' * '' @ sgr ''0'' @ s @ [nl])"

definition LOGSUCCESS :: "string \<Rightarrow> event" where
  "LOGSUCCESS s = Stdout (sgr ''92'' @ '' * '' @ s @ [nl])"

definition LOGWARN :: "int \<Rightarrow> string \<Rightarrow> event" where
  "LOGWARN ecode s = Error ecode (sgr ''93'' @ s @ sgr ''0'')"

text \<open>\<^verbatim>\<open>LOGDIE\<close> also exits with \<^verbatim>\<open>EXIT_FAILURE\<close>; its callers below say so.\<close>

definition LOGDIE :: "int \<Rightarrow> string \<Rightarrow> event" where
  "LOGDIE ecode s = Error ecode (sgr ''91'' @ s @ sgr ''0'')"

definition print_privileges :: "creds \<Rightarrow> event" where
  "print_privileges c =
     (let num = (\<lambda>u. pad_left 4 (CHR '' '') (show_int (sint u)))
      in LOGINFO (''(RUID '' @ num (ruid c) @ '')  (EUID '' @ num (euid c) @ '')  (SUID '' @ num (suid c) @ '')''))"

section \<open>Dropping\<close>

text \<open>\<^verbatim>\<open>check_privileges\<close>: the message before the exit with failure, if there is one.\<close>

definition check_privileges :: "creds \<Rightarrow> event option" where
  "check_privileges c = (if ruid c = euid c then Some (LOGDIE 0 ''program is not set-uid'') else None)"

text \<open>A logged call that is only warned about when it fails, and the ids afterwards.\<close>

definition logged :: "string \<Rightarrow> string \<Rightarrow> int \<times> creds \<Rightarrow> event list \<times> creds" where
  "logged expr_str what r =
     (let (err, c) = r
      in ([LOGCALL expr_str err] @ (if err \<noteq> 0 then [LOGWARN err what] else []) @ [print_privileges c], c))"

text \<open>\<^verbatim>\<open>drop_privileges\<close>: the messages, the final credentials, and whether it returned (otherwise it exited).\<close>

definition drop_privileges :: "bool \<Rightarrow> creds \<Rightarrow> event list \<times> creds \<times> bool" where
  "drop_privileges correct c =
     (let old_euid = euid c;
          (evs1, c1) = logged ''seteuid(getuid())'' ''seteuid'' (seteuid (ruid c) c);
          (evs2, c2) =
            (if \<not> correct then
               (let (evs, d) = logged ''setuid(getuid())'' ''setuid'' (setuid (ruid c1) c1)
                in ([LOGNOTIFY (''dropping privileges premanently ('' @ sgr ''91'' @ ''the wrong way'' @ sgr ''0'' @ '')'')] @ evs, d))
             else
               (let (evs, d) = logged ''seteuid(old_euid)'' ''setuid'' (seteuid old_euid c1);
                    (evs', d') = logged ''setuid(getuid())'' ''setuid'' (setuid (ruid d) d)
                in ([LOGNOTIFY (''dropping privileges permanently ('' @ sgr ''92'' @ ''the right way'' @ sgr ''0'' @ '')'')] @ evs @ evs', d')));
          (err, c3) = setuid old_euid c2;
          evs = [LOGNOTIFY ''program started'', print_privileges c, Stdout [nl],
                 LOGNOTIFY ''dropping privileges temporarily'', logexpr ''old_euid = geteuid()'' (sint old_euid) False] @
                evs1 @ [Stdout [nl]] @ evs2 @ [Stdout [nl], LOGNOTIFY ''check that we dropped priviliges correctly'', LOGCALL ''setuid(old_euid)'' err]
      in if err = 0 then (evs @ [LOGDIE 0 ''old priviliges restored, potential security problem detected''], c3, False)
         else (evs @ [Stdout [nl], LOGSUCCESS ''privileges dropped correctly''], c3, True))"

section \<open>The program\<close>

definition drop_help :: string where
  "drop_help =
     ''NAME'' @ [nl] @
     ''    drop -- demonstrate privileges drop'' @ [nl] @ [nl] @
     ''SYNOPSIS'' @ [nl] @
     ''    drop -h'' @ [nl] @
     ''    drop (-w|-c)'' @ [nl] @ [nl] @
     ''OPTIONS'' @ [nl] @
     ''    -h     show help and exit'' @ [nl] @ [nl] @
     ''    -w     drop permissions, the wrong way'' @ [nl] @
     ''    -c     drop permissions, the correct way'' @ [nl]"

definition drop_usage :: "string \<Rightarrow> string" where
  "drop_usage argv0 = ''usage: '' @ basename argv0 @ '' [-h] (-w|-c)'' @ [nl]"

definition drop_option :: "nat \<times> bool \<Rightarrow> opt_event \<Rightarrow> (event list \<times> int) + nat \<times> bool" where
  "drop_option st e =
     (let (commands, correct) = st
      in case e of
           Opt ch _ \<Rightarrow>
             if ch = CHR ''h'' then Inl ([Stdout drop_help], EXIT_SUCCESS)
             else if ch = CHR ''c'' then Inr (Suc commands, True)
             else if ch = CHR ''w'' then Inr (Suc commands, correct)
             else Inl ([], EXIT_FAILURE)
         | BadOpt \<Rightarrow> Inl ([], EXIT_FAILURE))"

definition drop_main :: "creds \<Rightarrow> string \<Rightarrow> string list \<Rightarrow> event list \<times> int \<times> creds" where
  "drop_main c argv0 args =
     (let (es, operands) = getopt_all ''hcw'' None args
      in case run_opts drop_option (0, False) es of
           Inl (evs, code) \<Rightarrow> (evs, code, c)
         | Inr (commands, correct) \<Rightarrow>
             if commands \<noteq> 1 \<or> operands \<noteq> [] then ([Stdout (drop_usage argv0)], EXIT_FAILURE, c)
             else case check_privileges c of
               Some e \<Rightarrow> ([e], EXIT_FAILURE, c)
             | None \<Rightarrow>
                 (let (evs, c', ok) = drop_privileges correct c
                  in (evs, if ok then EXIT_SUCCESS else EXIT_FAILURE, c')))"

section \<open>What the test shows\<close>

text \<open>The states a process can bring itself into with the two calls.\<close>

inductive cred_step :: "creds \<Rightarrow> creds \<Rightarrow> bool" where
  by_setuid: "cred_step c (snd (setuid u c))"
| by_seteuid: "cred_step c (snd (seteuid u c))"

text \<open>A process whose three ids are equal and not those of root keeps them for ever.\<close>

definition unprivileged :: "uid \<Rightarrow> creds \<Rightarrow> bool" where
  "unprivileged u c \<longleftrightarrow> u \<noteq> 0 \<and> ruid c = u \<and> euid c = u \<and> suid c = u"

interpretation confined: invariant_system "unprivileged u" cred_step "unprivileged u" for u
proof
  show "unprivileged u t" if "unprivileged u s" "cred_step s t" for s t
    using that(2,1) by (cases rule: cred_step.cases) (auto simp: unprivileged_def setuid_def seteuid_def)
qed

lemma drop_privileges_ok:
  assumes "ruid c \<noteq> euid c" "euid c = suid c" "ruid c \<noteq> - 1" "euid c \<noteq> - 1"
  shows "snd (snd (drop_privileges correct c)) \<longleftrightarrow> correct \<and> euid c = 0"
    and "correct \<Longrightarrow> euid c = 0 \<Longrightarrow> fst (snd (drop_privileges correct c)) = \<lparr>ruid = ruid c, euid = ruid c, suid = ruid c\<rparr>"
proof -
  obtain r e s where c: "c = \<lparr>ruid = r, euid = e, suid = s\<rparr>" by (cases c) auto
  show "snd (snd (drop_privileges correct c)) \<longleftrightarrow> correct \<and> euid c = 0"
    and "correct \<Longrightarrow> euid c = 0 \<Longrightarrow> fst (snd (drop_privileges correct c)) = \<lparr>ruid = ruid c, euid = ruid c, suid = ruid c\<rparr>"
    using assms
    by (auto simp: c drop_privileges_def logged_def setuid_def seteuid_def EPERM_def EINVAL_def Let_def)
qed

lemma drop_getopt:
  "getopt_all ''hcw'' None [''-c''] = ([Opt (CHR ''c'') None], [])"
  "getopt_all ''hcw'' None [''-w''] = ([Opt (CHR ''w'') None], [])"
  by code_simp+

text \<open>
  C31: for a set-uid program (saved and effective id are the owner's, the real id is another user's) the
  verdict of \<^verbatim>\<open>drop\<close> is success exactly for \<^verbatim>\<open>-c\<close> and an owner root: the wrong way is always detected, and so
  is the right way when the owner is not root.  The verdict is sound: after success no sequence
  of \<^verbatim>\<open>setuid\<close> and \<^verbatim>\<open>seteuid\<close> calls changes any of the three ids again.
\<close>

theorem drop_verdict:
  assumes "ruid c \<noteq> euid c" "euid c = suid c" "ruid c \<noteq> - 1" "euid c \<noteq> - 1"
    and "flag = (if correct then ''-c'' else ''-w'')" "drop_main c argv0 [flag] = (evs, code, c')"
  shows "(code = EXIT_SUCCESS \<longleftrightarrow> correct \<and> euid c = 0) \<and>
    (code = EXIT_SUCCESS \<longrightarrow> (\<forall>d. reaches cred_step c' d \<longrightarrow> ruid d = ruid c \<and> euid d = ruid c \<and> suid d = ruid c))"
proof -
  obtain evs' ok where dp: "drop_privileges correct c = (evs', c', ok)" and code: "code = (if ok then EXIT_SUCCESS else EXIT_FAILURE)"
    using assms by (cases correct) (auto simp del: getopt_all.simps simp: drop_main_def drop_getopt drop_option_def check_privileges_def split: prod.splits)
  have ok: "ok \<longleftrightarrow> correct \<and> euid c = 0" using drop_privileges_ok(1) [OF assms(1-4), of correct] by (simp add: dp)
  have "unprivileged (ruid c) c'" if ok
    using drop_privileges_ok(2) [OF assms(1-4), of correct] assms(1) ok that dp by (simp add: unprivileged_def)
  then have "ruid d = ruid c \<and> euid d = ruid c \<and> suid d = ruid c" if ok "reaches cred_step c' d" for d
    using confined.inv_reaches [OF that(2)] that(1) by (auto simp: unprivileged_def)
  then show ?thesis using ok by (auto simp: code)
qed

theorem drop_verdict_witness:
  "(\<exists>evs. drop_main \<lparr>ruid = 1000, euid = 0, suid = 0\<rparr> ''./drop'' [''-c''] = (evs, EXIT_SUCCESS, \<lparr>ruid = 1000, euid = 1000, suid = 1000\<rparr>)) \<and>
   euid ` {d. reaches cred_step \<lparr>ruid = 1000, euid = 1000, suid = 1000\<rparr> d} = {1000}"
proof -
  let ?c = "\<lparr>ruid = 1000, euid = 0, suid = 0\<rparr>"
  obtain evs code c' where run: "drop_main ?c ''./drop'' [''-c''] = (evs, code, c')" by (cases "drop_main ?c ''./drop'' [''-c'']") auto
  have sound: "(code = EXIT_SUCCESS \<longleftrightarrow> True \<and> euid ?c = 0) \<and>
      (code = EXIT_SUCCESS \<longrightarrow> (\<forall>d. reaches cred_step c' d \<longrightarrow> ruid d = ruid ?c \<and> euid d = ruid ?c \<and> suid d = ruid ?c))"
    by (rule drop_verdict [OF _ _ _ _ _ run]) simp_all
  have c': "c' = \<lparr>ruid = 1000, euid = 1000, suid = 1000\<rparr>" using sound reaches_refl [of cred_step c'] by (cases c') auto
  show ?thesis using sound run reaches_refl [of cred_step c'] unfolding c' by (auto simp: image_iff)
qed

end
