(* ===== verification/Tasks.thy ===== *)
theory Tasks
  imports Getopt
begin

text \<open>
  \<^verbatim>\<open>ex05/tasks\<close>: the growing array of \<^verbatim>\<open>dynarray.c\<close> and the program \<^verbatim>\<open>tasks.c\<close>, which starts one child per
  input line, stores the process ids in the array and waits for them.  A block of memory is the
  list of its cells (\<open>None\<close>: never written); \<open>grant\<close> tells for the \<open>n\<close>-th \<^verbatim>\<open>realloc\<close> whether the system
  has the memory.
\<close>

section \<open>dynarray.c\<close>

definition START_CAPACITY :: nat where "START_CAPACITY = 16"

text \<open>\<open>da_calls\<close> counts the calls of \<^verbatim>\<open>realloc\<close> and \<open>da_freed\<close> tells that the block was given back; \<^verbatim>\<open>size_t\<close> arithmetic is modulo \<open>2 ^ 64\<close>.\<close>

record dynarray =
  da_capacity :: nat
  da_size :: nat
  da_array :: "int option list option"
  da_calls :: nat
  da_freed :: bool

definition array_state :: dynarray where
  "array_state = \<lparr>da_capacity = 0, da_size = 0, da_array = None, da_calls = 0, da_freed = False\<rparr>"

definition sizeof_int :: nat where "sizeof_int = 4"

definition realloc_cells :: "nat \<Rightarrow> int option list option \<Rightarrow> int option list" where
  "realloc_cells bytes p =
     (let n = bytes div sizeof_int; old = (case p of None \<Rightarrow> [] | Some b \<Rightarrow> b)
      in take n old @ replicate (n - length old) None)"

text \<open>The result is the return value, 1 for a failure.\<close>

definition expand :: "(nat \<Rightarrow> bool) \<Rightarrow> dynarray \<Rightarrow> int \<times> dynarray" where
  "expand grant d =
     (let cap = (if da_capacity d = 0 then START_CAPACITY else da_capacity d * 2 mod 2 ^ 64);
          d' = d\<lparr>da_capacity := cap, da_calls := Suc (da_calls d)\<rparr>
      in if \<not> grant (da_calls d) then (1, d')
         else (0, d'\<lparr>da_array := Some (realloc_cells (cap * sizeof_int mod 2 ^ 64) (da_array d))\<rparr>))"

definition cant_expand :: event where "cant_expand = Stderr ''Can't expand the array!''"

definition store :: "int \<Rightarrow> nat \<Rightarrow> dynarray \<Rightarrow> (event list \<times> dynarray) outcome" where
  "store v position d =
     (case da_array d of
        None \<Rightarrow> Fault NullDeref
      | Some b \<Rightarrow>
          if position \<ge> length b then Fault OutOfBounds
          else Done ([], d\<lparr>da_array := Some (b[position := Some v]), da_size := (da_size d + 1) mod 2 ^ 64\<rparr>))"

definition push_loc :: "(nat \<Rightarrow> bool) \<Rightarrow> int \<Rightarrow> nat \<Rightarrow> dynarray \<Rightarrow> (event list \<times> dynarray) outcome" where
  "push_loc grant v position d =
     (let (r1, d1) = (if da_capacity d = 0 then expand grant d else (0, d))
      in if r1 \<noteq> 0 then Done ([cant_expand], d1)
         else let (r2, d2) = (if position = da_capacity d1 then expand grant d1 else (0, d1))
              in if r2 \<noteq> 0 then Done ([cant_expand], d2) else store v position d2)"

definition add :: "(nat \<Rightarrow> bool) \<Rightarrow> int \<Rightarrow> dynarray \<Rightarrow> (event list \<times> dynarray) outcome" where
  "add grant v d = push_loc grant v (da_size d) d"

definition get_array :: "dynarray \<Rightarrow> int option list option" where "get_array d = da_array d"
definition get_length :: "dynarray \<Rightarrow> nat" where "get_length d = da_size d"

text \<open>\<^verbatim>\<open>free\<close> accepts a null pointer but not the same block twice; the pointer itself and the size stay as they are.\<close>

definition free_memory :: "dynarray \<Rightarrow> dynarray outcome" where
  "free_memory d =
     (if da_array d = None then Done d
      else if da_freed d then Fault OutOfBounds
      else Done (d\<lparr>da_freed := True\<rparr>))"

definition leaked :: "dynarray \<Rightarrow> bool" where "leaked d \<longleftrightarrow> da_array d \<noteq> None \<and> \<not> da_freed d"

section \<open>tasks.c\<close>

text \<open>The options: the stream to read (the lines of a file that was opened, or \<open>None\<close> if it was not).\<close>

record tasks_opts =
  read_from :: "string list option"
  delete_new_line :: bool

definition tasks_option :: "(string \<Rightarrow> string option) \<Rightarrow> tasks_opts \<Rightarrow> opt_event \<Rightarrow> int + tasks_opts" where
  "tasks_option fopen_r o1 e =
     (case e of
        Opt ch arg \<Rightarrow>
          if ch = CHR ''f'' then Inr (o1\<lparr>read_from := map_option input_lines (fopen_r (case arg of Some a \<Rightarrow> a | None \<Rightarrow> []))\<rparr>)
          else if ch = CHR ''n'' then Inr (o1\<lparr>delete_new_line := False\<rparr>)
          else Inl EXIT_FAILURE
      | BadOpt \<Rightarrow> Inl EXIT_FAILURE)"

text \<open>
  What a child does: it crashes when the line has no newline to delete, otherwise it executes the
  first operand with the others as its arguments; \<^verbatim>\<open>execv\<close> only returns when it fails.
\<close>

datatype child = Crash fault | Execs string "string list" | ChildExits int

definition task_child :: "(string \<Rightarrow> bool) \<Rightarrow> bool \<Rightarrow> string list \<Rightarrow> string \<Rightarrow> child" where
  "task_child executable del operands line =
     (if del \<and> nl \<notin> set line then Crash NullDeref
      else case operands of
        [] \<Rightarrow> ChildExits EXIT_SUCCESS
      | p # args \<Rightarrow> if executable p then Execs p args else ChildExits EXIT_SUCCESS)"

text \<open>
  The loop of the parent over the lines: \<open>forks\<close> are an error number or the new process id.  The result
  is the output and the array; the left alternative is the exit after a failed \<^verbatim>\<open>fork\<close>, with the array as it is then.
\<close>

fun fork_loop :: "(nat \<Rightarrow> bool) \<Rightarrow> (nat \<Rightarrow> int + int) \<Rightarrow> nat \<Rightarrow> string list \<Rightarrow> event list \<Rightarrow> dynarray \<Rightarrow>
    event list \<times> (dynarray \<times> int + dynarray outcome)" where
  "fork_loop grant forks i [] evs d = (evs, Inr (Done d))"
| "fork_loop grant forks i (l # ls) evs d =
     (case forks i of
        Inl e \<Rightarrow> (evs @ [Error e ''fork''], Inl (d, EXIT_FAILURE))
      | Inr pid \<Rightarrow>
          (case add grant pid d of
             Done (evs', d') \<Rightarrow> fork_loop grant forks (Suc i) ls (evs @ evs') d'
           | Exit c \<Rightarrow> (evs, Inr (Exit c))
           | Fault f \<Rightarrow> (evs, Inr (Fault f))))"

definition killed_child :: "int \<Rightarrow> event" where
  "killed_child pid = Stdout (''killed child '' @ show_int pid @ [nl])"

text \<open>The waits, in the order of the array; an array that was never allocated or a cell never written has no value.\<close>

fun wait_loop :: "int option list \<Rightarrow> (event list \<times> int list) option" where
  "wait_loop [] = Some ([], [])"
| "wait_loop (c # cs) =
     (case c of None \<Rightarrow> None
      | Some pid \<Rightarrow> map_option (\<lambda>(evs, ps). (killed_child pid # evs, pid # ps)) (wait_loop cs))"

text \<open>
  The end of \<^verbatim>\<open>main\<close>: with no line at all the program tests an uninitialised \<^verbatim>\<open>pid\<close>; as the array is empty both
  ways do the same.
\<close>

definition tasks_collect :: "dynarray \<Rightarrow> event list \<times> dynarray outcome \<times> int list" where
  "tasks_collect d =
     (case get_array d of
        None \<Rightarrow> ([], if get_length d = 0 then free_memory d else Fault NullDeref, [])
      | Some b \<Rightarrow>
          if length b < get_length d then ([], Fault OutOfBounds, []) else
          (case wait_loop (take (get_length d) b) of
             None \<Rightarrow> ([], Fault OutOfBounds, [])
           | Some (evs, ps) \<Rightarrow> (evs, free_memory d, ps)))"

text \<open>
  \<^verbatim>\<open>main\<close> of the parent: output, exit status or fault with the answer whether the array is still allocated at
  that moment, and the processes waited for.  After a failed \<^verbatim>\<open>fork\<close> it leaves with whatever array it has.
\<close>

definition tasks_main :: "(string \<Rightarrow> string option) \<Rightarrow> string list \<Rightarrow> (nat \<Rightarrow> bool) \<Rightarrow> (nat \<Rightarrow> int + int) \<Rightarrow> string list \<Rightarrow>
    event list \<times> (int \<times> bool) outcome \<times> int list" where
  "tasks_main fopen_r stdin_lines grant forks args =
     (let (es, operands) = getopt_all ''f:n'' None args
      in case run_opts (tasks_option fopen_r) \<lparr>read_from = Some stdin_lines, delete_new_line = True\<rparr> es of
           Inl code \<Rightarrow> ([], Done (code, False), [])
         | Inr opts \<Rightarrow>
             (case read_from opts of
                None \<Rightarrow> ([], Fault NullDeref, [])
              | Some lines \<Rightarrow>
                  (case fork_loop grant forks 0 lines [] array_state of
                     (evs, Inl (d, c)) \<Rightarrow> (evs, Done (c, leaked d), [])
                   | (evs, Inr (Fault f)) \<Rightarrow> (evs, Fault f, [])
                   | (evs, Inr (Exit c)) \<Rightarrow> (evs, Exit c, [])
                   | (evs, Inr (Done d)) \<Rightarrow>
                       (case tasks_collect d of (evs', r, ps) \<Rightarrow>
                          (evs @ evs', map_outcome (\<lambda>d'. (EXIT_SUCCESS, leaked d')) r, ps)))))"

section \<open>The array holds what was added\<close>

definition holds :: "int list \<Rightarrow> dynarray \<Rightarrow> bool" where
  "holds vs d \<longleftrightarrow> da_size d = length vs \<and> \<not> da_freed d \<and>
     (if da_capacity d = 0 then vs = [] \<and> da_array d = None
      else \<exists>junk. da_array d = Some (map Some vs @ junk) \<and> da_capacity d = length vs + length junk \<and> da_capacity d \<le> max START_CAPACITY (2 * length vs))"

lemma holds_array_state [simp]: "holds [] array_state"
  by (simp add: holds_def array_state_def)

lemma holds_store:
  assumes "da_array d = Some (map Some vs @ c # junk)" "da_capacity d = length vs + Suc (length junk)" "da_size d = length vs"
    and "da_capacity d \<le> max START_CAPACITY (2 * Suc (length vs))" "length vs < 2 ^ 60" "\<not> da_freed d"
  shows "\<exists>d'. store v (da_size d) d = Done ([], d') \<and> holds (vs @ [v]) d'"
proof -
  have "(length vs + 1) mod 2 ^ 64 = Suc (length vs)" using assms(5) by simp
  moreover have "(map Some vs @ c # junk)[length vs := Some v] = map Some (vs @ [v]) @ junk" by (simp add: list_update_append)
  ultimately show ?thesis using assms by (auto simp: store_def holds_def)
qed

lemma realloc_grow: "length old \<le> n \<Longrightarrow> realloc_cells (n * sizeof_int) (Some old) = old @ replicate (n - length old) None"
  by (simp add: realloc_cells_def sizeof_int_def)

lemma expand_ok:
  assumes "holds vs d" "da_capacity d = 0 \<or> length vs = da_capacity d" "length vs < 2 ^ 60" "grant (da_calls d)"
  shows "\<exists>d' c junk. expand grant d = (0, d') \<and> da_array d' = Some (map Some vs @ c # junk) \<and>
    da_capacity d' = length vs + Suc (length junk) \<and> da_size d' = length vs \<and>
    da_capacity d' \<le> max START_CAPACITY (2 * Suc (length vs)) \<and> \<not> da_freed d'"
proof (cases "da_capacity d = 0")
  case True
  then have [simp]: "vs = []" "da_array d = None" "da_size d = 0" "\<not> da_freed d" using assms(1) by (auto simp: holds_def)
  have "expand grant d = (0, d\<lparr>da_capacity := 16, da_calls := Suc (da_calls d), da_array := Some (None # replicate 15 None)\<rparr>)"
    using True assms(4) by (simp add: expand_def realloc_cells_def START_CAPACITY_def sizeof_int_def flip: replicate_Suc)
  then show ?thesis by (intro exI conjI) (auto simp: START_CAPACITY_def)
next
  case False
  with assms(1,2) have full: "da_capacity d = length vs" "da_array d = Some (map Some vs)" "da_size d = length vs" "length vs > 0" "\<not> da_freed d"
    by (auto simp: holds_def)
  obtain k where k: "length vs = Suc k" using full(4) by (cases "length vs") auto
  have "length vs * 2 mod 2 ^ 64 = 2 * length vs" "2 * length vs * sizeof_int mod 2 ^ 64 = 2 * length vs * sizeof_int"
    using assms(3) unfolding sizeof_int_def by (auto intro!: mod_less)
  then have "expand grant d = (0, d\<lparr>da_capacity := 2 * length vs, da_calls := Suc (da_calls d), da_array := Some (map Some vs @ replicate (length vs) None)\<rparr>)"
    using full False assms(4) realloc_grow [of "map Some vs" "2 * length vs"] by (simp add: expand_def Let_def)
  then show ?thesis using full k by simp
qed

lemma add_ok:
  assumes "holds vs d" "length vs < 2 ^ 60" "\<forall>n. grant n"
  shows "\<exists>d'. add grant v d = Done ([], d') \<and> holds (vs @ [v]) d'"
proof (cases "da_capacity d = 0 \<or> length vs = da_capacity d")
  case True
  then obtain d' c junk where e: "expand grant d = (0, d')" "da_array d' = Some (map Some vs @ c # junk)"
      "da_capacity d' = length vs + Suc (length junk)" "da_size d' = length vs" "da_capacity d' \<le> max START_CAPACITY (2 * Suc (length vs))" "\<not> da_freed d'"
    using expand_ok [OF assms(1) True assms(2), of grant] assms(3) by auto
  have size: "da_size d = length vs" using assms(1) by (simp add: holds_def)
  have "push_loc grant v (da_size d) d = store v (da_size d') d'"
    using e size True by (auto simp: push_loc_def Let_def)
  then show ?thesis using holds_store [OF e(2,3,4,5) assms(2) e(6)] e(4) size by (simp add: add_def)
next
  case False
  then obtain junk where j: "da_array d = Some (map Some vs @ junk)" "da_capacity d = length vs + length junk" "da_size d = length vs"
      "da_capacity d \<le> max START_CAPACITY (2 * length vs)" "\<not> da_freed d"
    using assms(1) by (auto simp: holds_def)
  with False obtain c junk' where junk: "junk = c # junk'" by (cases junk) auto
  have "add grant v d = store v (da_size d) d" using False j by (simp add: add_def push_loc_def)
  then show ?thesis using holds_store [of d vs c junk' v] j assms(2) by (simp add: junk)
qed

lemma wait_loop_all: "wait_loop (map Some ps) = Some (map killed_child ps, ps)"
  by (induction ps) auto

lemma fork_loop_ok:
  assumes "\<forall>n. grant n"
  shows "holds vs d \<Longrightarrow> length vs + length lines < 2 ^ 60 \<Longrightarrow> (\<And>k. k < length lines \<Longrightarrow> forks (i + k) = Inr (pids ! k)) \<Longrightarrow>
    length pids = length lines \<Longrightarrow> \<exists>d'. fork_loop grant forks i lines evs d = (evs, Inr (Done d')) \<and> holds (vs @ pids) d'"
proof (induction lines arbitrary: i vs d pids)
  case (Cons l ls)
  obtain p ps where p: "pids = p # ps" using Cons.prems(4) by (cases pids) auto
  have f: "forks i = Inr p" using Cons.prems(3) [of 0] p by simp
  obtain d' where d': "add grant p d = Done ([], d')" "holds (vs @ [p]) d'"
    using add_ok [OF Cons.prems(1) _ assms, of p] Cons.prems(2) by auto
  have "forks (Suc i + k) = Inr (ps ! k)" if "k < length ls" for k
    using Cons.prems(3) [of "Suc k"] that p by simp
  with Cons.IH [OF d'(2), of "Suc i" ps] Cons.prems(2,4) p f d' show ?case by auto
qed auto

text \<open>
  C32: with enough memory and processes, \<^verbatim>\<open>tasks\<close> starts one child per line of its input and, before it ends
  successfully, waits for every one of them exactly once and in the order of creation, however
  often the array had to grow; the array is freed once and nothing of it is left.
\<close>

theorem tasks_waits_for_all:
  assumes "\<forall>n. grant n" "length lines < 2 ^ 60" "length pids = length lines" "\<And>k. k < length lines \<Longrightarrow> forks k = Inr (pids ! k)"
    and "list_all (\<lambda>a. \<not> is_prefix ''-'' a) command"
  shows "tasks_main fopen_r lines grant forks command = (map killed_child pids, Done (EXIT_SUCCESS, False), pids)"
proof -
  obtain d where d: "fork_loop grant forks 0 lines [] array_state = ([], Inr (Done d))" "holds pids d"
    using fork_loop_ok [OF assms(1) holds_array_state, of lines forks 0 pids "[]"] assms(2-4) by auto
  have "get_array d = None \<and> pids = [] \<and> get_length d = 0 \<or>
      (\<exists>junk. get_array d = Some (map Some pids @ junk) \<and> get_length d = length pids)"
    using d(2) by (auto simp: holds_def get_array_def get_length_def split: if_splits)
  then show ?thesis
    using d(1) getopt_operands [OF assms(5), of "''f:n''" None] d(2)
    by (auto simp: tasks_main_def tasks_collect_def wait_loop_all free_memory_def leaked_def holds_def get_array_def)
qed

theorem tasks_waits_for_all_witness:
  "tasks_main (\<lambda>_. None) [''a'', ''b'', ''c''] (\<lambda>_. True) (\<lambda>i. Inr (int i + 100)) [''sleep'', ''1''] =
     (map killed_child [100, 101, 102], Done (EXIT_SUCCESS, False), [100, 101, 102])"
proof (rule tasks_waits_for_all)
  show "Inr (int k + 100) = Inr ([100, 101, 102] ! k)" if "k < length [''a'', ''b'', ''c'']" for k
    using that by (auto simp: less_Suc_eq)
qed simp_all

text \<open>
  An array that could not grow is broken.  When the \<^verbatim>\<open>realloc\<close> of an \<^verbatim>\<open>add\<close> fails the call only reports it, but
  the capacity has already changed: the very next \<^verbatim>\<open>add\<close> writes through a null pointer (first
  allocation) or behind the end of the block (growth), even if memory is available again.
\<close>

theorem failed_expand_corrupts:
  assumes "holds vs d" "da_capacity d = 0 \<or> length vs = da_capacity d" "length vs < 2 ^ 60" "\<not> grant (da_calls d)"
  shows "\<exists>d'. add grant v d = Done ([cant_expand], d') \<and> get_length d' = length vs \<and>
    add grant' w d' = Fault (if vs = [] then NullDeref else OutOfBounds)"
proof (cases "da_capacity d = 0")
  case True
  then have "vs = []" "da_array d = None" "da_size d = 0" using assms(1) by (auto simp: holds_def)
  then show ?thesis using True assms(4)
    by (simp add: add_def push_loc_def expand_def store_def START_CAPACITY_def get_length_def)
next
  case False
  with assms(1,2) have full: "da_capacity d = length vs" "da_array d = Some (map Some vs)" "da_size d = length vs" "length vs > 0"
    by (auto simp: holds_def)
  have "length vs * 2 mod 2 ^ 64 = 2 * length vs" using assms(3) by (auto intro!: mod_less)
  then show ?thesis using full False assms(4)
    by (auto simp: add_def push_loc_def expand_def store_def get_length_def Let_def)
qed

theorem failed_expand_corrupts_witness:
  "\<exists>d'. add (\<lambda>_. False) 7 array_state = Done ([cant_expand], d') \<and> get_length d' = 0 \<and> add (\<lambda>_. True) 8 d' = Fault NullDeref"
  using failed_expand_corrupts [of "[]" array_state "\<lambda>_. False" 7 "\<lambda>_. True" 8] by (simp add: array_state_def holds_def)

end
