(* ===== verification/Seq.thy ===== *)
theory Seq
  imports Getopt
begin

text \<open>
  \<^verbatim>\<open>ex03/seq/seq.c\<close>: print the numbers from FIRST to LAST in steps of INCREMENT.  The loop adds 32-bit
  signed integers, so it can end, overflow or run for ever; it is a function of fuel that gives
  \<open>None\<close> when the fuel is used up.
\<close>

section \<open>Options\<close>

record seq_options =
  equal_width :: bool
  separator :: string
  format :: string

definition seq_version :: string where "seq_version = ''Version 6.6.6, Hail Stan!'' @ [nl]"

definition seq_help :: string where
  "seq_help =
     ''Print numbers from FIRST to LAST, in steps of INCREMENT.'' @ [nl] @ [nl] @
     ''Mandatory arguments to long options are mandatory for short options '' @
     ''too.'' @ [nl] @ [nl] @
     ''-f, --format=FORMAT'' @ [nl] @
     ''      use printf style floating-point FORMAT'' @ [nl] @ [nl] @
     ''-s, --separator=STRING'' @ [nl] @
     ''      use STRING to separate numbers (default: '' @ [CHR 0x5C] @ ''n)'' @ [nl] @ [nl] @
     ''-w, --equal-width'' @ [nl] @
     ''      equalize width by padding with leading zeroes'' @ [nl] @ [nl] @
     ''--help'' @ [nl] @
     ''      display this help and exit'' @ [nl] @ [nl] @
     ''--version'' @ [nl] @
     ''       output version information and exit'' @ [nl] @ [nl]"

definition seq_optstring :: string where "seq_optstring = ''vhws:f:''"

definition seq_longopts :: "longopt list" where
  "seq_longopts =
     [(''version'', no_argument, CHR ''v''), (''help'', no_argument, CHR ''h''), (''equal-width'', no_argument, CHR ''w''),
      (''separator'', required_argument, CHR ''s''), (''format'', required_argument, CHR ''f'')]"

definition seq_option :: "seq_options \<Rightarrow> opt_event \<Rightarrow> (event list \<times> int) + seq_options" where
  "seq_option opts e =
     (case e of
        Opt ch arg \<Rightarrow>
          (let optarg = (case arg of Some a \<Rightarrow> a | None \<Rightarrow> [])
           in if ch = CHR ''h'' then Inl ([Stdout seq_help], EXIT_SUCCESS)
              else if ch = CHR ''v'' then Inl ([Stdout seq_version], EXIT_SUCCESS)
              else if ch = CHR ''w'' then Inr (opts\<lparr>equal_width := True\<rparr>)
              else if ch = CHR ''s'' then Inr (opts\<lparr>separator := optarg\<rparr>)
              else if ch = CHR ''f'' then Inr (opts\<lparr>format := optarg\<rparr>)
              else Inl ([Stdout seq_help], EXIT_FAILURE))
      | BadOpt \<Rightarrow> Inl ([Stdout seq_help], EXIT_FAILURE))"

section \<open>The loop\<close>

text \<open>
  \<^verbatim>\<open>printf(format, start)\<close> for formats of plain text, \<^verbatim>\<open>%%\<close> and at most one \<^verbatim>\<open>%d\<close>; every other directive, or a second
  one, reads an argument that is not there or has another type (\<open>None\<close>).
\<close>

fun printf_int :: "string \<Rightarrow> int option \<Rightarrow> string option" where
  "printf_int [] v = Some []"
| "printf_int (c # cs) v =
     (if c \<noteq> CHR ''%'' then map_option ((#) c) (printf_int cs v)
      else case cs of
        [] \<Rightarrow> None
      | d # ds \<Rightarrow>
          if d = CHR ''%'' then map_option ((#) d) (printf_int ds v)
          else if d = CHR ''d'' then (case v of None \<Rightarrow> None | Some i \<Rightarrow> map_option ((@) (show_int i)) (printf_int ds None))
          else None)"

datatype seq_end = Finished | Overflow | BadFormat

fun seq_loop :: "nat \<Rightarrow> string \<Rightarrow> string \<Rightarrow> int \<Rightarrow> int \<Rightarrow> int \<Rightarrow> (string \<times> seq_end) option" where
  "seq_loop 0 fmt sep start incr lst = None"
| "seq_loop (Suc fuel) fmt sep start incr lst =
     (if start > lst then Some ([], Finished)
      else case printf_int fmt (Some start) of
        None \<Rightarrow> Some ([], BadFormat)
      | Some out \<Rightarrow>
          if \<not> in_int (start + incr) then Some (out, Overflow)
          else (let s = start + incr
                in map_option (\<lambda>(rest, e). (out @ (if s \<le> lst then sep else []) @ rest, e)) (seq_loop fuel fmt sep s incr lst)))"

text \<open>Conversion of an operand: \<^verbatim>\<open>strtol\<close>, stored in an \<^verbatim>\<open>int\<close>.\<close>

definition operand :: "string \<Rightarrow> int" where
  "operand s = to_int (fst (strtol 10 s))"

text \<open>\<open>Inl\<close>: too many (or no) numbers; otherwise \<open>start\<close>, \<open>incr\<close> and \<open>last\<close>.\<close>

definition seq_operands :: "string list \<Rightarrow> (int \<times> int \<times> int) option" where
  "seq_operands ops =
     (case ops of
        [l] \<Rightarrow> Some (1, 1, operand l)
      | [s, l] \<Rightarrow> Some (operand s, 1, operand l)
      | [s, i, l] \<Rightarrow> Some (operand s, operand i, operand l)
      | _ \<Rightarrow> None)"

datatype seq_result = Returns "event list" int | Undefined "event list"

definition seq_main :: "nat \<Rightarrow> string list \<Rightarrow> seq_result option" where
  "seq_main fuel args =
     (if args = [] then Some (Returns [Stderr (''No args bro'' @ [nl])] EXIT_FAILURE)
      else let (es, ops) = getopt_all seq_optstring (Some seq_longopts) args
           in case run_opts seq_option \<lparr>equal_width = False, separator = [nl], format = ''%d''\<rparr> es of
                Inl (evs, code) \<Rightarrow> Some (Returns evs code)
              | Inr opts \<Rightarrow>
                  (case seq_operands ops of
                     None \<Rightarrow> Some (Returns [Stderr (''Too many numbers specified!'' @ [nl]), Stdout seq_help] EXIT_FAILURE)
                   | Some (start, incr, lst) \<Rightarrow>
                       map_option (\<lambda>(out, e). case e of Finished \<Rightarrow> Returns [Stdout (out @ [nl])] EXIT_SUCCESS | _ \<Rightarrow> Undefined [Stdout out])
                         (seq_loop fuel (format opts) (separator opts) start incr lst)))"

section \<open>The numbers that are printed\<close>

text \<open>The specification: the members of the arithmetic progression up to \<open>last\<close>.\<close>

definition progression :: "int \<Rightarrow> int \<Rightarrow> int \<Rightarrow> int list" where
  "progression start incr lst =
     (if start > lst then [] else map (\<lambda>k. start + int k * incr) [0..<Suc (nat ((lst - start) div incr))])"

fun join :: "string \<Rightarrow> string list \<Rightarrow> string" where
  "join sep [] = []"
| "join sep [x] = x"
| "join sep (x # xs) = x @ sep @ join sep xs"

lemma printf_d [simp]: "printf_int ''%d'' (Some i) = Some (show_int i)"
  by simp

lemma progression_step:
  assumes "0 < incr" "start \<le> lst"
  shows "progression start incr lst = start # progression (start + incr) incr lst"
proof (cases "start + incr \<le> lst")
  case True
  have "(lst - start) div incr = (lst - (start + incr)) div incr + 1"
    using assms(1) div_add_self1 [of incr "lst - (start + incr)"] by simp
  moreover have "0 \<le> (lst - (start + incr)) div incr" using True assms(1) by (simp add: pos_imp_zdiv_nonneg_iff)
  ultimately have "nat ((lst - start) div incr) = Suc (nat ((lst - (start + incr)) div incr))" by simp
  then show ?thesis using True assms
    by (simp add: progression_def upt_conv_Cons map_Suc_upt [symmetric] algebra_simps del: upt_Suc)
next
  case False
  then have "(lst - start) div incr = 0" using assms by (intro div_pos_pos_trivial) auto
  then show ?thesis using False assms by (simp add: progression_def)
qed

lemma join_Cons: "join sep (x # xs) = x @ (if xs = [] then [] else sep @ join sep xs)"
  by (cases xs) auto

lemma progression_empty [simp]: "progression start incr lst = [] \<longleftrightarrow> start > lst"
  by (simp add: progression_def)

lemma progression_nil: "start > lst \<Longrightarrow> progression start incr lst = []"
  by simp

lemma seq_loop_progression:
  assumes "0 < incr" "in_int (lst + incr)" "\<And>i. printf_int fmt (Some i) = Some (pr i)"
  shows "in_int start \<Longrightarrow> nat (lst - start + 1) < fuel \<Longrightarrow>
    seq_loop fuel fmt sep start incr lst = Some (join sep (map pr (progression start incr lst)), Finished)"
proof (induction fuel arbitrary: start)
  case (Suc fuel)
  show ?case
  proof (cases "start > lst")
    case True
    then show ?thesis by (simp add: progression_def)
  next
    case False
    then have "in_int (start + incr)" using assms(1,2) Suc.prems(1) by (auto simp: in_int_def)
    moreover have "nat (lst - (start + incr) + 1) < fuel" using Suc.prems(2) False assms(1) by auto
    ultimately have "seq_loop fuel fmt sep (start + incr) incr lst = Some (join sep (map pr (progression (start + incr) incr lst)), Finished)"
      by (rule Suc.IH)
    then show ?thesis using False \<open>in_int (start + incr)\<close> assms progression_step [of incr start lst]
      by (auto simp: join_Cons progression_nil)
  qed
qed simp

lemma seq_loop_stuck: "start \<le> lst \<Longrightarrow> in_int start \<Longrightarrow> seq_loop fuel ''%d'' sep start 0 lst = None"
  by (induction fuel) auto

lemma seq_loop_overflow:
  assumes "incr \<noteq> 0" "incr > 0 \<longrightarrow> lst = INT_MAX"
  shows "in_int start \<Longrightarrow> start \<le> lst \<Longrightarrow> nat (if incr > 0 then INT_MAX - start else start - INT_MIN) < fuel \<Longrightarrow>
    \<exists>out. seq_loop fuel ''%d'' sep start incr lst = Some (out, Overflow)"
proof (induction fuel arbitrary: start)
  case (Suc fuel)
  show ?case
  proof (cases "in_int (start + incr)")
    case True
    have "\<exists>out. seq_loop fuel ''%d'' sep (start + incr) incr lst = Some (out, Overflow)"
      by (rule Suc.IH) (use True Suc.prems assms in \<open>auto simp: in_int_def split: if_splits\<close>)
    then show ?thesis using True Suc.prems by auto
  qed (use Suc.prems in auto)
qed simp

lemma seq_main_operands:
  assumes "list_all (\<lambda>a. \<not> is_prefix ''-'' a) ops" "seq_operands ops = Some (start, incr, lst)"
  shows "seq_main fuel ops =
    map_option (\<lambda>(out, e). case e of Finished \<Rightarrow> Returns [Stdout (out @ [nl])] EXIT_SUCCESS | _ \<Rightarrow> Undefined [Stdout out])
      (seq_loop fuel ''%d'' [nl] start incr lst)"
proof -
  have "ops \<noteq> []" using assms(2) by (auto simp: seq_operands_def)
  then show ?thesis using getopt_operands [OF assms(1)] assms(2) by (simp add: seq_main_def)
qed

lemma seq_operands_in_int: "seq_operands ops = Some (start, incr, lst) \<Longrightarrow> in_int start \<and> in_int incr \<and> in_int lst"
  by (auto simp: seq_operands_def operand_def to_int_range in_int_def INT_MIN_def INT_MAX_def split: list.splits
      intro: to_int_range [unfolded in_int_def INT_MIN_def INT_MAX_def, THEN conjunct1] to_int_range [unfolded in_int_def INT_MIN_def INT_MAX_def, THEN conjunct2])

text \<open>
  With a positive increment and no overflow in sight, \<^verbatim>\<open>seq\<close> ends and prints exactly the members of the
  arithmetic progression from FIRST up to LAST, one per line (an empty line if there are none).
\<close>

theorem seq_prints_progression:
  assumes "list_all (\<lambda>a. \<not> is_prefix ''-'' a) ops" "seq_operands ops = Some (start, incr, lst)"
    and "0 < incr" "lst + incr \<le> INT_MAX" "nat (lst - start + 1) < fuel"
  shows "seq_main fuel ops = Some (Returns [Stdout (join [nl] (map show_int (progression start incr lst)) @ [nl])] EXIT_SUCCESS)"
proof -
  have "in_int start" "in_int (lst + incr)" using seq_operands_in_int [OF assms(2)] assms(3,4) by (auto simp: in_int_def)
  then have "seq_loop fuel ''%d'' [nl] start incr lst = Some (join [nl] (map show_int (progression start incr lst)), Finished)"
    by (intro seq_loop_progression) (use assms in auto)
  then show ?thesis using seq_main_operands [OF assms(1,2)] by simp
qed

theorem seq_prints_progression_witness:
  "seq_main 20 [''2'', ''3'', ''10''] = Some (Returns [Stdout (join [nl] (map show_int [2, 5, 8]) @ [nl])] EXIT_SUCCESS)"
proof -
  have ops: "seq_operands [''2'', ''3'', ''10''] = Some (2, 3, 10)" by code_simp
  have "progression 2 3 10 = [2, 5, 8]" by code_simp
  then show ?thesis using seq_prints_progression [OF _ ops, of 20] by (simp add: INT_MAX_def)
qed

text \<open>
  The remaining inputs have no good end.  With increment 0 the program prints FIRST for ever, with a
  negative increment and FIRST not above LAST, or with LAST equal to \<^verbatim>\<open>INT_MAX\<close>, the addition overflows.
\<close>

theorem seq_bad_increment:
  assumes "list_all (\<lambda>a. \<not> is_prefix ''-'' a) ops" "seq_operands ops = Some (start, incr, lst)" "start \<le> lst"
  shows "(incr = 0 \<longrightarrow> (\<forall>fuel. seq_main fuel ops = None)) \<and>
    (incr < 0 \<or> incr > 0 \<and> lst = INT_MAX \<longrightarrow> (\<exists>fuel out. seq_main fuel ops = Some (Undefined out)))"
proof (intro conjI impI allI)
  have i: "in_int start" using seq_operands_in_int [OF assms(2)] by simp
  show "seq_main fuel ops = None" if "incr = 0" for fuel
    using seq_loop_stuck [OF assms(3) i] that seq_main_operands [OF assms(1,2)] by simp
  show "\<exists>fuel out. seq_main fuel ops = Some (Undefined out)" if "incr < 0 \<or> incr > 0 \<and> lst = INT_MAX"
  proof -
    have "incr \<noteq> 0" "incr > 0 \<longrightarrow> lst = INT_MAX" using that by auto
    from seq_loop_overflow [OF this i assms(3) lessI]
    obtain fuel out where "seq_loop fuel ''%d'' [nl] start incr lst = Some (out, Overflow)" by blast
    then have "seq_main fuel ops = Some (Undefined [Stdout out])" using seq_main_operands [OF assms(1,2)] by simp
    then show ?thesis by blast
  qed
qed

theorem seq_bad_increment_witness:
  "(\<forall>fuel. seq_main fuel [''1'', ''0'', ''5''] = None) \<and> (\<exists>fuel out. seq_main fuel [''2147483647''] = Some (Undefined out))"
proof -
  have ops: "seq_operands [''1'', ''0'', ''5''] = Some (1, 0, 5)" "seq_operands [''2147483647''] = Some (1, 1, INT_MAX)"
    by (simp_all add: seq_operands_def operand_def strtol_def strto_scan_def take_sign_def skip_0x_def is_digit_def digit_val_def
        is_space_def digits_value_def to_int_def INT_MAX_def LONG_MAX_def LONG_MIN_def)
  show ?thesis using seq_bad_increment [OF _ ops(1)] seq_bad_increment [OF _ ops(2)] by (simp add: INT_MAX_def del: seq_loop.simps)
qed

end
