(* ===== verification/Numbers.thy ===== *)
theory Numbers
  imports C_Prelude
begin

text \<open>
  The number exercises: the factorial of \<^verbatim>\<open>ex01/fact\<close> and \<^verbatim>\<open>ex02/dynamic+static\<close> with its combinations, the
  library of \<^verbatim>\<open>ex02/dynlink\<close>, and the Fibonacci numbers of \<^verbatim>\<open>ex03/perf\<close>.  All compute with signed machine
  integers, whose overflow is a fault; the theorems say for exactly which arguments the
  programs print the mathematical value.
\<close>

section \<open>Checked signed arithmetic\<close>

definition int_mult :: "int \<Rightarrow> int outcome \<Rightarrow> int outcome" where
  "int_mult a r = (case r of Done b \<Rightarrow> if in_int (a * b) then Done (a * b) else Fault SignedOverflow | f \<Rightarrow> f)"

definition in_long :: "int \<Rightarrow> bool" where
  "in_long v \<longleftrightarrow> LONG_MIN \<le> v \<and> v \<le> LONG_MAX"

section \<open>ex01/fact and ex02/dynamic+static\<close>

function fact_int :: "int \<Rightarrow> int outcome" where
  "fact_int number = (if number \<le> 1 then Done 1 else int_mult number (fact_int (number - 1)))"
  by pat_completeness auto
termination by (relation "measure nat") auto

declare fact_int.simps [simp del]

text \<open>The operands may be evaluated in any order; a fault of one of them is a fault of the whole.\<close>

definition comb :: "int \<Rightarrow> int \<Rightarrow> int outcome" where
  "comb upper lower =
     (case fact_int upper of
        Done u \<Rightarrow>
          (case fact_int (upper - lower) of
             Done d \<Rightarrow>
               (case int_mult d (fact_int lower) of
                  Done p \<Rightarrow> if p = 0 then Fault DivByZero else Done (c_div u p)
                | f \<Rightarrow> f)
           | f \<Rightarrow> f)
      | f \<Rightarrow> f)"

text \<open>The value of an argument: \<^verbatim>\<open>strtol\<close>, stored in an \<^verbatim>\<open>int\<close>.\<close>

definition int_arg :: "string \<Rightarrow> int" where
  "int_arg s = to_int (fst (strtol 10 s))"

definition wrong_amount :: event where "wrong_amount = Stderr (''Wrong amount of arguments'' @ [nl])"
definition negative_input :: event where "negative_input = Stderr (''Negative number on input'' @ [nl])"

definition print_int :: "int outcome \<Rightarrow> event list \<times> int outcome" where
  "print_int r =
     (case r of Done v \<Rightarrow> ([Stdout (show_int v @ [nl])], Done 0) | f \<Rightarrow> ([], f))"

definition fact_main :: "string list \<Rightarrow> event list \<times> int outcome" where
  "fact_main args =
     (case args of
        [a] \<Rightarrow> if int_arg a < 0 then ([negative_input], Done 1) else print_int (fact_int (int_arg a))
      | _ \<Rightarrow> ([wrong_amount], Done 1))"

definition comb_main :: "string list \<Rightarrow> event list \<times> int outcome" where
  "comb_main args =
     (case args of
        [a, b] \<Rightarrow>
          if int_arg a < 0 \<or> int_arg b < 0 then ([negative_input], Done 1)
          else print_int (comb (int_arg a) (int_arg b))
      | _ \<Rightarrow> ([wrong_amount], Done 1))"

section \<open>ex02/dynlink\<close>

text \<open>The library leaves the program at its first statement; its loop is never reached.\<close>

type_synonym number = byte

definition factorial :: "number \<Rightarrow> number outcome" where
  "factorial n = Exit EXIT_FAILURE"

text \<open>
  \<^verbatim>\<open>factorial.c\<close>: a number above \<^verbatim>\<open>LLONG_MAX\<close> sets \<^verbatim>\<open>errno\<close> to \<^verbatim>\<open>ERANGE\<close> (34); \<^verbatim>\<open>*endp\<close> is checked, an empty argument is 0.
\<close>

fun factorial_loop :: "string list \<Rightarrow> event list \<times> int" where
  "factorial_loop [] = ([], EXIT_SUCCESS)"
| "factorial_loop (a # as) =
     (let (user_input, endp, range) = strtol 10 a; err = (if range then 34 else 0)
      in if err \<noteq> 0 \<or> endp \<noteq> [] \<or> user_input < 0
         then ([Error err (a @ '': not a positive integer'')], EXIT_FAILURE)
         else case factorial (word_of_int user_input) of
           Done result \<Rightarrow>
             (let (evs, code) = factorial_loop as
              in (Stdout (show_int user_input @ ''! = '' @ show_nat (unat result) @ [nl]) # evs, code))
         | Exit c \<Rightarrow> ([], c)
         | Fault f \<Rightarrow> ([], EXIT_FAILURE))"

definition factorial_main :: "string list \<Rightarrow> event list \<times> int" where
  "factorial_main argv =
     (case argv of
        [argv0] \<Rightarrow> ([Stderr (''usage: '' @ argv0 @ '' NUMBER [NUMBER...]'' @ [nl])], EXIT_FAILURE)
      | _ # args \<Rightarrow> factorial_loop args
      | [] \<Rightarrow> factorial_loop [])"

section \<open>ex03/perf\<close>

definition long_add :: "int outcome \<Rightarrow> int outcome \<Rightarrow> int outcome" where
  "long_add r s =
     (case r of
        Done a \<Rightarrow> (case s of Done b \<Rightarrow> if in_long (a + b) then Done (a + b) else Fault SignedOverflow | f \<Rightarrow> f)
      | f \<Rightarrow> f)"

function fib_long :: "int \<Rightarrow> int outcome" where
  "fib_long n = (if n \<le> 1 then Done 1 else long_add (fib_long (n - 1)) (fib_long (n - 2)))"
  by pat_completeness auto
termination by (relation "measure nat") auto

declare fib_long.simps [simp del]

definition fib_main :: "string list \<Rightarrow> event list \<times> int outcome" where
  "fib_main argv =
     (case argv of
        [argv0, a] \<Rightarrow>
          (let (n, endp, range) = strtol 10 a
           in if endp = a \<or> endp \<noteq> [] \<or> range \<or> n < 0 then ([Stderr (a @ '': Invalid number'' @ [nl])], Done EXIT_FAILURE)
              else case fib_long n of
                Done v \<Rightarrow> ([Stdout (show_int v @ [nl])], Done EXIT_SUCCESS)
              | f \<Rightarrow> ([], f))
      | _ \<Rightarrow> ([Stderr (''usage: '' @ (case argv of p # _ \<Rightarrow> p | [] \<Rightarrow> []) @ '' NUMBER'' @ [nl])], Done EXIT_FAILURE))"

section \<open>Factorials and binomial coefficients\<close>

lemma fact_int_step: "fact_int (int (Suc n)) = (if n = 0 then Done 1 else int_mult (int (Suc n)) (fact_int (int n)))"
  by (subst fact_int.simps) auto

lemma fact_int_small: "n \<le> 12 \<Longrightarrow> fact_int (int n) = Done (fact n)"
proof (induction n)
  case 0
  show ?case by (subst fact_int.simps) simp
next
  case (Suc n)
  have "fact (Suc n) \<le> (fact 12 :: int)" using Suc.prems by (intro fact_mono) simp
  also have "(fact 12 :: int) = 479001600" by (simp add: fact_numeral)
  finally have "int (Suc n) * fact n \<le> 479001600" by simp
  moreover have "0 \<le> int (Suc n) * fact n" by simp
  ultimately have "in_int (int (Suc n) * fact n)" unfolding in_int_def INT_MAX_def INT_MIN_def by linarith
  then show ?case unfolding fact_int_step using Suc by (simp add: int_mult_def)
qed

lemma fact_int_large: "12 < n \<Longrightarrow> fact_int (int n) = Fault SignedOverflow"
proof (induction n)
  case (Suc n)
  show ?case
  proof (cases "n = 12")
    case True
    have "fact_int 12 = Done (fact 12)" using fact_int_small [of 12] by simp
    then show ?thesis unfolding True fact_int_step
      by (simp add: int_mult_def fact_numeral in_int_def INT_MAX_def)
  next
    case False
    with Suc show ?thesis unfolding fact_int_step by (simp add: int_mult_def)
  qed
qed simp

lemma fact_int_neg: "n \<le> 0 \<Longrightarrow> fact_int n = Done 1"
  by (subst fact_int.simps) simp

lemma fact_int_nat: "fact_int (int n) = (if n \<le> 12 then Done (fact n) else Fault SignedOverflow)"
  using fact_int_small [of n] fact_int_large [of n] by simp

lemma comb_small:
  assumes "u \<le> 12" "l \<le> 12"
  shows "comb (int u) (int l) = Done (if u = 0 \<and> l = 1 then 1 else int (u choose l))"
proof (cases "l \<le> u")
  case True
  have prod: "fact (u - l) * fact l * (u choose l) = (fact u :: nat)"
    using binomial_fact_lemma [OF True] by (simp add: mult.commute mult.left_commute)
  then have "fact (u - l) * fact l \<le> (fact u :: nat)" using True
    by (metis dvd_imp_le dvd_triv_left fact_gt_zero)
  also have "\<dots> \<le> fact 12" using assms(1) by (intro fact_mono_nat)
  also have "(fact 12 :: nat) = 479001600" by (simp add: fact_numeral)
  finally have "fact (u - l) * fact l \<le> (479001600 :: nat)" .
  then have "int (fact (u - l) * fact l) \<le> 479001600" by linarith
  then have fits: "in_int (fact (u - l) * fact l)" and pos: "0 < fact (u - l) * (fact l :: int)"
    by (simp_all add: in_int_def INT_MAX_def INT_MIN_def order_trans [of _ 0])
  have "(fact u :: int) = (fact (u - l) * fact l) * int (u choose l)"
    using arg_cong [OF prod, of int] by simp
  then have "c_div (fact u) (fact (u - l) * fact l) = int (u choose l)"
    using pos by (subst c_div_nonneg) auto
  moreover have "fact_int (int u - int l) = Done (fact (u - l))"
    using fact_int_small [of "u - l"] assms(1) True by (simp add: of_nat_diff)
  ultimately show ?thesis using assms True fits pos by (auto simp: comb_def fact_int_nat int_mult_def)
next
  case False
  then have "fact_int (int u - int l) = Done 1" by (intro fact_int_neg) simp
  moreover have "u = 0 \<and> l = 1 \<or> (fact u :: int) < fact l"
  proof (cases "u = 0")
    case True
    have "l = 1 \<or> (fact 1 :: int) < fact l" using False True fact_less_mono [of 1 l, where ?'a = int] by fastforce
    then show ?thesis using True by auto
  qed (use False in \<open>auto intro: fact_less_mono\<close>)
  moreover have "in_int (fact l)"
  proof -
    have "(fact l :: int) \<le> fact 12" using assms(2) by (intro fact_mono)
    then show ?thesis by (simp add: fact_numeral in_int_def INT_MAX_def INT_MIN_def order_trans [of _ 0])
  qed
  ultimately show ?thesis using assms False
    by (auto simp: comb_def fact_int_nat int_mult_def c_div_nonneg binomial_eq_0)
qed

lemma comb_large: "12 < u \<or> 12 < l \<Longrightarrow> comb (int u) (int l) = Fault SignedOverflow"
proof (cases "12 < u")
  case False
  assume "12 < u \<or> 12 < l"
  with False have l: "u \<le> 12" "12 < l" by auto
  then have "fact_int (int u - int l) = Done 1" by (intro fact_int_neg) simp
  with l show ?thesis by (simp add: comb_def fact_int_nat int_mult_def)
qed (simp add: comb_def fact_int_nat)

text \<open>
  \<^verbatim>\<open>comb\<close> prints the binomial coefficient of its two arguments whenever both are at most 12, with the one
  exception of 0 over 1, for which it prints 1; every larger argument overflows.  Negative
  numbers are refused.
\<close>

theorem comb_main_correct:
  shows "comb_main [a, b] =
    (let u = int_arg a; l = int_arg b
     in if u < 0 \<or> l < 0 then ([negative_input], Done 1)
        else if 12 < u \<or> 12 < l then ([], Fault SignedOverflow)
        else ([Stdout ((if u = 0 \<and> l = 1 then ''1'' else show_nat (nat u choose nat l)) @ [nl])], Done 0))"
proof -
  define u l where "u = nat (int_arg a)" and "l = nat (int_arg b)"
  show ?thesis
  proof (cases "int_arg a < 0 \<or> int_arg b < 0")
    case False
    then have nat: "int_arg a = int u" "int_arg b = int l" by (simp_all add: u_def l_def)
    show ?thesis
    proof (cases "12 < u \<or> 12 < l")
      case True
      then have "12 < int u \<or> 12 < int l" by auto
      then show ?thesis using comb_large [OF True] by (simp add: comb_main_def nat print_int_def)
    next
      case small: False
      then have "\<not> (12 < int u \<or> 12 < int l)" by auto
      moreover have "comb (int u) (int l) = Done (if u = 0 \<and> l = 1 then 1 else int (u choose l))"
        using small by (intro comb_small) auto
      ultimately show ?thesis by (simp add: comb_main_def nat print_int_def c_eval)
    qed
  qed (simp add: comb_main_def)
qed

section \<open>Fibonacci numbers\<close>

fun fib :: "nat \<Rightarrow> nat" where
  "fib 0 = 1"
| "fib (Suc 0) = 1"
| "fib (Suc (Suc n)) = fib (Suc n) + fib n"

text \<open>A pair of neighbours, for evaluation.\<close>

primrec fib2 :: "nat \<Rightarrow> int \<times> int" where
  "fib2 0 = (1, 1)"
| "fib2 (Suc n) = (let (a, b) = fib2 n in (b, a + b))"

lemma fib2_fib: "fib2 n = (int (fib n), int (fib (Suc n)))"
  by (induction n) (simp_all add: add.commute)

lemma fib_91: "int (fib 91) = 7540113804746346429" and fib_92: "int (fib (Suc 91)) = 12200160415121876738"
proof -
  have "fib2 91 = (7540113804746346429, 12200160415121876738)" by code_simp
  then show "int (fib 91) = 7540113804746346429" "int (fib (Suc 91)) = 12200160415121876738"
    by (simp_all only: fib2_fib prod.inject)
qed

lemma fib_mono: "m \<le> n \<Longrightarrow> fib m \<le> fib n"
proof (induction n)
  case (Suc n)
  have "fib n \<le> fib (Suc n)" by (cases n) auto
  with Suc show ?case by (cases "m = Suc n") auto
qed simp

lemma fib_long_step: "fib_long (int (Suc (Suc n))) = long_add (fib_long (int (Suc n))) (fib_long (int n))"
proof -
  have "int (Suc (Suc n)) - 1 = int (Suc n)" "int (Suc (Suc n)) - 2 = int n" by simp_all
  then show ?thesis by (subst fib_long.simps) simp
qed

lemma fib_long_small: "n \<le> 91 \<Longrightarrow> fib_long (int n) = Done (int (fib n))"
proof (induction n rule: fib.induct)
  case (3 n)
  have "int (fib (Suc (Suc n))) \<le> int (fib 91)" using "3.prems" fib_mono [of "Suc (Suc n)" 91] by linarith
  then have "in_long (int (fib (Suc n)) + int (fib n))" unfolding fib_91 by (simp add: in_long_def LONG_MAX_def LONG_MIN_def)
  then show ?case using 3 unfolding fib_long_step by (simp add: long_add_def)
qed (subst fib_long.simps, simp)+

lemma fib_long_large: "91 < n \<Longrightarrow> fib_long (int n) = Fault SignedOverflow"
proof (induction n rule: fib.induct)
  case (3 n)
  show ?case
  proof (cases "Suc n = 91")
    case True
    have "int (fib (Suc n)) + int (fib n) = int (fib (Suc (Suc n)))" by simp
    also have "\<dots> = 12200160415121876738" unfolding True by (rule fib_92)
    finally have "\<not> in_long (int (fib (Suc n)) + int (fib n))" by (simp add: in_long_def LONG_MAX_def)
    then show ?thesis using fib_long_small [of "Suc n"] fib_long_small [of n] True
      unfolding fib_long_step by (simp add: long_add_def)
  next
    case False
    with 3 show ?thesis unfolding fib_long_step by (simp add: long_add_def)
  qed
qed simp_all

text \<open>
  The exponential recursion of \<^verbatim>\<open>fib\<close> prints the right Fibonacci number for every argument up to 91, overflows
  a \<^verbatim>\<open>long\<close> for every larger one, and refuses arguments that are no \<^verbatim>\<open>long\<close> at all.
\<close>

theorem fib_main_correct:
  "fib_main [argv0, show_nat n] =
     (if int n > LONG_MAX then ([Stderr (show_nat n @ '': Invalid number'' @ [nl])], Done EXIT_FAILURE)
      else if n \<le> 91 then ([Stdout (show_nat (fib n) @ [nl])], Done EXIT_SUCCESS)
      else ([], Fault SignedOverflow))"
  using fib_long_small [of n] fib_long_large [of n] show_nat_nonempty [of n, THEN not_sym]
  by (simp add: fib_main_def strtol_show_nat show_int_def LONG_MAX_def)

text \<open>The library of \<^verbatim>\<open>ex02/dynlink\<close> never returns: a valid number ends the program with failure and without output.\<close>

lemma factorial_main_fails:
  "int n \<le> LONG_MAX \<Longrightarrow> factorial_main (argv0 # show_nat n # args) = ([], EXIT_FAILURE)"
  by (simp add: factorial_main_def strtol_show_nat factorial_def)

section \<open>ex01/bytes\<close>

text \<open>
  The results of the successive \<^verbatim>\<open>scanf("%ld", &input)\<close>: a number, or input that is none; the end of the list is \<^verbatim>\<open>EOF\<close>.
\<close>

datatype scan_result = ScanLong "64 word" | NoMatch

definition hex_token :: "64 word \<Rightarrow> string" where
  "hex_token v = pad_left 2 (CHR ''0'') (show_base 16 (unat v)) @ '' ''"

text \<open>The inner loop, with the number of rounds left; the shift of a signed number copies the sign.\<close>

fun byte_loop :: "nat \<Rightarrow> 64 word \<Rightarrow> string" where
  "byte_loop 0 input = []"
| "byte_loop (Suc n) input = hex_token input @ byte_loop n (signed_drop_bit 8 input)"

fun bytes_main :: "scan_result list \<Rightarrow> event list \<times> int" where
  "bytes_main [] = ([Stdout [nl]], EXIT_SUCCESS)"
| "bytes_main (NoMatch # rs) = ([Stderr (''Wrong args bruh'' @ [nl])], EXIT_FAILURE)"
| "bytes_main (ScanLong v # rs) = (let (evs, code) = bytes_main rs in (Stdout (byte_loop 8 v @ [nl]) # evs, code))"

text \<open>What a dump of the memory would print: the eight bytes, the lowest first.\<close>

definition memory_dump :: "64 word \<Rightarrow> string" where
  "memory_dump v = concat (map (\<lambda>i. hex_token (drop_bit (8 * i) v AND 0xff)) [0..<8])"

lemma byte_loop_tokens: "byte_loop n v = concat (map (\<lambda>i. hex_token (signed_drop_bit (8 * i) v)) [0..<n])"
proof (induction n arbitrary: v)
  case (Suc n)
  have shift: "signed_drop_bit (8 * i) (signed_drop_bit 8 v) = signed_drop_bit (8 * Suc i) v" for i
    by (simp add: add.commute)
  have "[0..<Suc n] = 0 # map Suc [0..<n]" by (simp add: map_Suc_upt upt_conv_Cons)
  then show ?case by (simp add: Suc.IH shift comp_def add.commute)
qed simp

lemma byte_loop_small:
  assumes "v < 256"
  shows "byte_loop 8 v = memory_dump v"
proof -
  have "unat v < 2 ^ 8" using assms by (simp add: word_less_nat_alt)
  then have "unat (take_bit 8 v) = unat v" by (simp add: unsigned_take_bit_eq take_bit_nat_eq_self_iff)
  then have "take_bit 8 v = v" by (simp add: word_unat_eq_iff)
  then have bits: "bit v k \<Longrightarrow> k < 8" for k by (metis bit_take_bit_iff)
  have mask: "(0xff :: 64 word) = mask 8" by (simp add: mask_eq_exp_minus_1)
  have "signed_drop_bit (8 * i) v = drop_bit (8 * i) v AND 0xff" for i
    unfolding mask by (rule bit_word_eqI) (auto simp: bit_signed_drop_bit_iff bit_drop_bit_eq bit_mask_iff bit_and_iff dest: bits)
  then show ?thesis by (simp only: byte_loop_tokens memory_dump_def)
qed

lemma show_base_16_long: "256 \<le> n \<Longrightarrow> 2 < length (show_base 16 n)"
  by (subst show_base.simps, subst show_base.simps) (use div_le_mono [of 256 n 16] in \<open>auto simp: not_less length_greater_0_conv\<close>)

lemma hex_token_short: "v < 256 \<Longrightarrow> length (hex_token v) = 3"
proof -
  assume "v < 256"
  then have "unat v div 16 < 16" by (simp add: word_less_nat_alt)
  then have "length (show_base 16 (unat v)) \<le> 2" by (subst show_base.simps, subst show_base.simps) simp
  then show ?thesis by (simp add: hex_token_def pad_left_def)
qed

lemma hex_token_length: "3 \<le> length (hex_token v)" "256 \<le> v \<Longrightarrow> 3 < length (hex_token v)"
  using show_base_16_long [of "unat v"] by (auto simp: hex_token_def pad_left_def word_le_nat_alt)

lemma length_memory_dump: "length (memory_dump v) = 24"
proof -
  have "w AND 0xff < 256" for w :: "64 word"
    using word_and_le1 [of w "0xff"] by (rule order.strict_trans1) simp
  then show ?thesis by (simp add: memory_dump_def hex_token_short upt_rec numeral_eq_Suc)
qed

lemma byte_loop_length: "3 * n \<le> length (byte_loop n v)"
  by (induction n arbitrary: v) (auto intro: add_mono hex_token_length simp: hex_token_length)

text \<open>
  \<^verbatim>\<open>bytes\<close> is meant to print the bytes of a number; it prints the whole rest of the number each time.  A line
  is the dump of the eight bytes in memory exactly for the numbers from 0 to 255.
\<close>

theorem bytes_dump_exact: "byte_loop 8 v = memory_dump v \<longleftrightarrow> v < 256"
proof (cases "v < 256")
  case False
  have "byte_loop 8 v = hex_token v @ byte_loop 7 (signed_drop_bit 8 v)"
    using byte_loop.simps(2) [of 7] by simp
  then have "24 < length (byte_loop 8 v)"
    using byte_loop_length [of 7 "signed_drop_bit 8 v"] hex_token_length(2) [of v] False by (simp add: not_less)
  then show ?thesis using False length_memory_dump [of v] by auto
qed (simp add: byte_loop_small)

end
