(* ===== verification/Tls.thy ===== *)
theory Tls
  imports C_Prelude
begin

text \<open>
  \<^verbatim>\<open>ex08/tls/tls.c\<close>: five threads and the main thread store their number in an automatic variable, a static
  variable, a \<^verbatim>\<open>__thread\<close> variable and under a \<^verbatim>\<open>pthread\<close> key, meet at a barrier and print all four.  Each
  thread is a control point with its variables; \<open>tls_run\<close> is one step of one thread.  The barrier of
  \<^verbatim>\<open>main\<close> is set up for the number of threads in the list, main included (thread 0 of the list).
\<close>

section \<open>State\<close>

datatype tls_pc =
    NotStarted | Creating nat
  | SetLocal | SetStatic | SetTls | Malloc | SetKey | AtBarrier | Blocked | Print
  | Joining nat | Finished | Aborted | Returned

record tls_thread =
  td_id :: int
  td_pc :: tls_pc
  id_local :: int
  id_thread :: int
  id_specific :: "int option"

text \<open>\<open>dead\<close>: the process has ended, by \<^verbatim>\<open>error(EXIT_FAILURE, ...)\<close> or by the return of \<^verbatim>\<open>main\<close>.\<close>

record tls_sys =
  threads :: "tls_thread list"
  id_static :: int
  arrived :: nat
  printed :: "(int \<times> int \<times> int \<times> int \<times> int) list"
  dead :: bool

definition set_thread_data :: "int \<Rightarrow> tls_pc \<Rightarrow> tls_thread" where
  "set_thread_data i pc = \<lparr>td_id = i, td_pc = pc, id_local = 0, id_thread = 0, id_specific = None\<rparr>"

text \<open>Main has the number -1, the threads that it creates are numbered from 0.\<close>

definition tls_init :: "nat \<Rightarrow> tls_sys" where
  "tls_init n =
     \<lparr>threads = set_thread_data (- 1) (Creating 1) # map (\<lambda>i. set_thread_data (int i) NotStarted) [0..<n],
      id_static = 0, arrived = 0, printed = [], dead = False\<rparr>"

section \<open>Steps\<close>

definition upd_thread :: "nat \<Rightarrow> (tls_thread \<Rightarrow> tls_thread) \<Rightarrow> tls_sys \<Rightarrow> tls_sys" where
  "upd_thread i f s = s\<lparr>threads := (threads s)[i := f (threads s ! i)]\<rparr>"

definition goto :: "nat \<Rightarrow> tls_pc \<Rightarrow> tls_sys \<Rightarrow> tls_sys" where
  "goto i pc = upd_thread i (\<lambda>t. t\<lparr>td_pc := pc\<rparr>)"

definition release :: "tls_thread \<Rightarrow> tls_thread" where
  "release t = (if td_pc t = Blocked then t\<lparr>td_pc := Print\<rparr> else t)"

text \<open>The end of \<^verbatim>\<open>run_thread\<close>: a thread ends, main goes on to join the others.\<close>

definition after_run :: "nat \<Rightarrow> tls_pc" where
  "after_run i = (if i = 0 then Joining 1 else Finished)"

text \<open>
  One step of thread \<open>i\<close>; \<open>ok\<close> tells whether the call in it succeeds (\<^verbatim>\<open>pthread_create\<close>, \<^verbatim>\<open>malloc\<close>,
  \<^verbatim>\<open>pthread_setspecific\<close>).  \<open>None\<close>: the thread cannot move.
\<close>

definition tls_run :: "bool \<Rightarrow> nat \<Rightarrow> tls_sys \<Rightarrow> tls_sys option" where
  "tls_run ok i s =
     (if dead s \<or> i \<ge> length (threads s) then None
      else let t = threads s ! i
        in case td_pc t of
             NotStarted \<Rightarrow> None
           | Creating k \<Rightarrow>
               if k = length (threads s) then Some (goto i SetLocal s)
               else if k > length (threads s) \<or> td_pc (threads s ! k) \<noteq> NotStarted then None
               else if ok then Some (goto i (Creating (Suc k)) (goto k SetLocal s))
               else Some (s\<lparr>dead := True\<rparr>)
           | SetLocal \<Rightarrow> Some (upd_thread i (\<lambda>t. t\<lparr>id_local := td_id t, td_pc := SetStatic\<rparr>) s)
           | SetStatic \<Rightarrow> Some (goto i SetTls (s\<lparr>id_static := td_id t\<rparr>))
           | SetTls \<Rightarrow> Some (upd_thread i (\<lambda>t. t\<lparr>id_thread := td_id t, td_pc := Malloc\<rparr>) s)
           | Malloc \<Rightarrow> Some (goto i (if ok then SetKey else Aborted) s)
           | SetKey \<Rightarrow>
               Some (if ok then upd_thread i (\<lambda>t. t\<lparr>id_specific := Some (td_id t), td_pc := AtBarrier\<rparr>) s else goto i Aborted s)
           | AtBarrier \<Rightarrow>
               (let s' = goto i Blocked (s\<lparr>arrived := Suc (arrived s)\<rparr>)
                in if arrived s' = length (threads s) then Some (s'\<lparr>threads := map release (threads s')\<rparr>) else Some s')
           | Blocked \<Rightarrow> None
           | Print \<Rightarrow>
               (case id_specific t of
                  None \<Rightarrow> None
                | Some v \<Rightarrow>
                    Some (goto i (after_run i) (s\<lparr>printed := printed s @ [(td_id t, id_local t, id_static s, id_thread t, v)]\<rparr>)))
           | Joining k \<Rightarrow>
               if k \<ge> length (threads s) then Some (goto i Returned (s\<lparr>dead := True\<rparr>))
               else if td_pc (threads s ! k) \<in> {Finished, Aborted} then Some (goto i (Joining (Suc k)) s)
               else None
           | Finished \<Rightarrow> None
           | Aborted \<Rightarrow> None
           | Returned \<Rightarrow> None)"

inductive tls_step :: "tls_sys \<Rightarrow> tls_sys \<Rightarrow> bool" where
  tls_moves: "tls_run ok i s = Some t \<Longrightarrow> tls_step s t"

inductive_cases tls_stepE: "tls_step s t"

section \<open>The invariant\<close>

text \<open>How far a thread has come; a thread that gave up counts as one that never arrives.\<close>

fun rank :: "tls_pc \<Rightarrow> nat" where
  "rank SetLocal = 1" | "rank SetStatic = 2" | "rank SetTls = 3" | "rank Malloc = 4" | "rank SetKey = 5"
| "rank AtBarrier = 6" | "rank Blocked = 7" | "rank Print = 8" | "rank (Joining _) = 9" | "rank Finished = 9" | "rank Returned = 9"
| "rank NotStarted = 0" | "rank (Creating _) = 0" | "rank Aborted = 0"

text \<open>The variables that a thread has set so far hold its number.\<close>

definition own_data :: "tls_thread \<Rightarrow> bool" where
  "own_data t \<longleftrightarrow> (2 \<le> rank (td_pc t) \<longrightarrow> id_local t = td_id t) \<and> (4 \<le> rank (td_pc t) \<longrightarrow> id_thread t = td_id t) \<and>
     (6 \<le> rank (td_pc t) \<longrightarrow> id_specific t = Some (td_id t))"

abbreviation here :: "tls_thread \<Rightarrow> bool" where "here t \<equiv> 7 \<le> rank (td_pc t)"
abbreviation beyond :: "tls_thread \<Rightarrow> bool" where "beyond t \<equiv> 8 \<le> rank (td_pc t)"

definition tls_inv :: "tls_sys \<Rightarrow> bool" where
  "tls_inv s \<longleftrightarrow>
     list_all own_data (threads s) \<and>
     arrived s = length (filter here (threads s)) \<and>
     (list_ex beyond (threads s) \<longrightarrow> list_all here (threads s)) \<and>
     (list_ex (\<lambda>t. 3 \<le> rank (td_pc t)) (threads s) \<longrightarrow> id_static s \<in> td_id ` set (threads s)) \<and>
     (printed s \<noteq> [] \<longrightarrow> list_ex beyond (threads s)) \<and>
     list_all (\<lambda>(a, l, st, th, v). l = a \<and> th = a \<and> v = a \<and> st = id_static s) (printed s)"

lemma ids_update: "i < length xs \<Longrightarrow> td_id t = td_id (xs ! i) \<Longrightarrow> td_id ` set (xs[i := t]) = td_id ` set xs"
  using arg_cong [OF map_update [of td_id xs i t], of set] list_update_id [of "map td_id xs" i] by simp

lemma list_all_update: "list_all P xs \<Longrightarrow> P x \<Longrightarrow> list_all P (xs[i := x])"
  using set_update_subset_insert [of xs i x] by (auto simp: list_all_iff)

lemma list_ex_update: "i < length xs \<Longrightarrow> P x = P (xs ! i) \<Longrightarrow> list_ex P (xs[i := x]) = list_ex P xs"
  by (auto simp: list_ex_length nth_list_update)

lemma list_all_update_iff: "i < length xs \<Longrightarrow> P x = P (xs ! i) \<Longrightarrow> list_all P (xs[i := x]) = list_all P xs"
  by (auto simp: list_all_length nth_list_update)

lemma list_ex_update_mono: "i < length xs \<Longrightarrow> (P x \<Longrightarrow> P (xs ! i)) \<Longrightarrow> list_ex P (xs[i := x]) \<Longrightarrow> list_ex P xs"
  by (auto simp: list_ex_length nth_list_update split: if_splits)

text \<open>A thread moves on its own side of the barrier.\<close>

lemma tls_move:
  assumes "tls_inv s" "i < length (threads s)" "td_id t = td_id (threads s ! i)" "own_data t"
    and "here t = here (threads s ! i)" "beyond t = beyond (threads s ! i)" "3 \<le> rank (td_pc t) \<Longrightarrow> 3 \<le> rank (td_pc (threads s ! i))"
  shows "tls_inv (s\<lparr>threads := (threads s)[i := t]\<rparr>)"
proof -
  have "length (filter here ((threads s)[i := t])) = length (filter here (threads s))"
    using length_filter_update [OF assms(2), of here t] assms(5) by simp
  moreover have "list_ex (\<lambda>t. 3 \<le> rank (td_pc t)) ((threads s)[i := t]) \<Longrightarrow> list_ex (\<lambda>t. 3 \<le> rank (td_pc t)) (threads s)"
    by (rule list_ex_update_mono [OF assms(2)]) (rule assms(7))
  ultimately show ?thesis
    using assms list_ex_update [OF assms(2), of beyond t] list_all_update_iff [OF assms(2), of here t]
      ids_update [OF assms(2,3)] list_all_update [of own_data "threads s" t i]
    by (simp add: tls_inv_def)
qed

text \<open>While some thread has not arrived nobody is beyond the barrier and nothing is printed.\<close>

lemma early:
  assumes "tls_inv s" "i < length (threads s)" "rank (td_pc (threads s ! i)) < 7"
  shows "\<not> list_ex beyond (threads s)" "printed s = []"
proof -
  have "\<not> list_all here (threads s)" using assms(2,3) by (auto simp: list_all_length)
  then show "\<not> list_ex beyond (threads s)" "printed s = []" using assms(1) by (auto simp: tls_inv_def)
qed

lemma own_data_nth: "tls_inv s \<Longrightarrow> i < length (threads s) \<Longrightarrow> own_data (threads s ! i)"
  by (auto simp: tls_inv_def list_all_length)

lemma tls_static:
  assumes "tls_inv s" "i < length (threads s)" "td_pc (threads s ! i) = SetStatic"
  shows "tls_inv (goto i SetTls (s\<lparr>id_static := td_id (threads s ! i)\<rparr>))"
proof -
  have e: "\<not> list_ex beyond (threads s)" "printed s = []" using early [OF assms(1,2)] assms(3) by auto
  have own: "own_data ((threads s ! i)\<lparr>td_pc := SetTls\<rparr>)" using own_data_nth [OF assms(1,2)] assms(3) by (simp add: own_data_def)
  have "length (filter here ((threads s)[i := (threads s ! i)\<lparr>td_pc := SetTls\<rparr>])) = length (filter here (threads s))"
    using length_filter_update [OF assms(2), of here "(threads s ! i)\<lparr>td_pc := SetTls\<rparr>"] assms(3) by simp
  then show ?thesis
    using assms e own list_ex_update [OF assms(2), of beyond "(threads s ! i)\<lparr>td_pc := SetTls\<rparr>"]
      ids_update [OF assms(2), of "(threads s ! i)\<lparr>td_pc := SetTls\<rparr>"] list_all_update [of own_data "threads s" _ i]
    by (simp add: tls_inv_def goto_def upd_thread_def)
qed

lemma length_filter_all: "length (filter P xs) = length xs \<Longrightarrow> list_all P xs"
  by (metis filter_id_conv length_filter_less less_irrefl list_all_iff)

lemma release_props [simp]:
  "td_id (release t) = td_id t" "own_data (release t) = own_data t" "here (release t) = here t"
  "(3 \<le> rank (td_pc (release t))) = (3 \<le> rank (td_pc t))"
  by (auto simp: release_def own_data_def)

lemma tls_barrier:
  assumes "tls_inv s" "i < length (threads s)" "td_pc (threads s ! i) = AtBarrier"
  defines "s' \<equiv> goto i Blocked (s\<lparr>arrived := Suc (arrived s)\<rparr>)"
  shows "tls_inv s'" and "arrived s' = length (threads s) \<Longrightarrow> tls_inv (s'\<lparr>threads := map release (threads s')\<rparr>)"
proof -
  let ?t = "(threads s ! i)\<lparr>td_pc := Blocked\<rparr>"
  have e: "\<not> list_ex beyond (threads s)" "printed s = []" using early [OF assms(1,2)] assms(3) by auto
  have own: "own_data ?t" using own_data_nth [OF assms(1,2)] assms(3) by (simp add: own_data_def)
  have cnt: "length (filter here ((threads s)[i := ?t])) = Suc (length (filter here (threads s)))"
    using length_filter_update [OF assms(2), of here ?t] assms(3) by simp
  have st: "id_static s \<in> td_id ` set (threads s)"
  proof -
    have "list_ex (\<lambda>t. 3 \<le> rank (td_pc t)) (threads s)" using assms(2,3) by (auto simp: list_ex_length)
    then show ?thesis using assms(1) by (simp add: tls_inv_def)
  qed
  show inv: "tls_inv s'"
    using assms(1-3) e own cnt st list_ex_update [OF assms(2), of beyond ?t] ids_update [OF assms(2), of ?t]
      list_all_update [of own_data "threads s" ?t i]
    by (simp add: tls_inv_def s'_def goto_def upd_thread_def)
  assume full: "arrived s' = length (threads s)"
  have all: "list_all here (threads s')"
    by (rule length_filter_all) (use full inv in \<open>simp add: tls_inv_def s'_def goto_def upd_thread_def\<close>)
  have "list_ex P (map release xs) = list_ex (\<lambda>t. P (release t)) xs" "list_all P (map release xs) = list_all (\<lambda>t. P (release t)) xs"
    "td_id ` release ` X = td_id ` X" for P xs X
    by (simp_all add: list_ex_iff list_all_iff image_image)
  with inv all show "tls_inv (s'\<lparr>threads := map release (threads s')\<rparr>)"
    using e by (simp add: tls_inv_def filter_map comp_def s'_def goto_def upd_thread_def)
qed

lemma tls_print:
  assumes "tls_inv s" "i < length (threads s)" "td_pc (threads s ! i) = Print"
  shows "tls_inv (goto i (after_run i) (s\<lparr>printed := printed s @ [(td_id (threads s ! i), id_local (threads s ! i), id_static s, id_thread (threads s ! i), td_id (threads s ! i))]\<rparr>))"
proof -
  let ?t = "(threads s ! i)\<lparr>td_pc := after_run i\<rparr>"
  have own: "own_data (threads s ! i)" by (rule own_data_nth [OF assms(1,2)])
  have "tls_inv (s\<lparr>threads := (threads s)[i := ?t]\<rparr>)"
    by (rule tls_move [OF assms(1,2)]) (use own assms(3) in \<open>auto simp: own_data_def after_run_def\<close>)
  moreover have "list_ex beyond ((threads s)[i := ?t])"
    using assms(2,3) by (auto simp: list_ex_length after_run_def intro!: exI [of _ i])
  ultimately show ?thesis using own assms(3)
    by (simp add: tls_inv_def own_data_def goto_def upd_thread_def)
qed

lemma tls_inv_dead [simp]: "tls_inv (s\<lparr>dead := d\<rparr>) = tls_inv s"
  by (simp add: tls_inv_def)

lemma tls_goto_dead [simp]: "goto i pc (s\<lparr>dead := d\<rparr>) = (goto i pc s)\<lparr>dead := d\<rparr>"
  by (simp add: goto_def upd_thread_def)

lemma tls_goto:
  assumes "tls_inv s" "i < length (threads s)" "own_data ((threads s ! i)\<lparr>td_pc := pc\<rparr>)"
    and "7 \<le> rank pc \<longleftrightarrow> here (threads s ! i)" "8 \<le> rank pc \<longleftrightarrow> beyond (threads s ! i)"
    and "3 \<le> rank pc \<Longrightarrow> 3 \<le> rank (td_pc (threads s ! i))"
  shows "tls_inv (goto i pc s)"
  unfolding goto_def upd_thread_def by (rule tls_move [OF assms(1,2)]) (use assms in auto)

lemma tls_inv_step: "tls_inv s \<Longrightarrow> tls_step s t \<Longrightarrow> tls_inv t"
proof (elim tls_stepE)
  fix ok i
  assume inv: "tls_inv s" and run: "tls_run ok i s = Some t"
  have i: "i < length (threads s)" using run by (auto simp: tls_run_def split: if_splits)
  note own = own_data_nth [OF inv i]
  show "tls_inv t"
  proof (cases "td_pc (threads s ! i)")
    case (Creating k)
    have one: "tls_inv (goto i pc s)" if "rank pc < 2" for pc
      by (rule tls_goto [OF inv i]) (use Creating that in \<open>auto simp: own_data_def\<close>)
    have two: "tls_inv (goto i (Creating (Suc k)) (goto k SetLocal s))" if k: "k < length (threads s)" "td_pc (threads s ! k) = NotStarted"
    proof -
      have "tls_inv (goto k SetLocal s)" by (rule tls_goto [OF inv k(1)]) (use k(2) in \<open>auto simp: own_data_def\<close>)
      then show ?thesis
        by (rule tls_goto) (use i k Creating in \<open>auto simp: own_data_def goto_def upd_thread_def nth_list_update\<close>)
    qed
    show ?thesis using run Creating one [of SetLocal] two inv by (auto simp: tls_run_def Let_def split: if_splits)
  next
    case SetLocal
    then have "t = s\<lparr>threads := (threads s)[i := (threads s ! i)\<lparr>id_local := td_id (threads s ! i), td_pc := SetStatic\<rparr>]\<rparr>"
      using run by (auto simp: tls_run_def Let_def upd_thread_def split: if_splits)
    moreover have "tls_inv \<dots>" by (rule tls_move [OF inv i]) (use SetLocal own in \<open>auto simp: own_data_def\<close>)
    ultimately show ?thesis by simp
  next
    case SetStatic
    then show ?thesis using run tls_static [OF inv i] by (auto simp: tls_run_def Let_def split: if_splits)
  next
    case SetTls
    then have "t = s\<lparr>threads := (threads s)[i := (threads s ! i)\<lparr>id_thread := td_id (threads s ! i), td_pc := Malloc\<rparr>]\<rparr>"
      using run by (auto simp: tls_run_def Let_def upd_thread_def split: if_splits)
    moreover have "tls_inv \<dots>" by (rule tls_move [OF inv i]) (use SetTls own in \<open>auto simp: own_data_def\<close>)
    ultimately show ?thesis by simp
  next
    case Malloc
    then show ?thesis using run tls_goto [OF inv i] own by (auto simp: tls_run_def own_data_def split: if_splits)
  next
    case SetKey
    then show ?thesis using run tls_move [OF inv i] own by (auto simp: tls_run_def goto_def upd_thread_def own_data_def split: if_splits)
  next
    case AtBarrier
    then show ?thesis using run tls_barrier [OF inv i] by (auto simp: tls_run_def Let_def split: if_splits)
  next
    case Print
    then show ?thesis using run tls_print [OF inv i] own by (auto simp: tls_run_def own_data_def Let_def split: if_splits)
  next
    case (Joining k)
    then show ?thesis using run tls_goto [OF inv i] own by (auto simp: tls_run_def own_data_def Let_def split: if_splits)
  qed (use run in \<open>auto simp: tls_run_def Let_def split: if_splits\<close>)
qed

lemma tls_inv_init: "tls_inv (tls_init n)"
  by (auto simp: tls_inv_def tls_init_def set_thread_data_def own_data_def list_all_iff list_ex_iff filter_empty_conv comp_def)

interpretation tls: invariant_system "\<lambda>s. s = tls_init n" tls_step tls_inv for n
  by unfold_locales (auto simp: tls_inv_init intro: tls_inv_step)

lemma tls_ids_step: "tls_step s t \<Longrightarrow> map td_id (threads t) = map td_id (threads s)"
proof (elim tls_stepE)
  fix ok i
  assume "tls_run ok i s = Some t"
  then show "map td_id (threads t) = map td_id (threads s)"
    by (auto simp: tls_run_def Let_def goto_def upd_thread_def map_update comp_def nth_list_update
        split: if_splits tls_pc.splits option.splits intro!: nth_equalityI)
qed

lemma tls_ids: "reaches tls_step s t \<Longrightarrow> map td_id (threads t) = map td_id (threads s)"
  by (induction rule: reaches.induct) (auto dest: tls_ids_step)

text \<open>
  What the exercise is meant to show holds in every run.  In each line that a thread prints, the automatic
  variable, the \<^verbatim>\<open>__thread\<close> variable and the value under the key are the thread's own number; the static
  variable is the number of one of the threads, and it is the same in all lines.
\<close>

theorem tls_lines:
  assumes "reaches tls_step (tls_init n) s" "(i, loc, st, thr, key) \<in> set (printed s)"
  shows "loc = i \<and> thr = i \<and> key = i \<and> st \<in> {- 1..<int n} \<and> (\<forall>(_, _, st', _, _) \<in> set (printed s). st' = st)"
proof -
  have inv: "tls_inv s" by (rule tls.inv_reachable [OF refl assms(1)])
  have all: "l = a \<and> th = a \<and> v = a \<and> st = id_static s" if "(a, l, st, th, v) \<in> set (printed s)" for a l st th v
    using inv that by (auto simp: tls_inv_def list_all_iff)
  have "list_ex beyond (threads s)" using inv assms(2) by (auto simp: tls_inv_def)
  then have "list_ex (\<lambda>t. 3 \<le> rank (td_pc t)) (threads s)" unfolding list_ex_iff by force
  then have "id_static s \<in> set (map td_id (threads s))" using inv by (simp add: tls_inv_def)
  then have "id_static s \<in> {- 1..<int n}" using tls_ids [OF assms(1)] by (auto simp: tls_init_def set_thread_data_def)
  then show ?thesis using all [OF assms(2)] by (auto dest: all)
qed

text \<open>A run given by the threads that move, all calls of which succeed.\<close>

fun tls_runs :: "nat list \<Rightarrow> tls_sys \<Rightarrow> tls_sys option" where
  "tls_runs [] s = Some s"
| "tls_runs (i # is) s = (case tls_run True i s of None \<Rightarrow> None | Some t \<Rightarrow> tls_runs is t)"

lemma tls_runs_reaches: "reaches tls_step r s \<Longrightarrow> tls_runs is s = Some t \<Longrightarrow> reaches tls_step r t"
proof (induction "is" arbitrary: s)
  case (Cons i "is")
  then obtain u where "tls_run True i s = Some u" "tls_runs is u = Some t" by (auto split: option.splits)
  with Cons show ?case by (blast intro: reaches_step tls_moves)
qed simp

theorem tls_lines_witness:
  "\<exists>s. reaches tls_step (tls_init 1) s \<and> printed s = [(0, 0, -1, 0, 0), (-1, -1, -1, -1, -1)]"
proof -
  have "tls_runs [0, 1, 1, 0, 0, 0, 0, 0, 0, 0, 1, 1, 1, 1, 1, 0] (tls_init 1) \<noteq> None \<and>
      printed (the (tls_runs [0, 1, 1, 0, 0, 0, 0, 0, 0, 0, 1, 1, 1, 1, 1, 0] (tls_init 1))) = [(0, 0, -1, 0, 0), (-1, -1, -1, -1, -1)]"
    by code_simp
  then obtain s where s: "reaches tls_step (tls_init 1) s" "printed s = [(0, 0, -1, 0, 0), (-1, -1, -1, -1, -1)]"
    using tls_runs_reaches [OF reaches_refl] by (metis option.collapse)
  then show ?thesis using tls_lines [OF s(1), of 0 0 "-1" 0 0] by auto
qed

text \<open>A thread that gives up before the barrier (no memory) leaves all the others waiting in it for ever: nothing is printed.\<close>

definition given_up :: "tls_sys \<Rightarrow> bool" where
  "given_up s \<longleftrightarrow> tls_inv s \<and> list_ex (\<lambda>t. td_pc t = Aborted) (threads s)"

lemma aborted_stays: "tls_step s t \<Longrightarrow> list_ex (\<lambda>t. td_pc t = Aborted) (threads s) \<Longrightarrow> list_ex (\<lambda>t. td_pc t = Aborted) (threads t)"
proof (elim tls_stepE)
  fix ok i
  assume run: "tls_run ok i s = Some t" and "list_ex (\<lambda>t. td_pc t = Aborted) (threads s)"
  then obtain k where k: "k < length (threads s)" "td_pc (threads s ! k) = Aborted" by (auto simp: list_ex_length)
  have "length (threads t) = length (threads s) \<and> td_pc (threads t ! k) = Aborted"
    using run k by (auto simp: tls_run_def Let_def goto_def upd_thread_def nth_list_update release_def
        split: if_splits tls_pc.splits option.splits)
  then show "list_ex (\<lambda>t. td_pc t = Aborted) (threads t)" using k(1) by (auto simp: list_ex_length)
qed

interpretation tls_up: invariant_system given_up tls_step given_up
  by unfold_locales (auto simp: given_up_def intro: tls_inv_step aborted_stays)

lemma given_up_silent: "given_up s \<Longrightarrow> reaches tls_step s t \<Longrightarrow> printed t = []"
proof -
  assume "given_up s" "reaches tls_step s t"
  then have "given_up t" by (rule tls_up.inv_reachable)
  then obtain k where "tls_inv t" "k < length (threads t)" "td_pc (threads t ! k) = Aborted"
    by (auto simp: given_up_def list_ex_length)
  then show "printed t = []" using early(2) [of t k] by simp
qed

section \<open>The main program\<close>

text \<open>
  Error numbers of the calls of \<^verbatim>\<open>main\<close>, 0 for success.  A failed \<^verbatim>\<open>pthread_key_create\<close> is reported with \<^verbatim>\<open>errno\<close> (\<open>te_errno\<close>) and not
  with its own result.
\<close>

record tls_env =
  te_malloc :: int
  te_key :: int
  te_errno :: int
  te_barrier :: int
  te_create :: "nat \<Rightarrow> int"
  te_join :: "nat \<Rightarrow> int"
  te_barrier_destroy :: int
  te_key_delete :: int

definition pad_right :: "nat \<Rightarrow> string \<Rightarrow> string" where
  "pad_right w s = s @ replicate (w - length s) (CHR '' '')"

definition tls_line :: "int \<times> int \<times> int \<times> int \<times> int \<Rightarrow> event" where
  "tls_line l =
     (let (a, lo, st, th, v) = l; col = (\<lambda>i. pad_right 3 (show_int i))
      in Stdout (''thread '' @ col a @ '' |  local='' @ col lo @ ''  static='' @ col st @ ''  __thread='' @ col th @ ''  pthread_key='' @ col v @ [nl]))"

text \<open>Starting the threads \<open>i\<close>, ..., the first failure ends the program.\<close>

fun tls_create :: "(nat \<Rightarrow> int) \<Rightarrow> nat \<Rightarrow> nat \<Rightarrow> event option" where
  "tls_create create i 0 = None"
| "tls_create create i (Suc k) =
     (if create i \<noteq> 0 then Some (Error (create i) (''Cannot start thread '' @ show_nat i)) else tls_create create (Suc i) k)"

text \<open>\<open>lines\<close> is what the threads have printed when all joins have returned.\<close>

definition tls_main :: "tls_env \<Rightarrow> (int \<times> int \<times> int \<times> int \<times> int) list \<Rightarrow> event list \<times> int" where
  "tls_main env lines =
     (if te_malloc env \<noteq> 0 then ([Error (te_malloc env) ''malloc''], EXIT_FAILURE)
      else if te_key env \<noteq> 0 then ([Error (te_errno env) ''Cannot create thread key''], EXIT_FAILURE)
      else if te_barrier env \<noteq> 0 then ([Error (te_barrier env) ''Cannto create barrier''], EXIT_FAILURE)
      else case tls_create (te_create env) 0 5 of
        Some e \<Rightarrow> ([e], EXIT_FAILURE)
      | None \<Rightarrow>
          (map tls_line lines @
           map (\<lambda>i. Error (te_join env i) (''Cannot join thread '' @ show_nat i)) (filter (\<lambda>i. te_join env i \<noteq> 0) [0..<5]) @
           (if te_barrier_destroy env \<noteq> 0 then [Error (te_barrier_destroy env) ''Cannot destroy barrier''] else []) @
           (if te_key_delete env \<noteq> 0 then [Error (te_key_delete env) ''Cannot delete thread key''] else []), EXIT_SUCCESS))"

lemma tls_create_None: "tls_create create i k = None \<longleftrightarrow> list_all (\<lambda>j. create j = 0) [i..<i + k]"
  by (induction k arbitrary: i) (auto simp: upt_rec)

text \<open>After the set-up has succeeded the exit status is success, whatever the clean-up reports.\<close>

lemma tls_main_status:
  "snd (tls_main env lines) = EXIT_SUCCESS \<longleftrightarrow>
     te_malloc env = 0 \<and> te_key env = 0 \<and> te_barrier env = 0 \<and> list_all (\<lambda>j. te_create env j = 0) [0..<5]"
  using tls_create_None [of "te_create env" 0 5] by (auto simp: tls_main_def split: option.splits)

end
