(* ===== verification/Syscount.thy ===== *)
theory Syscount
  imports C_Prelude
begin

text \<open>
  \<^verbatim>\<open>ex06/syscount\<close>: count the system calls of a child with \<^verbatim>\<open>ptrace\<close> (the branch for kernels without
  \<^verbatim>\<open>PTRACE_GET_SYSCALL_INFO\<close>, which the file selects).  What the kernel reports to the tracer is a list: for
  each round the result of \<^verbatim>\<open>waitpid\<close>, the registers and whether the child could be resumed.
\<close>

section \<open>Events of the child\<close>

datatype wstatus = WExited int | WStopped int | WSignaled int

definition SIGTRAP :: int where "SIGTRAP = 5"
definition SIGSTOP :: int where "SIGSTOP = 19"
definition SYS_fork :: nat where "SYS_fork = 57"
definition SYS_vfork :: nat where "SYS_vfork = 58"
definition SYS_clone :: nat where "SYS_clone = 56"

text \<open>
  \<open>st_wait\<close>: an error number or the status; \<open>st_regs\<close>: an error number or the registers \<^verbatim>\<open>orig_rax\<close> and \<^verbatim>\<open>rax\<close>; \<open>st_resumed\<close>: the
  success of \<^verbatim>\<open>PTRACE_SYSCALL\<close>.
\<close>

record stop =
  st_wait :: "int + wstatus"
  st_regs :: "int + (nat \<times> nat)"
  st_resumed :: bool

text \<open>The static variables of the loop: is the next trap an entry, and the registers read last.\<close>

record tracer =
  syscall_enter :: bool
  regs :: "nat \<times> nat"

definition tracer_init :: tracer where
  "tracer_init = \<lparr>syscall_enter = True, regs = (0, 0)\<rparr>"

definition forks_off :: "nat \<Rightarrow> bool" where
  "forks_off nr \<longleftrightarrow> nr \<in> {SYS_fork, SYS_vfork, SYS_clone}"

section \<open>The loop\<close>

text \<open>
  A trap: the messages, the new tracer, and the counter afterwards (\<open>None\<close>: the tracer gives up).
\<close>

definition handle_trap :: "string \<Rightarrow> tracer \<Rightarrow> nat \<Rightarrow> int + (nat \<times> nat) \<Rightarrow> event list \<times> tracer \<times> nat option" where
  "handle_trap pid tr counter r =
     (let (e0, rg) = (case r of Inl e \<Rightarrow> ([Error e (pid @ '': cannot read registers'')], regs tr) | Inr v \<Rightarrow> ([], v));
          tr' = \<lparr>syscall_enter = \<not> syscall_enter tr, regs = rg\<rparr>
      in if syscall_enter tr then
           if forks_off (fst rg) then (e0 @ [Error 0 (pid @ '': child performed an invalid syscall'')], tr\<lparr>regs := rg\<rparr>, None)
           else (e0 @ [Stdout (pid @ '': child enters syscall '' @ show_nat (fst rg) @ [nl])], tr', Some (counter + 1))
         else (e0 @ [Stdout (pid @ '': child leaves syscall with result 0x'' @ show_base 16 (snd rg) @ [nl])], tr', Some counter))"

text \<open>The result is \<open>None\<close> while the tracer is still waiting at the end of the list.\<close>

fun count_loop :: "string \<Rightarrow> tracer \<Rightarrow> nat \<Rightarrow> stop list \<Rightarrow> event list \<times> nat option" where
  "count_loop pid tr counter [] = ([], None)"
| "count_loop pid tr counter (st # sts) =
     (case st_wait st of
        Inl e \<Rightarrow> ([Error e (pid @ '': waitpid failed'')], Some counter)
      | Inr (WExited code) \<Rightarrow> ([Stdout (pid @ '': child exited with status '' @ show_int code @ [nl])], Some counter)
      | Inr w \<Rightarrow>
          (let (evs, tr', r) = (if w = WStopped SIGTRAP then handle_trap pid tr counter (st_regs st) else ([], tr, Some counter))
           in case r of
                None \<Rightarrow> (evs, Some counter)
              | Some counter' \<Rightarrow>
                  if \<not> st_resumed st then (evs @ [Error 0 (pid @ '': failed to resume child'')], Some counter')
                  else let (evs', res) = count_loop pid tr' counter' sts in (evs @ evs', res)))"

definition count_syscalls :: "string \<Rightarrow> stop list \<Rightarrow> event list \<times> nat option" where
  "count_syscalls pid sts = count_loop pid tracer_init 0 sts"

section \<open>The tracer and the child\<close>

text \<open>
  \<open>first\<close> is the first \<^verbatim>\<open>waitpid\<close>, \<open>setopt\<close> and \<open>resume\<close> the error numbers of the two \<^verbatim>\<open>ptrace\<close> calls (0 for success).  The result:
  messages, and the number of calls, or \<open>Inl killed\<close> when the program exits with failure (and whether it
  killed the child); \<open>Inr None\<close> is still waiting.
\<close>

definition run_tracer :: "string \<Rightarrow> string \<Rightarrow> int + wstatus \<Rightarrow> int \<Rightarrow> int \<Rightarrow> stop list \<Rightarrow> event list \<times> (bool + nat option)" where
  "run_tracer pid child fst_wait setopt resume sts =
     (let e0 = [Stdout (pid @ '': child PID is '' @ child @ [nl])]
      in case fst_wait of
           Inl e \<Rightarrow> (e0 @ [Error e (pid @ '': waitpid '' @ child)], Inl False)
         | Inr (WStopped _) \<Rightarrow>
             if setopt \<noteq> 0 then (e0 @ [Error setopt (pid @ '': ptrace setup failed'')], Inl True)
             else if resume \<noteq> 0 then (e0 @ [Error resume (pid @ '': failed to resume child'')], Inl True)
             else let (evs, r) = count_syscalls pid sts in (e0 @ evs, Inr r)
         | Inr _ \<Rightarrow> (e0 @ [Error 0 (pid @ '': child did not stop'')], Inl True))"

text \<open>What the child does up to the program it executes: the error message before its exit, or \<open>Inr\<close> the program.\<close>

definition run_tracee :: "string \<Rightarrow> int \<Rightarrow> int \<Rightarrow> (string \<Rightarrow> int) \<Rightarrow> string list \<Rightarrow> event + string list" where
  "run_tracee pid traceme raise_stop exec_err argv =
     (if traceme \<noteq> 0 then Inl (Error traceme (pid @ '': failed to set up tracing''))
      else if raise_stop \<noteq> 0 then Inl (Error raise_stop (pid @ '': failed to stop''))
      else case argv of
        [] \<Rightarrow> Inl (Error 14 (pid @ '': failed to exec ''))
      | p # args \<Rightarrow>
          if exec_err p = 0 then Inr argv
          else Inl (Error (exec_err p) (pid @ '': failed to exec '' @ [CHR 0x27] @ (case args of a # _ \<Rightarrow> a | [] \<Rightarrow> ''(null)'') @ [CHR 0x27])))"

definition syscount_usage :: "string \<Rightarrow> event" where
  "syscount_usage argv0 = Stderr (''usage: '' @ basename argv0 @ '' PROGRAM [ARGS...]'' @ [nl])"

text \<open>The parent: \<open>None\<close> while it is still waiting, otherwise the exit status.\<close>

definition syscount_main :: "string \<Rightarrow> int + string \<Rightarrow> int + wstatus \<Rightarrow> int \<Rightarrow> int \<Rightarrow> stop list \<Rightarrow> string list \<Rightarrow> event list \<times> int option" where
  "syscount_main pid fork_ret fst_wait setopt resume sts argv =
     (case argv of
        argv0 # _ # _ \<Rightarrow>
          (case fork_ret of
             Inl e \<Rightarrow> ([Error e ''fork''], Some EXIT_FAILURE)
           | Inr child \<Rightarrow>
               (case run_tracer pid child fst_wait setopt resume sts of
                  (evs, Inl _) \<Rightarrow> (evs, Some EXIT_FAILURE)
                | (evs, Inr None) \<Rightarrow> (evs, None)
                | (evs, Inr (Some calls)) \<Rightarrow>
                    (evs @ [Stdout (''child performed '' @ show_nat calls @ '' calls before it died'' @ [nl])], Some EXIT_SUCCESS)))
      | _ \<Rightarrow> ([syscount_usage (case argv of p # _ \<Rightarrow> p | [] \<Rightarrow> [])], Some EXIT_FAILURE))"

section \<open>What is counted\<close>

text \<open>
  The behaviour of a traced child: it makes system calls (number and result), is stopped by signals
  other than the trap, and exits.  Each system call stops it twice.
\<close>

datatype child_event = Call nat nat | Signal int

fun stops_of :: "child_event \<Rightarrow> stop list" where
  "stops_of (Call nr res) =
     [\<lparr>st_wait = Inr (WStopped SIGTRAP), st_regs = Inr (nr, 0), st_resumed = True\<rparr>,
      \<lparr>st_wait = Inr (WStopped SIGTRAP), st_regs = Inr (nr, res), st_resumed = True\<rparr>]"
| "stops_of (Signal sig) = [\<lparr>st_wait = Inr (WStopped sig), st_regs = Inr (0, 0), st_resumed = True\<rparr>]"

definition exit_stop :: "int \<Rightarrow> stop" where
  "exit_stop code = \<lparr>st_wait = Inr (WExited code), st_regs = Inr (0, 0), st_resumed = True\<rparr>"

fun is_call :: "child_event \<Rightarrow> bool" where
  "is_call (Call _ _) = True" | "is_call (Signal _) = False"

fun allowed :: "child_event \<Rightarrow> bool" where
  "allowed (Call nr _) = (\<not> forks_off nr)" | "allowed (Signal sig) = (sig \<noteq> SIGTRAP)"

lemma count_loop_event:
  assumes "allowed e" "syscall_enter tr"
  shows "\<exists>tr'. syscall_enter tr' \<and>
    snd (count_loop pid tr n (stops_of e @ sts)) = snd (count_loop pid tr' (if is_call e then n + 1 else n) sts)"
proof (cases e)
  case (Call nr res)
  with assms show ?thesis
    by (auto simp: handle_trap_def Let_def split: prod.splits intro: exI [of _ "\<lparr>syscall_enter = True, regs = (nr, res)\<rparr>"])
next
  case (Signal sig)
  with assms show ?thesis by (auto split: prod.splits intro: exI [of _ tr])
qed

lemma count_loop_events:
  assumes "list_all allowed es"
  shows "syscall_enter tr \<Longrightarrow> \<exists>tr'. syscall_enter tr' \<and>
    snd (count_loop pid tr n (concat (map stops_of es) @ sts)) = snd (count_loop pid tr' (n + length (filter is_call es)) sts)"
  using assms
proof (induction es arbitrary: tr n)
  case (Cons e es)
  obtain tr1 where 1: "syscall_enter tr1" "snd (count_loop pid tr n (stops_of e @ concat (map stops_of es) @ sts)) =
      snd (count_loop pid tr1 (if is_call e then n + 1 else n) (concat (map stops_of es) @ sts))"
    using count_loop_event [of e tr] Cons.prems by fastforce
  obtain tr2 where "syscall_enter tr2" "snd (count_loop pid tr1 (if is_call e then n + 1 else n) (concat (map stops_of es) @ sts)) =
      snd (count_loop pid tr2 ((if is_call e then n + 1 else n) + length (filter is_call es)) sts)"
    using Cons.IH [OF 1(1)] Cons.prems by auto
  with 1 show ?case by (intro exI [of _ tr2]) (simp add: if_distrib)
qed auto



end
