(* ===== verification/Signals.thy ===== *)
theory Signals
  imports C_Prelude
begin

text \<open>
  The signal exercises of \<^verbatim>\<open>ex06\<close>.  \<^verbatim>\<open>signals/await.c\<close> and \<^verbatim>\<open>signals/suspend.c\<close> wait for an interrupt with \<^verbatim>\<open>pause\<close> and with
  \<^verbatim>\<open>sigsuspend\<close>; \<^verbatim>\<open>sigcalc\<close> is a calculator that is driven by signals with values; \<^verbatim>\<open>signals/syncsig.c\<close> receives
  signals synchronously.  A standard signal is pending at most once: one that is sent while
  another instance of it is pending is discarded by the kernel.
\<close>

section \<open>signals/await.c and signals/suspend.c\<close>

text \<open>
  The control points of the loop in \<^verbatim>\<open>main\<close>: in \<^verbatim>\<open>pause\<close> or \<^verbatim>\<open>sigsuspend\<close>, at the test of the flag, in \<^verbatim>\<open>sleep\<close>, and before
  the flag is cleared.
\<close>

datatype await_pc = InPause | AtTest | InSleep | AtClear

text \<open>\<open>owed\<close> is a ghost: a signal was sent and no message has been logged since.\<close>

record await =
  aw_pc :: await_pc
  sig_received :: bool
  sig_pending :: bool
  logged_count :: nat
  owed :: bool

definition await_init :: await where
  "await_init = \<lparr>aw_pc = InPause, sig_received = False, sig_pending = False, logged_count = 0, owed = False\<rparr>"

definition handler :: "await \<Rightarrow> await" where
  "handler s = s\<lparr>sig_received := True\<rparr>"

text \<open>
  One step of the program.  \<open>masked\<close> is the program \<^verbatim>\<open>suspend\<close>, which blocks the signal except inside
  \<^verbatim>\<open>sigsuspend\<close>; there a pending signal is delivered at once.  \<open>None\<close>: the program waits for a signal.
\<close>

definition loop_step :: "bool \<Rightarrow> await \<Rightarrow> await option" where
  "loop_step masked s =
     (case aw_pc s of
        InPause \<Rightarrow> if masked \<and> sig_pending s then Some ((handler s)\<lparr>sig_pending := False, aw_pc := AtTest\<rparr>) else None
      | AtTest \<Rightarrow>
          Some (if sig_received s then s\<lparr>logged_count := logged_count s + 1, owed := False, aw_pc := InSleep\<rparr> else s\<lparr>aw_pc := InSleep\<rparr>)
      | InSleep \<Rightarrow> Some (s\<lparr>aw_pc := AtClear\<rparr>)
      | AtClear \<Rightarrow> Some (s\<lparr>sig_received := False, aw_pc := InPause\<rparr>))"

text \<open>A signal arrives: the handler runs at once, or the signal stays pending while it is blocked.\<close>

definition arrival :: "bool \<Rightarrow> await \<Rightarrow> await" where
  "arrival masked s =
     (let s' = s\<lparr>owed := True\<rparr>
      in if aw_pc s = InPause then (handler s')\<lparr>aw_pc := AtTest\<rparr>
         else if masked then s'\<lparr>sig_pending := True\<rparr>
         else handler s')"

inductive await_step :: "bool \<Rightarrow> await \<Rightarrow> await \<Rightarrow> bool" for masked where
  program: "loop_step masked s = Some t \<Longrightarrow> await_step masked s t"
| signal: "await_step masked s (arrival masked s)"

text \<open>With the signal masked, a signal that is owed is pending or has just been received.\<close>

definition suspend_inv :: "await \<Rightarrow> bool" where
  "suspend_inv s \<longleftrightarrow> (owed s \<longrightarrow> sig_pending s \<or> (sig_received s \<and> aw_pc s = AtTest))"

interpretation suspend: invariant_system "\<lambda>s. s = await_init" "await_step True" suspend_inv
proof
  show "suspend_inv s" if "s = await_init" for s using that by (simp add: suspend_inv_def await_init_def)
  show "suspend_inv t" if "suspend_inv s" "await_step True s t" for s t
    using that(2,1)
    by (cases rule: await_step.cases)
      (auto simp: suspend_inv_def loop_step_def arrival_def handler_def Let_def split: await_pc.splits if_splits)
qed

text \<open>The program alone, for a number of steps.\<close>

fun loop_steps :: "bool \<Rightarrow> nat \<Rightarrow> await \<Rightarrow> await option" where
  "loop_steps masked 0 s = Some s"
| "loop_steps masked (Suc n) s = (case loop_step masked s of None \<Rightarrow> None | Some t \<Rightarrow> loop_steps masked n t)"

definition serves_in :: "nat \<Rightarrow> await \<Rightarrow> bool" where
  "serves_in n s \<longleftrightarrow> (\<exists>t. loop_steps True n s = Some t \<and> logged_count t = logged_count s + 1 \<and> \<not> owed t)"

lemma serves_Suc:
  "loop_step True s \<noteq> None \<Longrightarrow> logged_count (the (loop_step True s)) = logged_count s \<Longrightarrow> serves_in n (the (loop_step True s)) \<Longrightarrow>
     serves_in (Suc n) s"
  by (auto simp: serves_in_def)

lemma suspend_serves:
  assumes "suspend_inv s" "owed s"
  shows "\<exists>n \<le> 5. serves_in n s"
proof -
  have test: "serves_in 1 s" if "aw_pc s = AtTest" "sig_received s" for s
    using that by (simp add: serves_in_def loop_step_def)
  have pause: "serves_in (Suc 1) s" if "aw_pc s = InPause" "sig_pending s" for s
    by (rule serves_Suc [OF _ _ test]) (use that in \<open>auto simp: loop_step_def handler_def\<close>)
  have clear: "serves_in (Suc (Suc 1)) s" if "aw_pc s = AtClear" "sig_pending s" for s
    by (rule serves_Suc [OF _ _ pause]) (use that in \<open>auto simp: loop_step_def\<close>)
  have sleep: "serves_in (Suc (Suc (Suc 1))) s" if "aw_pc s = InSleep" "sig_pending s" for s
    by (rule serves_Suc [OF _ _ clear]) (use that in \<open>auto simp: loop_step_def\<close>)
  have test': "serves_in (Suc (Suc (Suc (Suc 1)))) s" if "aw_pc s = AtTest" "sig_pending s" "\<not> sig_received s" for s
    by (rule serves_Suc [OF _ _ sleep]) (use that in \<open>auto simp: loop_step_def\<close>)
  have "serves_in 1 s \<or> serves_in (Suc 1) s \<or> serves_in (Suc (Suc 1)) s \<or> serves_in (Suc (Suc (Suc 1))) s \<or> serves_in (Suc (Suc (Suc (Suc 1)))) s"
    using assms test [of s] pause [of s] clear [of s] sleep [of s] test' [of s]
    by (cases "aw_pc s"; cases "sig_received s") (auto simp: suspend_inv_def)
  then show ?thesis by (elim disjE) (auto intro: exI [of _ 1] exI [of _ "Suc 1"] exI [of _ "Suc (Suc 1)"] exI [of _ "Suc (Suc (Suc 1))"] exI [of _ "Suc (Suc (Suc (Suc 1)))"])
qed

text \<open>
  C35: \<^verbatim>\<open>suspend\<close> loses no signal: whenever one has been sent and not yet been reported, the program reports it
  within five steps of its own, whatever the timing was.  \<^verbatim>\<open>await\<close> can lose one: it can end up asleep
  in \<^verbatim>\<open>pause\<close> with a signal unreported that arrived while it was sleeping.
\<close>

theorem suspend_loses_nothing:
  "(reaches (await_step True) await_init s \<longrightarrow> owed s \<longrightarrow> (\<exists>n \<le> 5. serves_in n s)) \<and>
   (\<exists>t. reaches (await_step False) await_init t \<and> owed t \<and> aw_pc t = InPause \<and> \<not> sig_received t \<and> loop_step False t = None)"
proof (intro conjI impI)
  show "\<exists>n \<le> 5. serves_in n s" if "reaches (await_step True) await_init s" "owed s"
    using suspend_serves suspend.inv_reachable [OF refl that(1)] that(2) by blast
  let ?a = "arrival False await_init"
  let ?l = "\<lambda>s. the (loop_step False s)"
  let ?t = "?l (?l (arrival False (?l ?a)))"
  have step: "loop_step False s \<noteq> None \<Longrightarrow> reaches (await_step False) r s \<Longrightarrow> reaches (await_step False) r (?l s)" for r s
    by (metis option.collapse program reaches_step)
  have "reaches (await_step False) await_init ?a" by (metis reaches_refl reaches_step signal)
  then have "reaches (await_step False) await_init (?l ?a)"
    by (rule step [rotated]) (simp add: loop_step_def arrival_def await_init_def handler_def)
  then have "reaches (await_step False) await_init (arrival False (?l ?a))" by (metis reaches_step signal)
  then have "reaches (await_step False) await_init (?l (arrival False (?l ?a)))"
    by (rule step [rotated]) (simp add: loop_step_def arrival_def await_init_def handler_def)
  then have "reaches (await_step False) await_init ?t"
    by (rule step [rotated]) (simp add: loop_step_def arrival_def await_init_def handler_def)
  moreover have "owed ?t \<and> aw_pc ?t = InPause \<and> \<not> sig_received ?t \<and> loop_step False ?t = None"
    by (simp add: loop_step_def arrival_def await_init_def handler_def)
  ultimately show "\<exists>t. reaches (await_step False) await_init t \<and> owed t \<and> aw_pc t = InPause \<and> \<not> sig_received t \<and> loop_step False t = None"
    by blast
qed

theorem suspend_loses_nothing_witness:
  "\<exists>s n. reaches (await_step True) await_init s \<and> owed s \<and> sig_pending s \<and> n \<le> 5 \<and> serves_in n s"
proof -
  let ?l = "\<lambda>s. the (loop_step True s)"
  let ?s = "arrival True (?l (arrival True await_init))"
  have "reaches (await_step True) await_init (arrival True await_init)" by (metis reaches_refl reaches_step signal)
  moreover have "loop_step True (arrival True await_init) = Some (?l (arrival True await_init))"
    by (simp add: loop_step_def arrival_def await_init_def handler_def)
  ultimately have r: "reaches (await_step True) await_init ?s" by (metis program reaches_step signal)
  have o: "owed ?s" "sig_pending ?s" by (simp_all add: loop_step_def arrival_def await_init_def handler_def)
  then show ?thesis using suspend_loses_nothing [of ?s] r by blast
qed

text \<open>
  The set-up of the two programs: \<open>mask_err\<close> and \<open>action_err\<close> are the error numbers of \<^verbatim>\<open>sigprocmask\<close> (only in \<^verbatim>\<open>suspend\<close>) and
  \<^verbatim>\<open>sigaction\<close>; \<open>None\<close> means that \<^verbatim>\<open>error\<close> has ended the program.
\<close>

definition await_setup :: "bool \<Rightarrow> string \<Rightarrow> int \<Rightarrow> int \<Rightarrow> event list \<times> await option" where
  "await_setup masked pid mask_err action_err =
     (let start = [Syslog 6 (''START '' @ pid)]
      in if masked \<and> mask_err \<noteq> 0 then (start @ [Error mask_err ''sigprocmask''], None)
         else if action_err \<noteq> 0 then (start @ [Error action_err ''sigaction(SIGINT)''], None)
         else (start, Some await_init))"

section \<open>signals/syncsig.c\<close>

datatype si_code = SI_USER | SI_QUEUE int | SI_KERNEL | SI_OTHER

record siginfo =
  si_code :: si_code
  si_pid :: int
  si_uid :: nat

text \<open>The messages for the signals that \<^verbatim>\<open>sigwaitinfo\<close> returns, one after the other.\<close>

definition sync_message :: "siginfo \<Rightarrow> string" where
  "sync_message i =
     (case si_code i of
        SI_USER \<Rightarrow> ''kill: pid='' @ show_int (si_pid i) @ '' uid='' @ show_nat (si_uid i)
      | SI_QUEUE v \<Rightarrow> ''sigqueue: pid='' @ show_int (si_pid i) @ '' uid='' @ show_nat (si_uid i) @ '' value=0x'' @
          show_base 16 (nat (v mod 2 ^ 32))
      | SI_KERNEL \<Rightarrow> ''kernel''
      | SI_OTHER \<Rightarrow> ''other source'')"

fun syncsig_loop :: "siginfo list \<Rightarrow> event list" where
  "syncsig_loop [] = []"
| "syncsig_loop (i # is) = [Syslog 6 ''SIGINT received'', Syslog 6 (sync_message i)] @ syncsig_loop is"

definition syncsig_main :: "string \<Rightarrow> siginfo list \<Rightarrow> event list" where
  "syncsig_main pid is = Syslog 6 (''START '' @ pid) # syncsig_loop is"

section \<open>sigcalc\<close>

text \<open>The two signals carry a value; the server has at most one of each pending.\<close>

record calc_server =
  calc_counter :: int
  pending_add :: "int option"
  pending_get :: "int option"

definition calc_init :: calc_server where
  "calc_init = \<lparr>calc_counter = 0, pending_add = None, pending_get = None\<rparr>"

definition usrsigadd :: "int \<Rightarrow> calc_server \<Rightarrow> event list \<times> calc_server outcome" where
  "usrsigadd v s =
     ([Stdout (''add: '' @ show_int v @ [nl])],
      if in_int (calc_counter s + v) then Done (s\<lparr>calc_counter := calc_counter s + v\<rparr>) else Fault SignedOverflow)"

definition usrsigget :: "int \<Rightarrow> calc_server \<Rightarrow> event list \<times> calc_server outcome" where
  "usrsigget v s = ([Stdout (show_int v @ [nl]), Stdout (''get: '' @ show_int (calc_counter s) @ [nl])], Done s)"

text \<open>
  One round of the loop of \<^verbatim>\<open>server\<close>: \<^verbatim>\<open>sigsuspend\<close> delivers a pending signal, the one with the lower number
  (\<^verbatim>\<open>SIGUSR1\<close>, the addition) first; with nothing pending it keeps waiting.
\<close>

definition calc_deliver :: "calc_server \<Rightarrow> event list \<times> calc_server outcome" where
  "calc_deliver s =
     (case pending_add s of
        Some v \<Rightarrow> usrsigadd v (s\<lparr>pending_add := None\<rparr>)
      | None \<Rightarrow> (case pending_get s of Some v \<Rightarrow> usrsigget v (s\<lparr>pending_get := None\<rparr>) | None \<Rightarrow> ([], Done s)))"

text \<open>The clients; \<open>err\<close> is the error number of \<^verbatim>\<open>sigqueue\<close>, which also succeeds when the signal is discarded.\<close>

datatype calc_signal = AddSignal int | GetSignal int

definition post :: "calc_signal \<Rightarrow> calc_server \<Rightarrow> calc_server" where
  "post g s =
     (case g of
        AddSignal v \<Rightarrow> if pending_add s = None then s\<lparr>pending_add := Some v\<rparr> else s
      | GetSignal v \<Rightarrow> if pending_get s = None then s\<lparr>pending_get := Some v\<rparr> else s)"

definition calc_get :: "int \<Rightarrow> string \<Rightarrow> event list \<times> calc_signal option" where
  "calc_get err pid =
     (let e = Stdout (''Calling get: PID = '' @ pid @ [nl])
      in if err = 0 then ([e], Some (GetSignal 100)) else ([e, Error err ''sigqueue''], None))"

definition calc_add :: "int \<Rightarrow> string \<Rightarrow> int \<Rightarrow> event list \<times> calc_signal option" where
  "calc_add err pid number =
     (let e = Stdout (''Calling get: PID = '' @ pid @ '', number = '' @ show_int number @ [nl])
      in if err = 0 then ([e], Some (AddSignal number)) else ([e, Error err ''sigqueue''], None))"

text \<open>
  \<^verbatim>\<open>main\<close> chooses by the number of arguments; \<open>Inr\<close> is the server, which never returns.  The error numbers of
  the calls that set the server up are \<open>errs\<close> (\<^verbatim>\<open>sigprocmask\<close> and the two \<^verbatim>\<open>sigaction\<close>s).
\<close>

definition calc_arg :: "string \<Rightarrow> int" where
  "calc_arg s = to_int (fst (strtol 10 s))"

definition calc_server_start :: "int \<times> int \<times> int \<Rightarrow> string \<Rightarrow> event list \<times> calc_server option" where
  "calc_server_start errs pid =
     (let (mask_err, get_err, add_err) = errs
      in if mask_err \<noteq> 0 then ([Error mask_err ''sigprocmask''], None)
         else if get_err \<noteq> 0 then ([Error get_err ''cannot setup handler for GET''], None)
         else if add_err \<noteq> 0 then ([Error add_err ''cannot setup handler for ADD''], None)
         else ([Stdout (''Server pid: '' @ pid @ [nl])], Some calc_init))"

definition sigcalc_main :: "int \<Rightarrow> int \<times> int \<times> int \<Rightarrow> string \<Rightarrow> string list \<Rightarrow> event list \<times> (int \<times> calc_signal option + calc_server)" where
  "sigcalc_main err errs own_pid argv =
     (let client = (\<lambda>(evs, g). (evs, Inl (if g = None then EXIT_FAILURE else EXIT_SUCCESS, g)))
      in case argv of
           [_, _] \<Rightarrow>
             (case calc_server_start errs own_pid of (evs, None) \<Rightarrow> (evs, Inl (EXIT_FAILURE, None)) | (evs, Some s) \<Rightarrow> (evs, Inr s))
         | [_, _, p] \<Rightarrow> client (calc_get err (show_int (calc_arg p)))
         | [_, _, p, n] \<Rightarrow> client (calc_add err (show_int (calc_arg p)) (calc_arg n))
         | _ \<Rightarrow> ([Stderr ''wrong amount of args''], Inl (EXIT_FAILURE, None)))"

text \<open>A history of the server: signals that clients post and rounds of its loop.\<close>

datatype calc_op = Post calc_signal | Deliver

fun calc_run :: "calc_op list \<Rightarrow> calc_server \<Rightarrow> event list \<times> calc_server outcome" where
  "calc_run [] s = ([], Done s)"
| "calc_run (Post g # ops) s = calc_run ops (post g s)"
| "calc_run (Deliver # ops) s =
     (case calc_deliver s of
        (evs, Done t) \<Rightarrow> (let (evs', r) = calc_run ops t in (evs @ evs', r))
      | (evs, r) \<Rightarrow> (evs, r))"

text \<open>The values that are asked to be added, and those of them that are not discarded.\<close>

fun requested :: "calc_op list \<Rightarrow> int list" where
  "requested (Post (AddSignal v) # ops) = v # requested ops"
| "requested (_ # ops) = requested ops"
| "requested [] = []"

fun accepted :: "bool \<Rightarrow> calc_op list \<Rightarrow> int list" where
  "accepted busy [] = []"
| "accepted busy (Post (AddSignal v) # ops) = (if busy then accepted True ops else v # accepted True ops)"
| "accepted busy (Post (GetSignal _) # ops) = accepted busy ops"
| "accepted busy (Deliver # ops) = accepted False ops"

definition outstanding :: "calc_server \<Rightarrow> int" where
  "outstanding s = calc_counter s + (case pending_add s of None \<Rightarrow> 0 | Some v \<Rightarrow> v)"

lemma calc_deliver_outstanding:
  "calc_deliver s = (evs, Done t) \<Longrightarrow> outstanding t = outstanding s \<and> pending_add t = None"
  by (auto simp: calc_deliver_def usrsigadd_def usrsigget_def outstanding_def split: option.splits if_splits)

lemma calc_run_accepted:
  "calc_run ops s = (evs, Done t) \<Longrightarrow> outstanding t = outstanding s + sum_list (accepted (pending_add s \<noteq> None) ops)"
proof (induction ops s arbitrary: evs rule: calc_run.induct)
  case (2 g ops s)
  then show ?case by (cases g) (auto simp: post_def outstanding_def split: if_splits)
next
  case (3 ops s)
  then show ?case
    by (auto split: prod.splits outcome.splits dest: calc_deliver_outstanding)
qed simp

text \<open>Additions are answered promptly when the server runs between any two of them.\<close>

fun prompt :: "bool \<Rightarrow> calc_op list \<Rightarrow> bool" where
  "prompt busy [] = True"
| "prompt busy (Post (AddSignal v) # ops) = (\<not> busy \<and> prompt True ops)"
| "prompt busy (Post (GetSignal _) # ops) = prompt busy ops"
| "prompt busy (Deliver # ops) = prompt False ops"

lemma prompt_accepted: "prompt busy ops \<Longrightarrow> accepted busy ops = requested ops"
  by (induction busy ops rule: prompt.induct) auto

text \<open>
  The calculator adds up exactly the values whose signals were not discarded; when the server runs between
  any two additions these are all values.  Two additions in a row lose the second one, although
  the comment in \<^verbatim>\<open>add\<close> denies it.
\<close>

theorem sigcalc_sum:
  assumes "calc_run ops calc_init = (evs, Done s)"
  shows "outstanding s = sum_list (accepted False ops) \<and> (prompt False ops \<longrightarrow> outstanding s = sum_list (requested ops)) \<and>
    snd (calc_run [Post (AddSignal 1), Post (AddSignal v), Deliver, Deliver] calc_init) = Done (calc_init\<lparr>calc_counter := 1\<rparr>)"
proof -
  have "outstanding s = sum_list (accepted False ops)"
    using calc_run_accepted [OF assms] by (simp add: calc_init_def outstanding_def)
  then show ?thesis
    by (auto simp: prompt_accepted post_def calc_init_def calc_deliver_def usrsigadd_def in_int_def INT_MIN_def INT_MAX_def)
qed

theorem sigcalc_sum_witness:
  "\<exists>evs s. calc_run [Post (AddSignal 2), Deliver, Post (AddSignal 40), Post (GetSignal 100), Deliver, Deliver] calc_init = (evs, Done s) \<and> outstanding s = 42"
proof -
  let ?ops = "[Post (AddSignal 2), Deliver, Post (AddSignal 40), Post (GetSignal 100), Deliver, Deliver]"
  obtain evs s where run: "calc_run ?ops calc_init = (evs, Done s)"
    by (simp add: post_def calc_init_def calc_deliver_def usrsigadd_def usrsigget_def in_int_def INT_MIN_def INT_MAX_def)
  then show ?thesis using sigcalc_sum [OF run] by auto
qed

end
