(* ===== verification/Digest.thy ===== *)
theory Digest
  imports Crc32 File_Copy
begin

text \<open>
  \<^verbatim>\<open>ex11/shattr/sha_utils.c\<close>: the digest of everything that can be read from a descriptor.  The digest routines are
  those of OpenSSL, a parameter here: a record of the three functions with the results that its
  documentation allows.
\<close>

text \<open>\<open>None\<close> is a routine that fails; \<open>dl_reason\<close> is the text of \<^verbatim>\<open>ERR_reason_error_string\<close>.\<close>

record 'c digest_lib =
  dl_init :: "'c option"
  dl_update :: "'c \<Rightarrow> byte list \<Rightarrow> 'c option"
  dl_final :: "'c \<Rightarrow> byte list option"
  dl_reason :: string

datatype digest_error = FromErrno int | FromOpenssl

text \<open>The loop over \<^verbatim>\<open>read\<close>.\<close>

fun digest_loop :: "'c digest_lib \<Rightarrow> 'c \<Rightarrow> read_ret list \<Rightarrow> digest_error + 'c" where
  "digest_loop lib context [] = Inr context"
| "digest_loop lib context (ReadFails e # rs) = Inl (FromErrno e)"
| "digest_loop lib context (Got bs # rs) =
     (if bs = [] then Inr context
      else case dl_update lib context bs of None \<Rightarrow> Inl FromOpenssl | Some c \<Rightarrow> digest_loop lib c rs)"

text \<open>\<open>malloc_err\<close> is 0 when the buffer for the result can be allocated.\<close>

definition digest_result :: "'c digest_lib \<Rightarrow> int \<Rightarrow> read_ret list \<Rightarrow> digest_error + byte list" where
  "digest_result lib malloc_err reads =
     (case dl_init lib of
        None \<Rightarrow> Inl FromOpenssl
      | Some context \<Rightarrow>
          (case digest_loop lib context reads of
             Inl e \<Rightarrow> Inl e
           | Inr c \<Rightarrow>
               if malloc_err \<noteq> 0 then Inl (FromErrno malloc_err)
               else case dl_final lib c of None \<Rightarrow> Inl FromOpenssl | Some d \<Rightarrow> Inr d))"

definition get_digest :: "'c digest_lib \<Rightarrow> int \<Rightarrow> read_ret list \<Rightarrow> event list \<times> byte list option" where
  "get_digest lib malloc_err reads =
     (case digest_result lib malloc_err reads of
        Inr d \<Rightarrow> ([], Some d)
      | Inl (FromErrno e) \<Rightarrow> ([Error e ''failed to compute checksum''], None)
      | Inl FromOpenssl \<Rightarrow> ([Error 0 (''openssl error: '' @ dl_reason lib)], None))"

text \<open>The documented behaviour of the update routine: data can be passed in pieces.\<close>

definition piecewise :: "'c digest_lib \<Rightarrow> bool" where
  "piecewise lib \<longleftrightarrow>
     (\<forall>c. dl_update lib c [] = Some c) \<and>
     (\<forall>c xs ys. dl_update lib c (xs @ ys) = (case dl_update lib c xs of None \<Rightarrow> None | Some d \<Rightarrow> dl_update lib d ys))"

lemma piecewise_split:
  "piecewise lib \<Longrightarrow> dl_update lib c (xs @ ys) = (case dl_update lib c xs of None \<Rightarrow> None | Some d \<Rightarrow> dl_update lib d ys)"
  by (simp add: piecewise_def)

lemma digest_loop_complete:
  assumes "piecewise lib" "read_failure reads = None"
  shows "dl_update lib c (read_data reads) = Some d \<Longrightarrow> digest_loop lib c reads = Inr d"
  using assms(2)
proof (induction reads arbitrary: c rule: read_data.induct)
  case (1 bs rs)
  then show ?case using assms(1) by (auto simp: piecewise_split [OF assms(1)] piecewise_def split: option.splits if_splits)
qed (use assms(1) in \<open>auto simp: piecewise_def\<close>)

lemma digest_loop_sound:
  assumes "piecewise lib"
  shows "digest_loop lib c reads = Inr d \<Longrightarrow> dl_update lib c (read_data reads) = Some d \<and> read_failure reads = None"
proof (induction reads arbitrary: c)
  case (Cons r rs)
  then show ?case
    using assms by (cases r) (auto simp: piecewise_split [OF assms] piecewise_def split: option.splits if_splits)
qed (use assms in \<open>simp add: piecewise_def\<close>)


text \<open>The routines of \<^verbatim>\<open>hw01\<close> are such a library.\<close>

definition crc_lib :: "crc32 digest_lib" where
  "crc_lib = \<lparr>dl_init = Some (crc32_init \<lparr>hash = 0\<rparr>), dl_update = (\<lambda>c bs. Some (crc32_update c bs)),
     dl_final = (\<lambda>c. let h = hash (crc32_finalize c) in Some [ucast h, ucast (drop_bit 8 h), ucast (drop_bit 16 h), ucast (drop_bit 24 h)]),
     dl_reason = []\<rparr>"

lemma crc_lib_piecewise: "piecewise crc_lib"
  by (simp add: piecewise_def crc_lib_def crc.update_nil crc.update_append)


end
