(* ===== verification/Mmap.thy ===== *)
theory Mmap
  imports C_Prelude
begin

text \<open>
  \<^verbatim>\<open>ex13\<close>: \<^verbatim>\<open>mmapfill\<close>, which fills a mapped file with numbers, and \<^verbatim>\<open>shmcounter\<close>, whose processes count themselves in a
  shared segment.
\<close>

section \<open>mmapfill.c\<close>

text \<open>
  What the system answers: the page size and the error numbers (0 for success) of \<^verbatim>\<open>open\<close>, \<^verbatim>\<open>ftruncate\<close>, \<^verbatim>\<open>mmap\<close>, \<^verbatim>\<open>msync\<close>,
  \<^verbatim>\<open>munmap\<close> and \<^verbatim>\<open>close\<close>.
\<close>

record mmap_env =
  me_pagesize :: nat
  me_open :: int
  me_truncate :: int
  me_mmap :: int
  me_msync :: int
  me_munmap :: int
  me_close :: int

text \<open>The loop: the mapped memory as 64-bit words, an index outside is a fault.\<close>

function fill_loop :: "nat \<Rightarrow> nat \<Rightarrow> 64 word list \<Rightarrow> 64 word list outcome" where
  "fill_loop ix n mem =
     (if ix \<ge> n then Done mem
      else if ix \<ge> length mem then Fault OutOfBounds
      else fill_loop (Suc ix) n (mem[ix := word_of_nat ix]))"
  by pat_completeness auto
termination by (relation "measure (\<lambda>(ix, n, _). n - ix)") auto

declare fill_loop.simps [simp del]

definition fill_blocks :: "string \<Rightarrow> nat \<times> string" where
  "fill_blocks s = (let (v, endp, _) = strtol 10 s in (nat (v mod 2 ^ 64), endp))"

text \<open>The result: messages, exit status, and the words of the file (\<open>None\<close>: it was not opened or not filled).\<close>

definition mmapfill_main :: "mmap_env \<Rightarrow> 64 word list \<Rightarrow> string list \<Rightarrow> event list \<times> int outcome \<times> 64 word list option" where
  "mmapfill_main env old argv =
     (case argv of
        [prog, file, num] \<Rightarrow>
          (let (blocks, endp) = fill_blocks num
           in if endp \<noteq> [] then ([Stderr (prog @ '': invalid number '' @ [CHR 0x27] @ num @ [CHR 0x27, nl])], Done EXIT_FAILURE, None)
              else if blocks > 1024 * (1024 * 1024 div me_pagesize env)
              then ([Stderr (prog @ '': whoa, calm down there, Satan'' @ [nl])], Done EXIT_FAILURE, None)
              else let len = me_pagesize env * blocks mod 2 ^ 64;
                       close = (if me_close env = 0 then [] else [Error (me_close env) (''failed to close '' @ file)])
                in if me_open env \<noteq> 0 then ([Error (me_open env) file], Done EXIT_FAILURE, None)
                   else if me_truncate env \<noteq> 0 then (Error (me_truncate env) (''truncate '' @ file) # close, Done EXIT_FAILURE, None)
                   else if me_mmap env \<noteq> 0 then (Error (me_mmap env) ''mmap'' # close, Done EXIT_FAILURE, None)
                   else case fill_loop 0 (len div 8) (take (len div 8) old @ replicate (len div 8 - length old) 0) of
                     Done mem \<Rightarrow>
                       ((if me_msync env = 0 then [] else [Error (me_msync env) ''msync'']) @
                        (if me_munmap env = 0 then [] else [Error (me_munmap env) ''munmap'']) @ close,
                        Done EXIT_SUCCESS, Some mem)
                   | Exit c \<Rightarrow> ([], Done c, None)
                   | Fault f \<Rightarrow> ([], Fault f, None))
      | _ \<Rightarrow> ([Stderr (''usage: '' @ (case argv of p # _ \<Rightarrow> p | [] \<Rightarrow> []) @ '' FILE BLOCKS'' @ [nl])], Done EXIT_FAILURE, None))"

lemma fill_loop_fills:
  "ix \<le> n \<Longrightarrow> n = length mem \<Longrightarrow> (\<And>j. j < ix \<Longrightarrow> mem ! j = word_of_nat j) \<Longrightarrow>
     fill_loop ix n mem = Done (map word_of_nat [0..<n])"
proof (induction ix n mem rule: fill_loop.induct)
  case (1 ix n mem)
  show ?case
  proof (cases "ix \<ge> n")
    case True
    then have "mem = map word_of_nat [0..<n]" using "1.prems" by (intro nth_equalityI) auto
    then show ?thesis using True by (simp add: fill_loop.simps [of ix])
  next
    case False
    have "fill_loop (Suc ix) n (mem[ix := word_of_nat ix]) = Done (map word_of_nat [0..<n])"
      by (rule "1.IH") (use False "1.prems" in \<open>auto simp: nth_list_update less_Suc_eq\<close>)
    then show ?thesis using False "1.prems" by (simp add: fill_loop.simps [of ix])
  qed
qed

text \<open>
  C37: when \<^verbatim>\<open>mmapfill\<close> reports success, the file has exactly the requested number of pages, at most one gigabyte,
  and its words count up from 0; no write is out of bounds.  A number that is negative or too
  large, up to the clamping of \<^verbatim>\<open>strtol\<close>, is refused before the file is touched.
\<close>

theorem mmapfill_correct:
  assumes "0 < me_pagesize env" "mmapfill_main env old [prog, file, num] = (evs, res, content)"
  shows "(res = Done EXIT_SUCCESS \<or> res = Done EXIT_FAILURE) \<and>
    (res = Done EXIT_SUCCESS \<longrightarrow>
       me_pagesize env * fst (fill_blocks num) \<le> 2 ^ 30 \<and> content = Some (map word_of_nat [0..<me_pagesize env * fst (fill_blocks num) div 8])) \<and>
    (fst (strtol 10 num) < 0 \<longrightarrow> res = Done EXIT_FAILURE \<and> content = None)"
proof -
  let ?p = "me_pagesize env"
  obtain b e where b: "fill_blocks num = (b, e)" by fastforce
  have neg: "2 ^ 30 < b" if "fst (strtol 10 num) < 0"
  proof -
    obtain v r x where v: "strtol 10 num = (v, r, x)" using prod_cases3 by blast
    have range: "LONG_MIN \<le> v" "v < 0" using v that by (auto simp: strtol_def LONG_MIN_def LONG_MAX_def Let_def split: option.splits if_splits prod.splits)
    then have "v mod 2 ^ 64 = v + 2 ^ 64"
      using mod_add_self2 [of v "2 ^ 64"] mod_pos_pos_trivial [of "v + 2 ^ 64" "2 ^ 64"] by (simp add: LONG_MIN_def)
    then show ?thesis using b v range by (auto simp: fill_blocks_def LONG_MIN_def)
  qed
  have limit: "?p * b \<le> 2 ^ 30" if "b \<le> 1024 * (1024 * 1024 div ?p)"
  proof -
    have "?p * b \<le> ?p * (1024 * (1024 * 1024 div ?p))" using that by (rule mult_le_mono2)
    also have "\<dots> = 1024 * (?p * (1024 * 1024 div ?p))" by (simp add: ac_simps)
    also have "\<dots> \<le> 1024 * (1024 * 1024)" by (intro mult_le_mono2) (rule times_div_less_eq_dividend)
    finally show ?thesis by simp
  qed
  have "1024 * (1024 * 1024 div ?p) \<le> 2 ^ 30" by (rule order_trans [OF mult_le_mono2 [OF div_le_dividend]]) simp
  then have refused: "\<not> b \<le> 1024 * (1024 * 1024 div ?p)" if "fst (strtol 10 num) < 0" using neg [OF that] by linarith
  show ?thesis
  proof (cases "b \<le> 1024 * (1024 * 1024 div ?p)")
    case True
    have len: "?p * b mod 2 ^ 64 = ?p * b" using limit [OF True] by (intro mod_less) simp
    have "fill_loop 0 (?p * b div 8) (take (?p * b div 8) old @ replicate (?p * b div 8 - length old) 0) = Done (map word_of_nat [0..<?p * b div 8])"
      by (rule fill_loop_fills) auto
    then show ?thesis using assms(2) True limit [OF True] refused b len
      by (auto simp: mmapfill_main_def Let_def split: if_splits)
  next
    case False
    then show ?thesis using assms(2) b by (auto simp: mmapfill_main_def Let_def split: if_splits)
  qed
qed

theorem mmapfill_correct_witness:
  "mmapfill_main \<lparr>me_pagesize = 16, me_open = 0, me_truncate = 0, me_mmap = 0, me_msync = 0, me_munmap = 0, me_close = 0\<rparr> []
     [''mmapfill'', ''f'', ''2''] = ([], Done EXIT_SUCCESS, Some [0, 1, 2, 3])"
proof -
  let ?env = "\<lparr>me_pagesize = 16, me_open = 0, me_truncate = 0, me_mmap = 0, me_msync = 0, me_munmap = 0, me_close = 0\<rparr>"
  have two: "fill_blocks ''2'' = (2, [])" by code_simp
  obtain evs res content where run: "mmapfill_main ?env [] [''mmapfill'', ''f'', ''2''] = (evs, res, content)" using prod_cases3 by blast
  have "fill_loop 0 4 (replicate 4 0) = Done (map word_of_nat [0..<4])" by (rule fill_loop_fills) auto
  then have "evs = [] \<and> res = Done EXIT_SUCCESS" using run two by (auto simp: mmapfill_main_def)
  moreover have "[0..<4] = [0, 1, 2, 3 :: nat]" by code_simp
  ultimately show ?thesis using mmapfill_correct [OF _ run] two run by simp
qed

section \<open>shmcounter.c\<close>

text \<open>
  Each process increments the counter in the shared segment, waits for the user, and decrements it.
  \<^verbatim>\<open>++*mem\<close> is a load and a store; the loaded value is in the control point.
\<close>

datatype counter_pc = LoadInc | StoreInc u32 | ShowInc | Waiting | LoadDec | StoreDec u32 | ShowDec | Detached

record shm_sys =
  shm_mem :: u32
  procs :: "counter_pc list"
  shown :: "u32 list"

definition shm_init :: "nat \<Rightarrow> shm_sys" where
  "shm_init n = \<lparr>shm_mem = 0, procs = replicate n LoadInc, shown = []\<rparr>"

definition shm_run :: "nat \<Rightarrow> shm_sys \<Rightarrow> shm_sys option" where
  "shm_run i s =
     (if i \<ge> length (procs s) then None
      else let go = (\<lambda>pc t. Some (t\<lparr>procs := (procs t)[i := pc]\<rparr>))
        in case procs s ! i of
             LoadInc \<Rightarrow> go (StoreInc (shm_mem s)) s
           | StoreInc v \<Rightarrow> go ShowInc (s\<lparr>shm_mem := v + 1\<rparr>)
           | ShowInc \<Rightarrow> go Waiting (s\<lparr>shown := shown s @ [shm_mem s]\<rparr>)
           | Waiting \<Rightarrow> go LoadDec s
           | LoadDec \<Rightarrow> go (StoreDec (shm_mem s)) s
           | StoreDec v \<Rightarrow> go ShowDec (s\<lparr>shm_mem := v - 1\<rparr>)
           | ShowDec \<Rightarrow> go Detached (s\<lparr>shown := shown s @ [shm_mem s]\<rparr>)
           | Detached \<Rightarrow> None)"

fun shm_runs :: "nat list \<Rightarrow> shm_sys \<Rightarrow> shm_sys option" where
  "shm_runs [] s = Some s"
| "shm_runs (i # is) s = (case shm_run i s of None \<Rightarrow> None | Some t \<Rightarrow> shm_runs is t)"

text \<open>The processes that have counted themselves and not yet left, and the states between a load and its store.\<close>

definition present :: "counter_pc \<Rightarrow> bool" where
  "present pc \<longleftrightarrow> (case pc of ShowInc \<Rightarrow> True | Waiting \<Rightarrow> True | LoadDec \<Rightarrow> True | StoreDec _ \<Rightarrow> True | _ \<Rightarrow> False)"

definition between :: "counter_pc \<Rightarrow> bool" where
  "between pc \<longleftrightarrow> (case pc of StoreInc _ \<Rightarrow> True | StoreDec _ \<Rightarrow> True | _ \<Rightarrow> False)"

text \<open>A schedule that never runs another process between a load and its store.\<close>

inductive atomic_step :: "shm_sys \<Rightarrow> shm_sys \<Rightarrow> bool" where
  atomic: "shm_run i s = Some t \<Longrightarrow> (\<And>j. j < length (procs s) \<Longrightarrow> between (procs s ! j) \<Longrightarrow> j = i) \<Longrightarrow> atomic_step s t"

definition counter_inv :: "shm_sys \<Rightarrow> bool" where
  "counter_inv s \<longleftrightarrow> shm_mem s = of_nat (length (filter present (procs s))) \<and>
     (\<forall>i < length (procs s). \<forall>v. procs s ! i = StoreInc v \<or> procs s ! i = StoreDec v \<longrightarrow> v = shm_mem s)"

lemma present_simps [simp]:
  "\<not> present LoadInc" "\<not> present (StoreInc v)" "present ShowInc" "present Waiting" "present LoadDec" "present (StoreDec v)"
  "\<not> present ShowDec" "\<not> present Detached"
  by (simp_all add: present_def)

lemma between_simps [simp]:
  "\<not> between LoadInc" "between (StoreInc v)" "\<not> between ShowInc" "\<not> between Waiting" "\<not> between LoadDec" "between (StoreDec v)"
  "\<not> between ShowDec" "\<not> between Detached"
  by (simp_all add: between_def)

lemma counter_move:
  assumes "counter_inv s" "i < length (procs s)" "present pc = present (procs s ! i)" "pc = StoreInc (shm_mem s) \<or> pc = StoreDec (shm_mem s) \<or> \<not> between pc"
  shows "counter_inv (s\<lparr>procs := (procs s)[i := pc]\<rparr>)" "counter_inv (s\<lparr>shown := out, procs := (procs s)[i := pc]\<rparr>)"
proof -
  have "length (filter present ((procs s)[i := pc])) = length (filter present (procs s))"
    using length_filter_update [OF assms(2), of present pc] assms(3) by simp
  then show "counter_inv (s\<lparr>procs := (procs s)[i := pc]\<rparr>)" "counter_inv (s\<lparr>shown := out, procs := (procs s)[i := pc]\<rparr>)"
    using assms by (auto simp: counter_inv_def nth_list_update)
qed

lemma counter_store:
  assumes "counter_inv s" "i < length (procs s)" "\<And>j. j < length (procs s) \<Longrightarrow> between (procs s ! j) \<Longrightarrow> j = i"
  shows "procs s ! i = StoreInc v \<Longrightarrow> counter_inv (s\<lparr>shm_mem := v + 1, procs := (procs s)[i := ShowInc]\<rparr>)"
    and "procs s ! i = StoreDec v \<Longrightarrow> counter_inv (s\<lparr>shm_mem := v - 1, procs := (procs s)[i := ShowDec]\<rparr>)"
proof -
  have others: "j \<noteq> i \<Longrightarrow> j < length (procs s) \<Longrightarrow> procs s ! j \<noteq> StoreInc w \<and> procs s ! j \<noteq> StoreDec w" for j w
    using assms(3) [of j] by auto
  show "counter_inv (s\<lparr>shm_mem := v + 1, procs := (procs s)[i := ShowInc]\<rparr>)" if "procs s ! i = StoreInc v"
    using length_filter_update [OF assms(2), of present ShowInc] that assms(1,2) others
    by (auto simp: counter_inv_def nth_list_update)
  have "length (filter present (procs s)) = Suc (length (filter present ((procs s)[i := ShowDec])))" if "procs s ! i = StoreDec v"
    using length_filter_update [OF assms(2), of present ShowDec] that by simp
  then show "counter_inv (s\<lparr>shm_mem := v - 1, procs := (procs s)[i := ShowDec]\<rparr>)" if "procs s ! i = StoreDec v"
    using that assms(1,2) others by (auto simp: counter_inv_def nth_list_update)
qed

lemma counter_inv_step: "counter_inv s \<Longrightarrow> atomic_step s t \<Longrightarrow> counter_inv t"
proof (erule atomic_step.cases)
  fix i s' t'
  assume inv: "counter_inv s" and eq: "s = s'" "t = t'" and run: "shm_run i s' = Some t'"
    and only: "\<And>j. j < length (procs s') \<Longrightarrow> between (procs s' ! j) \<Longrightarrow> j = i"
  have i: "i < length (procs s)" using run eq by (auto simp: shm_run_def split: if_splits)
  note move = counter_move [OF inv i]
  note store = counter_store [OF inv i only [folded eq]]
  show "counter_inv t"
    using run eq i move store
    by (cases "procs s ! i") (auto simp: shm_run_def Let_def)
qed

lemma counter_inv_init: "counter_inv (shm_init n)"
  by (simp add: counter_inv_def shm_init_def)

interpretation shm: invariant_system "\<lambda>s. s = shm_init n" atomic_step counter_inv for n
  by unfold_locales (auto simp: counter_inv_init intro: counter_inv_step)

text \<open>
  As long as no process runs between the load and the store of another one's increment or decrement,
  the shared counter is the number of processes that are present.  Nothing in the program
  ensures that: two processes that start together can leave \<open>2 ^ 32 - 1\<close> behind when both are gone.
\<close>

theorem shmcounter_counts:
  assumes "reaches atomic_step (shm_init n) s"
  shows "shm_mem s = of_nat (length (filter present (procs s))) \<and>
    (\<exists>t. shm_runs [0, 1, 0, 1, 0, 0, 1, 1, 0, 0, 0, 1, 1, 1] (shm_init 2) = Some t \<and> procs t = [Detached, Detached] \<and> shm_mem t = - 1)"
proof
  show "shm_mem s = of_nat (length (filter present (procs s)))"
    using shm.inv_reachable [OF refl assms] by (simp add: counter_inv_def)
  show "\<exists>t. shm_runs [0, 1, 0, 1, 0, 0, 1, 1, 0, 0, 0, 1, 1, 1] (shm_init 2) = Some t \<and> procs t = [Detached, Detached] \<and> shm_mem t = - 1"
    by (simp add: shm_init_def shm_run_def numeral_2_eq_2)
qed

theorem shmcounter_counts_witness:
  "\<exists>s. reaches atomic_step (shm_init 2) s \<and> shm_mem s = 1 \<and> length (filter present (procs s)) = 1"
proof -
  let ?a = "the (shm_run 0 (shm_init 2))"
  let ?s = "the (shm_run 0 ?a)"
  have "atomic_step (shm_init 2) ?a" "atomic_step ?a ?s"
    by (auto intro!: atomic [of 0] simp: shm_init_def shm_run_def numeral_2_eq_2 less_Suc_eq)
  then have "reaches atomic_step (shm_init 2) ?s" by (metis reaches_refl reaches_step)
  moreover have "length (filter present (procs ?s)) = 1" by (simp add: shm_init_def shm_run_def numeral_2_eq_2)
  ultimately show ?thesis using shmcounter_counts [of 2 ?s] by auto
qed

text \<open>
  \<^verbatim>\<open>main\<close> around the counting: the results of \<^verbatim>\<open>ftok\<close>, \<^verbatim>\<open>sysconf\<close>, \<^verbatim>\<open>shmget\<close>, \<^verbatim>\<open>shmat\<close>, \<^verbatim>\<open>shmctl\<close> and \<^verbatim>\<open>shmdt\<close> (error numbers, 0 for success)
  and the two values of the counter that are printed.
\<close>

record counter_env =
  cn_ftok :: int
  cn_sysconf :: int
  cn_shmget :: "int + int"
  cn_shmat :: int
  cn_rmid :: int
  cn_shmdt :: int

definition shmcounter_main :: "counter_env \<Rightarrow> u32 \<Rightarrow> u32 \<Rightarrow> string list \<Rightarrow> event list \<times> int" where
  "shmcounter_main env up down argv =
     (let argv0 = (case argv of a # _ \<Rightarrow> a | [] \<Rightarrow> [])
      in if cn_ftok env \<noteq> 0 then ([Error (cn_ftok env) (''ftok('' @ argv0 @ '', 42)'')], EXIT_FAILURE)
         else if cn_sysconf env \<noteq> 0 then ([Error (cn_sysconf env) ''sysconf PAGESIZE''], EXIT_FAILURE)
         else case cn_shmget env of
           Inl e \<Rightarrow> ([Error e ''shmget''], EXIT_FAILURE)
         | Inr shmid \<Rightarrow>
             (let rmid = (if cn_rmid env \<noteq> 0 then [Error (cn_rmid env) ''shmctl''] else [])
              in (Stdout (''shmid = '' @ show_int shmid @ [nl]) #
                   (if cn_shmat env \<noteq> 0 then Error (cn_shmat env) ''shmat'' # rmid
                    else [Stdout (''counter = '' @ show_nat (unat up) @ [nl]), Stdout ''press any <Enter> to continue...'',
                          Stdout (''counter = '' @ show_nat (unat down) @ [nl])] @ rmid @
                         (if cn_shmdt env \<noteq> 0 then [Error (cn_shmdt env) ''shmdt''] else [])),
                  0)))"

text \<open>The segment is removed, or its removal is reported, on every path on which it was obtained.\<close>

lemma shmcounter_removes:
  "cn_ftok env = 0 \<Longrightarrow> cn_sysconf env = 0 \<Longrightarrow> cn_shmget env = Inr shmid \<Longrightarrow>
     (Error (cn_rmid env) ''shmctl'' \<in> set (fst (shmcounter_main env up down argv)) \<longleftrightarrow> cn_rmid env \<noteq> 0) \<and> snd (shmcounter_main env up down argv) = 0"
  by (auto simp: shmcounter_main_def Let_def)

end
