(* ===== verification/Options.thy ===== *)
theory Options
  imports Getopt
begin

text \<open>
  Programs that are mostly a loop over \<^verbatim>\<open>getopt\<close>: the demonstrations \<^verbatim>\<open>ex03/getopt/short.c\<close> and \<^verbatim>\<open>long.c\<close>, the logger
  \<^verbatim>\<open>ex03/log\<close>, the account lister \<^verbatim>\<open>ex05/getent\<close> and the tray control \<^verbatim>\<open>ex11/eject\<close>.
\<close>

section \<open>short.c and long.c\<close>

record demo_options =
  opt_a :: bool
  opt_b :: bool
  opt_c :: "string option"

definition short_help :: "string \<Rightarrow> string" where
  "short_help argv0 =
     ''usage: '' @ argv0 @ '' [OPTIONS] ARGUMENTS...'' @ [nl] @ [nl] @
     ''OPTIONS AND ARGUMENTS'' @ [nl] @
     ''  -h       show this message and exit'' @ [nl] @
     ''  -v       show program version and exit'' @ [nl] @ [nl] @
     ''  -a       turn on option a'' @ [nl] @
     ''  -b       turn on option b'' @ [nl] @
     ''  -c ARG   set ARG as a value for option c'' @ [nl]"

definition long_help :: "string \<Rightarrow> string" where
  "long_help argv0 =
     ''usage: '' @ argv0 @ '' [OPTIONS] ARGUMENTS...'' @ [nl] @ [nl] @
     ''OPTIONS AND ARGUMENTS'' @ [nl] @
     ''  -h,--help        show this message and exit'' @ [nl] @
     ''  -v,--version     show program version and exit'' @ [nl] @ [nl] @
     ''  -a,--alpha       turn on option a'' @ [nl] @
     ''  -b,--beta        turn on option b'' @ [nl] @
     ''  -g,--gamma ARG   set ARG as a value for option gamma'' @ [nl]"

definition demo_version :: string where "demo_version = ''short 1.0'' @ [nl]"

definition demo_optstring :: string where "demo_optstring = ''hvabc:''"

definition demo_longopts :: "longopt list" where
  "demo_longopts =
     [(''version'', no_argument, CHR ''h''), (''help'', no_argument, CHR ''v''), (''alpha'', no_argument, CHR ''a''),
      (''beta'', no_argument, CHR ''b''), (''gamma'', required_argument, CHR ''c'')]"

text \<open>The \<^verbatim>\<open>switch\<close> of both programs; \<open>Inl\<close> is the text and the status of an early return.\<close>

definition demo_option :: "string \<Rightarrow> demo_options \<Rightarrow> opt_event \<Rightarrow> (string \<times> int) + demo_options" where
  "demo_option help opts e =
     (case e of
        Opt ch arg \<Rightarrow>
          if ch = CHR ''h'' then Inl (help, EXIT_SUCCESS)
          else if ch = CHR ''v'' then Inl (demo_version, EXIT_SUCCESS)
          else if ch = CHR ''a'' then Inr (opts\<lparr>opt_a := True\<rparr>)
          else if ch = CHR ''b'' then Inr (opts\<lparr>opt_b := True\<rparr>)
          else if ch = CHR ''c'' then Inr (opts\<lparr>opt_c := Some (case arg of Some a \<Rightarrow> a | None \<Rightarrow> [])\<rparr>)
          else Inl (help, EXIT_FAILURE)
      | BadOpt \<Rightarrow> Inl (help, EXIT_FAILURE))"

definition colour :: "string \<Rightarrow> string \<Rightarrow> string" where
  "colour n s = CHR 0x1B # ''['' @ n @ ''m'' @ s @ CHR 0x1B # ''[0m''"

definition print_flag :: "string \<Rightarrow> bool \<Rightarrow> string" where
  "print_flag name isset =
     (if isset then colour ''32'' '' * '' @ ''option '' @ name @ '' is set'' @ [nl]
      else colour ''31'' '' * '' @ ''option '' @ name @ '' is not set'' @ [nl])"

definition print_value :: "string \<Rightarrow> string option \<Rightarrow> string" where
  "print_value name v =
     (case v of
        Some s \<Rightarrow> colour ''32'' '' * '' @ ''option '' @ name @ '' is set to value '' @ colour ''33'' s @ [nl]
      | None \<Rightarrow> colour ''31'' '' * '' @ ''option '' @ name @ '' is not set'' @ [nl])"

text \<open>The left-over arguments with their index in \<^verbatim>\<open>argv\<close>, from \<^verbatim>\<open>optind\<close> on.\<close>

fun print_args :: "nat \<Rightarrow> string list \<Rightarrow> string" where
  "print_args i [] = []"
| "print_args i (a # as) = ''argv['' @ show_nat i @ ''] = '' @ colour ''33'' a @ [nl] @ print_args (Suc i) as"

definition print_demo :: "string \<times> string \<times> string \<Rightarrow> nat \<Rightarrow> demo_options \<Rightarrow> string list \<Rightarrow> string" where
  "print_demo names argc opts operands =
     (case names of (na, nb, nc) \<Rightarrow>
        ''OPTIONS:'' @ [nl] @ print_flag na (opt_a opts) @ print_flag nb (opt_b opts) @ print_value nc (opt_c opts) @
        ''ARGUMENTS:'' @ [nl] @ print_args (argc - length operands) operands)"

definition demo_main :: "longopt list option \<Rightarrow> (string \<Rightarrow> string) \<Rightarrow> string \<times> string \<times> string \<Rightarrow> string \<Rightarrow> string list \<Rightarrow> string \<times> int" where
  "demo_main los help names argv0 args =
     (let (es, operands) = getopt_all demo_optstring los args
      in case run_opts (demo_option (help argv0)) \<lparr>opt_a = False, opt_b = False, opt_c = None\<rparr> es of
           Inl r \<Rightarrow> r
         | Inr opts \<Rightarrow> (print_demo names (Suc (length args)) opts operands, EXIT_SUCCESS))"

definition short_main :: "string \<Rightarrow> string list \<Rightarrow> string \<times> int" where
  "short_main = demo_main None short_help (''a'', ''b'', ''c'')"

definition long_main :: "string \<Rightarrow> string list \<Rightarrow> string \<times> int" where
  "long_main = demo_main (Some demo_longopts) long_help (''alpha'', ''beta'', ''gamma'')"

section \<open>log.c\<close>

definition LOG_INFO :: int where "LOG_INFO = 6"
definition LOG_CONS :: int where "LOG_CONS = 2"
definition LOG_PERROR :: int where "LOG_PERROR = 32"

record log_opts =
  log_level :: int
  log_id :: "string option"
  open_log_opt :: int

definition log_optstring :: string where "log_optstring = ''hvael:i:''"

definition log_longopts :: "longopt list" where
  "log_longopts =
     [(''version'', no_argument, CHR ''v''), (''help'', no_argument, CHR ''h''), (''stderr'', no_argument, CHR ''e''),
      (''level'', required_argument, CHR ''l''), (''id'', required_argument, CHR ''i'')]"

text \<open>The sequence of comparisons; a later one that holds would win.\<close>

definition get_log_level :: "string \<Rightarrow> int" where
  "get_log_level level =
     (let r0 = - 1;
          r1 = (if level = ''LOG_EMERG'' then 0 else r0);
          r2 = (if level = ''LOG_ALERT'' then 1 else r1);
          r3 = (if level = ''LOG_CRIT'' then 2 else r2);
          r4 = (if level = ''LOG_ERR'' then 3 else r3);
          r5 = (if level = ''LOG_WARNING'' then 4 else r4);
          r6 = (if level = ''LOG_NOTICE'' then 5 else r5);
          r7 = (if level = ''LOG_INFO'' then 6 else r6)
      in if level = ''LOG_DEBUG'' then 7 else r7)"

definition log_help :: "string \<Rightarrow> string" where
  "log_help argv0 = ''Was too lazy to write help, sucks eh'' @ [nl] @ argv0 @ [nl]"

definition log_option :: "string \<Rightarrow> log_opts \<Rightarrow> opt_event \<Rightarrow> (event list \<times> int) + log_opts" where
  "log_option argv0 opts e =
     (case e of
        Opt ch arg \<Rightarrow>
          (let optarg = (case arg of Some a \<Rightarrow> a | None \<Rightarrow> [])
           in if ch = CHR ''h'' then Inl ([Stdout (log_help argv0)], EXIT_SUCCESS)
              else if ch = CHR ''v'' then Inl ([Stdout (''log 1.0'' @ [nl])], EXIT_SUCCESS)
              else if ch = CHR ''e'' then Inr (opts\<lparr>open_log_opt := LOG_PERROR\<rparr>)
              else if ch = CHR ''l'' then
                (if get_log_level optarg = - 1 then Inl ([Stderr ''Wrong level argument''], EXIT_FAILURE)
                 else Inr (opts\<lparr>log_level := get_log_level optarg\<rparr>))
              else if ch = CHR ''i'' then Inr (opts\<lparr>log_id := Some optarg\<rparr>)
              else Inl ([Stdout (log_help argv0)], EXIT_FAILURE))
      | BadOpt \<Rightarrow> Inl ([Stdout (log_help argv0)], EXIT_FAILURE))"

text \<open>Without an operand \<^verbatim>\<open>argv[optind]\<close> is the null pointer, for which the C library logs \<^verbatim>\<open>(null)\<close>.\<close>

definition log_main :: "string \<Rightarrow> string list \<Rightarrow> event list \<times> int" where
  "log_main argv0 args =
     (let (es, operands) = getopt_all log_optstring (Some log_longopts) args
      in case run_opts (log_option argv0) \<lparr>log_level = LOG_INFO, log_id = None, open_log_opt = LOG_CONS\<rparr> es of
           Inl r \<Rightarrow> r
         | Inr opts \<Rightarrow>
             ([Syslog (log_level opts) ((case operands of m # _ \<Rightarrow> m | [] \<Rightarrow> ''(null)'') @ [nl])], EXIT_SUCCESS))"

section \<open>getent.c\<close>

text \<open>An account or group: its number and name.\<close>

type_synonym entry = "u32 \<times> string"

definition show_u32 :: "u32 \<Rightarrow> string" where
  "show_u32 u = pad_left 4 (CHR '' '') (show_int (sint u))"

text \<open>\<open>own\<close> is the real id of the process, \<open>err\<close> the error number of \<^verbatim>\<open>getresuid\<close>.\<close>

fun print_entries :: "bool \<Rightarrow> u32 \<Rightarrow> entry list \<Rightarrow> string" where
  "print_entries highlight own [] = []"
| "print_entries highlight own ((i, name) # es) =
     (if highlight \<and> i = own then ''*'' else []) @ [CHR 0x09] @ show_u32 i @ '' '' @ name @ [nl] @ print_entries highlight own es"

definition getent_users :: "bool \<Rightarrow> u32 \<Rightarrow> entry list \<Rightarrow> string" where
  "getent_users highlight ruid users = ''Users:'' @ print_entries highlight ruid users @ [nl]"

definition getent_groups :: "bool \<Rightarrow> u32 \<Rightarrow> entry list \<Rightarrow> string" where
  "getent_groups highlight rgid groups = ''Groups:'' @ print_entries highlight rgid groups @ [nl]"

definition getent_option :: "bool \<times> bool \<times> bool \<Rightarrow> opt_event \<Rightarrow> int + bool \<times> bool \<times> bool" where
  "getent_option st e =
     (let (users, groups, highlight) = st
      in case e of
           Opt ch _ \<Rightarrow>
             if ch = CHR ''u'' then Inr (True, groups, highlight)
             else if ch = CHR ''g'' then Inr (users, True, highlight)
             else if ch = CHR ''m'' then Inr (users, groups, True)
             else Inl EXIT_FAILURE
         | BadOpt \<Rightarrow> Inl EXIT_FAILURE)"

definition getent_main :: "u32 \<Rightarrow> u32 \<Rightarrow> entry list \<Rightarrow> entry list \<Rightarrow> string list \<Rightarrow> event list \<times> int" where
  "getent_main ruid rgid users groups args =
     (case run_opts getent_option (False, False, False) (fst (getopt_all ''ugm'' None args)) of
        Inl code \<Rightarrow> ([], code)
      | Inr (u, g, highlight) \<Rightarrow>
          if \<not> u \<and> \<not> g then ([Stderr (''No modes set.'' @ [nl])], EXIT_FAILURE)
          else ((if u then [Stdout (getent_users highlight ruid users)] else []) @
                (if g then [Stdout (getent_groups highlight rgid groups)] else []), EXIT_SUCCESS))"

section \<open>eject.c\<close>

datatype action = ACTION_CLOSE | ACTION_OPEN | ACTION_TOGGLE

text \<open>The commands that the drive receives.\<close>

datatype drive_cmd = LockDoor | EjectTray | CloseTray

text \<open>What the drive answers: error numbers (\<open>Inl\<close>, or non-zero) or the status and capability masks.\<close>

record drive =
  dr_open :: int
  dr_status :: "int + int"
  dr_capability :: "int + int"
  dr_cmd :: "drive_cmd \<Rightarrow> int"

definition CDS_TRAY_OPEN :: int where "CDS_TRAY_OPEN = 2"
definition CDC_CLOSE_TRAY :: int where "CDC_CLOSE_TRAY = 1"
definition CDC_OPEN_TRAY :: int where "CDC_OPEN_TRAY = 2"

text \<open>The result is the commands that succeeded and, when \<^verbatim>\<open>error\<close> ended the program, its message.\<close>

definition eject :: "drive \<Rightarrow> string \<Rightarrow> action \<Rightarrow> drive_cmd list \<times> event option" where
  "eject dr file act =
     (if dr_open dr \<noteq> 0 then ([], Some (Error (dr_open dr) file))
      else case dr_status dr of
        Inl e \<Rightarrow> ([], Some (Error e (file @ '': CDROM_DRIVE_STATUS'')))
      | Inr status \<Rightarrow>
          (let is_closed = (status AND CDS_TRAY_OPEN = 0)
           in case dr_capability dr of
                Inl e \<Rightarrow> ([], Some (Error e (file @ '': CDROM_GET_CAPABILITY'')))
              | Inr capability \<Rightarrow>
                  (let act' = (if act = ACTION_TOGGLE then (if is_closed then ACTION_OPEN else ACTION_CLOSE) else act)
                   in if act' = ACTION_OPEN then
                        (if capability AND CDC_OPEN_TRAY = 0 then ([], Some (Error 0 (file @ '': missing CDC_OPEN_TRAY'')))
                         else if dr_cmd dr LockDoor \<noteq> 0 then ([], Some (Error (dr_cmd dr LockDoor) (file @ '': CDROM_LOCKDOOR'')))
                         else if dr_cmd dr EjectTray \<noteq> 0 then ([LockDoor], Some (Error (dr_cmd dr EjectTray) (file @ '': CDROMEJECT'')))
                         else ([LockDoor, EjectTray], None))
                      else
                        (if capability AND CDC_CLOSE_TRAY = 0 then ([], Some (Error 0 (file @ '': missing CDC_CLOSE_TRAY'')))
                         else if dr_cmd dr CloseTray \<noteq> 0 then ([], Some (Error (dr_cmd dr CloseTray) (file @ '': CDROMCLOSETRAY'')))
                         else ([CloseTray], None)))))"

definition eject_help :: "string \<Rightarrow> string" where
  "eject_help argv0 =
     ''USAGE'' @ [nl] @ ''    '' @ argv0 @ '' [OPTIONS] [DEVICE]'' @ [nl] @
     ''    default device: '' @ [CHR 0x27] @ ''/dev/cdrom'' @ [CHR 0x27] @ [nl] @ [nl] @
     ''OPTIONS'' @ [nl] @
     ''    -t     close tray'' @ [nl] @
     ''    -T     toggle tray state'' @ [nl] @
     ''    -h     show this help'' @ [nl]"

definition eject_option :: "string \<Rightarrow> action \<Rightarrow> opt_event \<Rightarrow> (event list \<times> int) + action" where
  "eject_option argv0 act e =
     (case e of
        Opt ch _ \<Rightarrow>
          if ch = CHR ''t'' then Inr ACTION_CLOSE
          else if ch = CHR ''T'' then Inr ACTION_TOGGLE
          else if ch = CHR ''h'' then Inl ([Stdout (eject_help argv0)], EXIT_SUCCESS)
          else Inl ([Stderr (''try '' @ [CHR 0x27] @ argv0 @ '' -h'' @ [CHR 0x27] @ '' for help'' @ [nl])], EXIT_FAILURE)
      | BadOpt \<Rightarrow> Inl ([Stderr (''try '' @ [CHR 0x27] @ argv0 @ '' -h'' @ [CHR 0x27] @ '' for help'' @ [nl])], EXIT_FAILURE))"

definition eject_main :: "(string \<Rightarrow> drive) \<Rightarrow> string \<Rightarrow> string list \<Rightarrow> drive_cmd list \<times> event list \<times> int" where
  "eject_main drives argv0 args =
     (let (es, operands) = getopt_all ''tTh'' None args
      in case run_opts (eject_option argv0) ACTION_OPEN es of
           Inl (evs, code) \<Rightarrow> ([], evs, code)
         | Inr act \<Rightarrow>
             if length operands > 1
             then ([], [Stderr (''too many devices, try '' @ [CHR 0x27] @ argv0 @ '' -h'' @ [CHR 0x27] @ '' for help'' @ [nl])], EXIT_FAILURE)
             else let device = (case operands of d # _ \<Rightarrow> d | [] \<Rightarrow> ''/dev/cdrom'')
               in case eject (drives device) device act of
                    (cmds, Some e) \<Rightarrow> (cmds, [e], EXIT_FAILURE)
                  | (cmds, None) \<Rightarrow> (cmds, [], EXIT_SUCCESS))"

section \<open>Long options do not disturb short ones\<close>

lemma short_opts_sub: "set (snd (short_opts os cs rest)) \<subseteq> set rest"
  by (induction cs) (auto split: option.splits bool.splits prod.splits list.splits)

lemma getopt_all_short:
  assumes "list_all (\<lambda>a. is_prefix ''--'' a \<longrightarrow> a = ''--'') as"
  shows "getopt_all os (Some los) as = getopt_all os None as"
  using assms
proof (induction os "None :: longopt list option" as rule: getopt_all.induct)
  case (2 os a as)
  show ?case
  proof (cases "a = ''--'' \<or> \<not> is_option a")
    case True
    with 2 show ?thesis by auto
  next
    case False
    then have same: "one_arg os (Some los) a as = one_arg os None a as" using "2.prems" by (simp add: one_arg_def)
    obtain es rest where e: "one_arg os None a as = (es, rest)" by fastforce
    have "set rest \<subseteq> set as" using e short_opts_sub [of os "drop 1 a" as] by (simp add: one_arg_def)
    then have "list_all (\<lambda>a. is_prefix ''--'' a \<longrightarrow> a = ''--'') rest" using "2.prems" by (auto simp: list_all_iff)
    then have "getopt_all os (Some los) rest = getopt_all os None rest" using 2(1) False e by (auto simp: e)
    then show ?thesis using False same e by simp
  qed
qed simp

text \<open>The outcome of a demonstration without its texts: how it ends, or the options and operands it prints.\<close>

definition demo_parse :: "longopt list option \<Rightarrow> string list \<Rightarrow> bool \<times> int + demo_options \<times> string list" where
  "demo_parse los args =
     (let (es, operands) = getopt_all demo_optstring los args
      in case run_opts (demo_option ''help'') \<lparr>opt_a = False, opt_b = False, opt_c = None\<rparr> es of
           Inl (t, code) \<Rightarrow> Inl (t = ''help'', code)
         | Inr opts \<Rightarrow> Inr (opts, operands))"

lemma demo_version_not_help: "demo_version \<noteq> long_help a" "demo_version \<noteq> short_help a" "demo_version \<noteq> ''help''"
  by (simp_all add: demo_version_def long_help_def short_help_def)

lemma run_demo:
  assumes "demo_version \<noteq> h"
  shows "run_opts (demo_option h) opts es =
    (case run_opts (demo_option ''help'') opts es of Inl (t, code) \<Rightarrow> Inl (if t = ''help'' then h else demo_version, code) | Inr r \<Rightarrow> Inr r)"
proof (induction es arbitrary: opts)
  case (Cons e es)
  then show ?case
    by (cases e) (auto simp: demo_option_def demo_version_not_help split: sum.splits)
qed simp

definition demo_show :: "(string \<Rightarrow> string) \<Rightarrow> string \<times> string \<times> string \<Rightarrow> string \<Rightarrow> nat \<Rightarrow> bool \<times> int + demo_options \<times> string list \<Rightarrow> string \<times> int" where
  "demo_show help names argv0 argc r =
     (case r of
        Inl (is_help, code) \<Rightarrow> (if is_help then help argv0 else demo_version, code)
      | Inr (opts, operands) \<Rightarrow> (print_demo names argc opts operands, EXIT_SUCCESS))"

lemma demo_main_parse:
  assumes "\<And>a. demo_version \<noteq> help a"
  shows "demo_main los help names argv0 args = demo_show help names argv0 (Suc (length args)) (demo_parse los args)"
  using assms run_demo [of "help argv0"]
  by (auto simp: demo_main_def demo_parse_def demo_show_def split: prod.splits sum.splits)

text \<open>
  On arguments without long options the two demonstrations do the same: they show their help, show the
  version, or print the same options (under their own names) and the same operands.
\<close>

theorem demos_agree:
  assumes "list_all (\<lambda>a. is_prefix ''--'' a \<longrightarrow> a = ''--'') args"
  shows "short_main argv0 args = demo_show short_help (''a'', ''b'', ''c'') argv0 (Suc (length args)) (demo_parse None args) \<and>
    long_main argv0 args = demo_show long_help (''alpha'', ''beta'', ''gamma'') argv0 (Suc (length args)) (demo_parse None args)"
proof -
  have "demo_parse (Some demo_longopts) args = demo_parse None args"
    using getopt_all_short [OF assms] by (simp add: demo_parse_def)
  then show ?thesis
    using demo_main_parse [of short_help None "(''a'', ''b'', ''c'')" argv0 args]
      demo_main_parse [of long_help "Some demo_longopts" "(''alpha'', ''beta'', ''gamma'')" argv0 args]
    by (simp add: short_main_def long_main_def demo_version_not_help)
qed

theorem demos_agree_witness:
  "long_main ''p'' [''-a'', ''x''] =
     (print_demo (''alpha'', ''beta'', ''gamma'') 3 \<lparr>opt_a = True, opt_b = False, opt_c = None\<rparr> [''x''], EXIT_SUCCESS)"
proof -
  have "demo_parse None [''-a'', ''x''] = Inr (\<lparr>opt_a = True, opt_b = False, opt_c = None\<rparr>, [''x''])" by code_simp
  then show ?thesis using demos_agree [of "[''-a'', ''x'']" "''p''"] by (simp add: demo_show_def numeral_3_eq_3)
qed

text \<open>The long options for help and version are exchanged.\<close>

lemma long_version_is_help: "long_main argv0 [''--version''] = (long_help argv0, EXIT_SUCCESS)"
proof -
  have "getopt_all demo_optstring (Some demo_longopts) [''--version''] = ([Opt (CHR ''h'') None], [])" by code_simp
  then show ?thesis by (simp del: getopt_all.simps add: long_main_def demo_main_def demo_option_def)
qed

section \<open>Levels, entries and trays\<close>

definition level_names :: "string list" where
  "level_names = [''LOG_EMERG'', ''LOG_ALERT'', ''LOG_CRIT'', ''LOG_ERR'', ''LOG_WARNING'', ''LOG_NOTICE'', ''LOG_INFO'', ''LOG_DEBUG'']"

text \<open>
  The level names of \<^verbatim>\<open>log\<close> and the numbers 0 to 7 translate into each other, and every other name is refused:
  the program logs with the right priority or fails with a message.
\<close>

theorem log_level_roundtrip:
  "list_all (\<lambda>i. get_log_level (level_names ! i) = int i) [0..<8] \<and>
   (get_log_level s = - 1 \<or> get_log_level s \<in> {0..7} \<and> level_names ! nat (get_log_level s) = s) \<and>
   log_main argv0 [''-l'', s, ''--'', m] =
     (if get_log_level s = - 1 then ([Stderr ''Wrong level argument''], EXIT_FAILURE)
      else ([Syslog (get_log_level s) (m @ [nl])], EXIT_SUCCESS))"
proof (intro conjI)
  show "list_all (\<lambda>i. get_log_level (level_names ! i) = int i) [0..<8]" by code_simp
  show "get_log_level s = - 1 \<or> get_log_level s \<in> {0..7} \<and> level_names ! nat (get_log_level s) = s"
    by (simp add: get_log_level_def level_names_def Let_def)
  have "getopt_all log_optstring (Some log_longopts) [''-l'', s, ''--'', m] = ([Opt (CHR ''l'') (Some s)], [m])"
    by (simp add: log_optstring_def is_option_def one_arg_def)
  then show "log_main argv0 [''-l'', s, ''--'', m] =
     (if get_log_level s = - 1 then ([Stderr ''Wrong level argument''], EXIT_FAILURE)
      else ([Syslog (get_log_level s) (m @ [nl])], EXIT_SUCCESS))"
    by (simp del: getopt_all.simps add: log_main_def log_option_def)
qed

text \<open>Option \<^verbatim>\<open>-a\<close> is in the option string and in no case of the \<^verbatim>\<open>switch\<close>.\<close>

lemma log_a_refused: "log_main argv0 [''-a'', m] = ([Stdout (log_help argv0)], EXIT_FAILURE)"
proof -
  have "fst (getopt_all log_optstring (Some log_longopts) [''-a'', m]) = Opt (CHR ''a'') None # fst (getopt_all log_optstring (Some log_longopts) [m])"
    by (simp add: log_optstring_def is_option_def one_arg_def split: prod.splits)
  then show ?thesis by (cases "getopt_all log_optstring (Some log_longopts) [''-a'', m]") (simp del: getopt_all.simps add: log_main_def log_option_def)
qed

text \<open>The lines of \<^verbatim>\<open>getent\<close> that carry a star.\<close>

lemma getent_stars:
  "print_entries highlight own es =
     concat (map (\<lambda>(i, name). (if highlight \<and> i = own then ''*'' else []) @ [CHR 0x09] @ show_u32 i @ '' '' @ name @ [nl]) es)"
  by (induction highlight own es rule: print_entries.induct) auto

text \<open>
  On a drive that can do both and reports no error, \<^verbatim>\<open>eject\<close> opens, \<^verbatim>\<open>eject -t\<close> closes, and \<^verbatim>\<open>eject -T\<close> closes exactly if bit 1
  of the status is set; the door is always unlocked before the tray is ejected.  The status is a
  number, not a mask: a drive that is not ready (3) is taken for an open one.
\<close>

theorem eject_commands:
  assumes "dr_open (drives dev) = 0" "dr_status (drives dev) = Inr status" "dr_capability (drives dev) = Inr 3"
    and "dr_cmd (drives dev) = (\<lambda>_. 0)" "\<not> is_prefix ''-'' dev"
  shows "eject_main drives argv0 [dev] = ([LockDoor, EjectTray], [], EXIT_SUCCESS) \<and>
    eject_main drives argv0 [''-t'', dev] = ([CloseTray], [], EXIT_SUCCESS) \<and>
    eject_main drives argv0 [''-T'', dev] = (if bit status 1 then [CloseTray] else [LockDoor, EjectTray], [], EXIT_SUCCESS)"
proof -
  have op: "getopt_all ''tTh'' None [dev] = ([], [dev])" using assms(5) by (intro getopt_operands) simp
  have "getopt_all ''tTh'' None (a # [dev]) = (let (es, rest) = one_arg ''tTh'' None a [dev]; (fs, ops) = getopt_all ''tTh'' None rest in (es @ fs, ops))"
    if "is_option a" "a \<noteq> ''--''" for a
    using that by simp
  then have t: "getopt_all ''tTh'' None [''-t'', dev] = ([Opt (CHR ''t'') None], [dev])"
    and T: "getopt_all ''tTh'' None [''-T'', dev] = ([Opt (CHR ''T'') None], [dev])"
    using op by (simp_all del: getopt_all.simps add: is_option_def one_arg_def)
  have mask: "status AND 2 = 0 \<longleftrightarrow> \<not> bit status 1"
    using and_exp_eq_0_iff_not_bit [of status 1] by simp
  show ?thesis
    by (simp del: getopt_all.simps add: eject_main_def op t T eject_option_def eject_def assms mask
        CDS_TRAY_OPEN_def CDC_OPEN_TRAY_def CDC_CLOSE_TRAY_def)
qed

theorem eject_commands_witness:
  "eject_main (\<lambda>_. \<lparr>dr_open = 0, dr_status = Inr 3, dr_capability = Inr 3, dr_cmd = (\<lambda>_. 0)\<rparr>) ''eject'' [''-T'', ''/dev/sr0''] =
     ([CloseTray], [], EXIT_SUCCESS)"
  using eject_commands [of "\<lambda>_. \<lparr>dr_open = 0, dr_status = Inr 3, dr_capability = Inr 3, dr_cmd = (\<lambda>_. 0)\<rparr>" "''/dev/sr0''" 3 "''eject''"]
  by (simp add: bit_numeral_rec)

end
