(* ===== verification/Filters.thy ===== *)
theory Filters
  imports C_Prelude
begin

text \<open>
  \<^verbatim>\<open>ex02/strings\<close>: \<^verbatim>\<open>strfilter\<close> loads filter libraries by name and passes the lines of its input through them in
  turn.  The three libraries of the directory (\<^verbatim>\<open>libuc\<close>, \<^verbatim>\<open>liblc\<close>, \<^verbatim>\<open>libinfo\<close>) work in place on a buffer.  The
  interface of a filter is the locale \<open>char_filter\<close>; the dynamic linker is a parameter.
\<close>

section \<open>The libraries\<close>

text \<open>The loop of \<^verbatim>\<open>libuc\<close> and \<^verbatim>\<open>liblc\<close>; \<^verbatim>\<open>strlen\<close> is computed anew in each round.\<close>

function case_loop :: "(char \<Rightarrow> char) \<Rightarrow> nat \<Rightarrow> string \<Rightarrow> string" where
  "case_loop f i s = (if i < length (cstr s) then case_loop f (Suc i) (s[i := f (s ! i)]) else s)"
  by pat_completeness auto
termination
  by (relation "measure (\<lambda>(_, i, s). length s - i)")
    (auto simp: cstr_def dest: less_le_trans [OF _ length_takeWhile_le])

declare case_loop.simps [simp del]

definition uc_filter :: "string \<Rightarrow> string" where "uc_filter str = case_loop to_upper 0 str"
definition lc_filter :: "string \<Rightarrow> string" where "lc_filter str = case_loop to_lower 0 str"
definition info_filter :: "string \<Rightarrow> string" where "info_filter str = str"

text \<open>
  A library as \<^verbatim>\<open>strfilter\<close> sees it: what its constructor and destructor print, and its symbol \<^verbatim>\<open>filter\<close> (or the
  message of \<^verbatim>\<open>dlsym\<close>).
\<close>

record library =
  lib_ctor :: string
  lib_dtor :: string
  lib_filter :: "string + (string \<Rightarrow> string)"

definition libuc :: library where "libuc = \<lparr>lib_ctor = [], lib_dtor = [], lib_filter = Inr uc_filter\<rparr>"
definition liblc :: library where "liblc = \<lparr>lib_ctor = [], lib_dtor = [], lib_filter = Inr lc_filter\<rparr>"

definition library_init :: string where
  "library_init = ''INFO lib: '' @ [nl] @ '' version: 1  '' @ [nl] @ '' author name: czFIRE '' @ [nl]"

definition library_destroy :: string where "library_destroy = ''I am dying'' @ [nl]"

definition libinfo :: library where
  "libinfo = \<lparr>lib_ctor = library_init, lib_dtor = library_destroy, lib_filter = Inr info_filter\<rparr>"

section \<open>strfilter.c\<close>

definition BUFFER_LENGTH :: nat where "BUFFER_LENGTH = 80"

text \<open>The name is composed in a buffer of 80 bytes, without a test that it fits.\<close>

definition create_lib_name :: "string \<Rightarrow> string outcome" where
  "create_lib_name name =
     (let s = ''lib'' @ name @ ''.so'' in if Suc (length s) > BUFFER_LENGTH then Fault BufferOverflow else Done s)"

text \<open>
  The loop that opens the libraries; \<open>hs\<close> are the names opened so far.  A library that is open already
  runs its constructor no second time.  The result holds the names open at the end.
\<close>

fun load_loop :: "(string \<Rightarrow> string + library) \<Rightarrow> string list \<Rightarrow> string list \<Rightarrow>
    event list \<times> string list \<times> (string \<Rightarrow> string) list outcome" where
  "load_loop dl hs [] = ([], hs, Done [])"
| "load_loop dl hs (name # names) =
     (case create_lib_name name of
        Fault f \<Rightarrow> ([], hs, Fault f)
      | Exit c \<Rightarrow> ([], hs, Exit c)
      | Done file \<Rightarrow>
          (case dl file of
             Inl e \<Rightarrow> ([Stderr (e @ [nl])], hs, Exit EXIT_FAILURE)
           | Inr lib \<Rightarrow>
               (let ctor = (if file \<in> set hs then [] else [Stdout (lib_ctor lib)])
                in case lib_filter lib of
                     Inl e \<Rightarrow> (ctor @ [Stderr (e @ [nl])], hs @ [file], Exit EXIT_FAILURE)
                   | Inr f \<Rightarrow>
                       (case load_loop dl (hs @ [file]) names of
                          (evs, hs', Done fs) \<Rightarrow> (ctor @ evs, hs', Done (f # fs))
                        | (evs, hs', r) \<Rightarrow> (ctor @ evs, hs', r)))))"

text \<open>The loop over the lines; the counter is an \<^verbatim>\<open>int\<close> that is incremented after each line.\<close>

fun rotate_loop :: "(string \<Rightarrow> string) list \<Rightarrow> nat \<Rightarrow> string list \<Rightarrow> event list \<times> unit outcome" where
  "rotate_loop fs k [] = ([], Done ())"
| "rotate_loop fs k (line # ls) =
     (let e = Stdout (cstr ((fs ! (k mod length fs)) line))
      in if int k = INT_MAX then ([e], Fault SignedOverflow)
         else let (evs, r) = rotate_loop fs (Suc k) ls in (e # evs, r))"

definition dtor_text :: "(string \<Rightarrow> string + library) \<Rightarrow> string \<Rightarrow> event list" where
  "dtor_text dl file = (case dl file of Inl _ \<Rightarrow> [] | Inr lib \<Rightarrow> [Stdout (lib_dtor lib)])"

text \<open>The last \<^verbatim>\<open>dlclose\<close> of a library unloads it.\<close>

fun close_loop :: "(string \<Rightarrow> string + library) \<Rightarrow> string list \<Rightarrow> event list" where
  "close_loop dl [] = []"
| "close_loop dl (h # hs) = (if h \<in> set hs then [] else dtor_text dl h) @ close_loop dl hs"

text \<open>A library that is still open when the program returns is unloaded then, the latest first.\<close>

definition unload_all :: "(string \<Rightarrow> string + library) \<Rightarrow> string list \<Rightarrow> event list" where
  "unload_all dl hs = concat (map (dtor_text dl) (remdups (rev hs)))"

definition strfilter_main :: "(string \<Rightarrow> string + library) \<Rightarrow> string \<Rightarrow> string list \<Rightarrow> event list \<times> int outcome" where
  "strfilter_main dl input args =
     (if args = [] then ([Stderr ''no args supplied''], Done EXIT_FAILURE)
      else case load_loop dl [] args of
        (evs, hs, Fault f) \<Rightarrow> (evs, Fault f)
      | (evs, hs, Exit c) \<Rightarrow> (evs @ unload_all dl hs, Done c)
      | (evs, hs, Done fs) \<Rightarrow>
          (case rotate_loop fs 0 (input_lines input) of
             (out, Done _) \<Rightarrow> (evs @ out @ close_loop dl hs, Done EXIT_SUCCESS)
           | (out, Exit c) \<Rightarrow> (evs @ out, Exit c)
           | (out, Fault f) \<Rightarrow> (evs @ out, Fault f)))"

section \<open>The interface of a filter\<close>

lemma cstr_split: "nul \<notin> set t \<Longrightarrow> r = [] \<or> hd r = nul \<Longrightarrow> cstr (t @ r) = t"
  by (cases r) (auto simp: cstr_def takeWhile_tail)

lemma cstr_rest:
  "drop (length (cstr s)) s = [] \<or> hd (drop (length (cstr s)) s) = nul" "s = cstr s @ drop (length (cstr s)) s" "nul \<notin> set (cstr s)"
proof -
  have rest: "drop (length (cstr s)) s = dropWhile (\<lambda>c. c \<noteq> nul) s" by (simp add: cstr_def dropWhile_eq_drop)
  show "drop (length (cstr s)) s = [] \<or> hd (drop (length (cstr s)) s) = nul" unfolding rest using hd_dropWhile by blast
  show "s = cstr s @ drop (length (cstr s)) s" unfolding rest by (simp add: cstr_def)
  show "nul \<notin> set (cstr s)" by (auto simp: cstr_def dest: set_takeWhileD)
qed

text \<open>A filter changes the text before the NUL character by character and nothing else.\<close>

locale char_filter =
  fixes f :: "string \<Rightarrow> string" and g :: "char \<Rightarrow> char"
  assumes filter_buffer: "f s = map g (cstr s) @ drop (length (cstr s)) s"
    and keeps_text: "c \<noteq> nul \<Longrightarrow> g c \<noteq> nul"
begin

lemma filter_length: "length (f s) = length s"
  by (simp add: filter_buffer cstr_def length_takeWhile_le)

lemma filter_cstr: "cstr (f s) = map g (cstr s)"
proof -
  have "nul \<notin> g ` set (cstr s)" using cstr_rest(3) [of s] keeps_text by (metis imageE)
  then show ?thesis unfolding filter_buffer by (intro cstr_split cstr_rest(1)) simp
qed

lemma filter_line: "nul \<notin> set s \<Longrightarrow> cstr (f s) = map g s"
  by (simp add: filter_cstr cstr_id)

end

lemma case_loop_split:
  assumes "\<And>c. c \<noteq> nul \<Longrightarrow> f c \<noteq> nul" "nul \<notin> set xs" "nul \<notin> set ys" "r = [] \<or> hd r = nul"
  shows "case_loop f (length xs) (xs @ ys @ r) = xs @ map f ys @ r"
  using assms(2,3)
proof (induction ys arbitrary: xs)
  case Nil
  then show ?case using assms(4) cstr_split [of xs r] by (simp add: case_loop.simps)
next
  case (Cons y ys)
  have "cstr (xs @ (y # ys) @ r) = xs @ y # ys" using cstr_split [of "xs @ y # ys" r] Cons.prems assms(4) by simp
  moreover have "case_loop f (length (xs @ [f y])) ((xs @ [f y]) @ ys @ r) = (xs @ [f y]) @ map f ys @ r"
    by (rule Cons.IH) (use Cons.prems assms(1) [of y] in auto)
  ultimately show ?case by (subst case_loop.simps) simp
qed

lemma case_loop_filter:
  assumes "\<And>c. c \<noteq> nul \<Longrightarrow> f c \<noteq> nul"
  shows "case_loop f 0 s = map f (cstr s) @ drop (length (cstr s)) s"
  using case_loop_split [of f "[]" "cstr s" "drop (length (cstr s)) s"] cstr_rest [of s] assms by simp

lemma case_not_nul: "c \<noteq> nul \<Longrightarrow> to_upper c \<noteq> nul" "c \<noteq> nul \<Longrightarrow> to_lower c \<noteq> nul"
  by (auto simp: to_upper_def to_lower_def nul_def Let_def char_of_eq_iff dest!: arg_cong [where f = "of_char :: char \<Rightarrow> nat"] simp: take_bit_eq_mod simp del: of_char_eq_iff)

interpretation uc: char_filter uc_filter to_upper
  by unfold_locales (simp_all add: uc_filter_def case_loop_filter case_not_nul)

interpretation lc: char_filter lc_filter to_lower
  by unfold_locales (simp_all add: lc_filter_def case_loop_filter case_not_nul)

interpretation info: char_filter info_filter "\<lambda>c. c"
proof
  show "info_filter s = map (\<lambda>c. c) (cstr s) @ drop (length (cstr s)) s" for s
    using cstr_rest(2) [of s] by (simp add: info_filter_def)
qed

section \<open>The rotation\<close>

text \<open>The libraries of the directory, as the dynamic linker finds them.\<close>

definition own_libs :: "string \<Rightarrow> string + library" where
  "own_libs file =
     (if file = ''libuc.so'' then Inr libuc else if file = ''liblc.so'' then Inr liblc
      else if file = ''libinfo.so'' then Inr libinfo else Inl (file @ '': cannot open shared object file''))"

definition own_name :: "string \<Rightarrow> bool" where
  "own_name n \<longleftrightarrow> n = ''uc'' \<or> n = ''lc'' \<or> n = ''info''"

text \<open>What a filter of that name does to a character.\<close>

definition own_char :: "string \<Rightarrow> char \<Rightarrow> char" where
  "own_char n = (if n = ''uc'' then to_upper else if n = ''lc'' then to_lower else (\<lambda>c. c))"

definition own_filter :: "string \<Rightarrow> string \<Rightarrow> string" where
  "own_filter n = (if n = ''uc'' then uc_filter else if n = ''lc'' then lc_filter else info_filter)"

definition so_name :: "string \<Rightarrow> string" where "so_name n = ''lib'' @ n @ ''.so''"

lemma own_filter_line: "nul \<notin> set l \<Longrightarrow> cstr (own_filter n l) = map (own_char n) l"
  using uc.filter_line lc.filter_line info.filter_line by (simp add: own_filter_def own_char_def)

lemma own_lib_load:
  "own_name n \<Longrightarrow> create_lib_name n = Done (so_name n) \<and>
     (\<exists>lib. own_libs (so_name n) = Inr lib \<and> lib_filter lib = Inr (own_filter n) \<and>
        lib_ctor lib = (if n = ''info'' then library_init else []) \<and> lib_dtor lib = (if n = ''info'' then library_destroy else []))"
  by (auto simp: own_name_def create_lib_name_def so_name_def BUFFER_LENGTH_def own_libs_def own_filter_def libuc_def liblc_def libinfo_def Let_def)

lemma so_name_inj: "so_name m = so_name n \<longleftrightarrow> m = n" by (simp add: so_name_def)

lemma load_own:
  assumes "list_all own_name names"
  shows "\<exists>evs. load_loop own_libs hs names = (evs, hs @ map so_name names, Done (map own_filter names)) \<and>
    stdout_of evs = (if ''info'' \<in> set names \<and> so_name ''info'' \<notin> set hs then library_init else [])"
  using assms
proof (induction names arbitrary: hs)
  case (Cons n ns)
  then obtain lib where l: "create_lib_name n = Done (so_name n)" "own_libs (so_name n) = Inr lib" "lib_filter lib = Inr (own_filter n)"
      "lib_ctor lib = (if n = ''info'' then library_init else [])"
    using own_lib_load [of n] by auto
  obtain evs where "load_loop own_libs (hs @ [so_name n]) ns = (evs, (hs @ [so_name n]) @ map so_name ns, Done (map own_filter ns))"
      "stdout_of evs = (if ''info'' \<in> set ns \<and> so_name ''info'' \<notin> set (hs @ [so_name n]) then library_init else [])"
    using Cons by fastforce
  then show ?case using l by (auto simp: so_name_inj)
qed simp

lemma close_own:
  "list_all own_name names \<Longrightarrow> stdout_of (close_loop own_libs (map so_name names)) = (if ''info'' \<in> set names then library_destroy else [])"
proof (induction names)
  case (Cons n ns)
  then show ?case using own_lib_load [of n] by (auto simp: dtor_text_def so_name_inj image_iff)
qed simp

text \<open>Line number \<open>k\<close> of the input goes through filter number \<open>k\<close>, counted round.\<close>

fun rotated :: "string list \<Rightarrow> nat \<Rightarrow> string list \<Rightarrow> string" where
  "rotated names k [] = []"
| "rotated names k (l # ls) = map (own_char (names ! (k mod length names))) l @ rotated names (Suc k) ls"

lemma rotate_own:
  assumes "names \<noteq> []" "list_all (\<lambda>l. nul \<notin> set l) ls" "int (k + length ls) \<le> INT_MAX"
  shows "\<exists>evs. rotate_loop (map own_filter names) k ls = (evs, Done ()) \<and> stdout_of evs = rotated names k ls"
  using assms(2,3)
proof (induction ls arbitrary: k)
  case (Cons l ls)
  obtain evs where "rotate_loop (map own_filter names) (Suc k) ls = (evs, Done ())" "stdout_of evs = rotated names (Suc k) ls"
    using Cons.IH [of "Suc k"] Cons.prems by auto
  moreover have "int k \<noteq> INT_MAX" using Cons.prems(2) by simp
  moreover have "k mod length names < length names" using assms(1) by simp
  ultimately show ?case using Cons.prems(1) by (simp add: own_filter_line Let_def)
qed simp

lemma input_lines_nul: "nul \<notin> set s \<Longrightarrow> list_all (\<lambda>l. nul \<notin> set l) (input_lines s)"
  using set_concat [of "input_lines s"] by (auto simp: list_all_iff)

text \<open>
  With the three libraries of the directory, in any order and number, \<^verbatim>\<open>strfilter\<close> succeeds and prints the
  lines of its input with line \<open>k\<close> changed by filter \<open>k\<close> in rotation, character by character; the banner of
  \<^verbatim>\<open>libinfo\<close> appears once before them and its farewell once after them, however often it is named.
\<close>

theorem strfilter_rotates:
  assumes "names \<noteq> []" "list_all own_name names" "nul \<notin> set input" "int (length (input_lines input)) \<le> INT_MAX"
  shows "\<exists>evs. strfilter_main own_libs input names = (evs, Done EXIT_SUCCESS) \<and>
    stdout_of evs = (if ''info'' \<in> set names then library_init else []) @ rotated names 0 (input_lines input) @
      (if ''info'' \<in> set names then library_destroy else [])"
proof -
  obtain e1 where "load_loop own_libs [] names = (e1, map so_name names, Done (map own_filter names))"
      "stdout_of e1 = (if ''info'' \<in> set names then library_init else [])"
    using load_own [OF assms(2), of "[]"] by auto
  moreover obtain e2 where "rotate_loop (map own_filter names) 0 (input_lines input) = (e2, Done ())"
      "stdout_of e2 = rotated names 0 (input_lines input)"
    using rotate_own [OF assms(1) input_lines_nul [OF assms(3)], of 0] assms(4) by auto
  ultimately show ?thesis using assms(1) close_own [OF assms(2)] by (simp add: strfilter_main_def)
qed

theorem strfilter_rotates_witness:
  "\<exists>evs. strfilter_main own_libs (''ab'' @ [nl] @ ''Cd'' @ [nl] @ ''e'') [''uc'', ''lc''] = (evs, Done EXIT_SUCCESS) \<and>
     stdout_of evs = ''AB'' @ [nl] @ ''cd'' @ [nl] @ ''E''"
proof -
  let ?i = "''ab'' @ [nl] @ ''Cd'' @ [nl] @ ''e''"
  have "rotated [''uc'', ''lc''] 0 (input_lines ?i) = ''AB'' @ [nl] @ ''cd'' @ [nl] @ ''E''" by code_simp
  moreover have "length (input_lines ?i) = 3" by code_simp
  ultimately show ?thesis using strfilter_rotates [of "[''uc'', ''lc'']" ?i]
    by (simp add: own_name_def nul_def nl_def INT_MAX_def)
qed

text \<open>A library name of more than 73 characters overflows the buffer, before anything is opened.\<close>

lemma long_name_overflows: "73 < length n \<Longrightarrow> strfilter_main dl input (n # ns) = ([], Fault BufferOverflow)"
  by (simp add: strfilter_main_def create_lib_name_def BUFFER_LENGTH_def)

end
