(* ===== verification/Pipes.thy ===== *)
theory Pipes
  imports C_Prelude
begin

text \<open>
  The pipes of \<^verbatim>\<open>ex10\<close>: \<^verbatim>\<open>pipes/child.c\<close> and \<^verbatim>\<open>pipes/dup.c\<close>, in which one process sends bytes through a pipe to another,
  as a step relation over the two processes and the pipe; and \<^verbatim>\<open>pipe/pipe.c\<close>, which connects two programs, on
  the descriptor tables of its two processes.
\<close>

section \<open>pipes/child.c and pipes/dup.c\<close>

text \<open>
  The producer is the parent of \<^verbatim>\<open>child.c\<close> and the child of \<^verbatim>\<open>dup.c\<close> (there the program \<^verbatim>\<open>ls\<close>, of which only the
  bytes it writes matter); the consumer is the other process.
\<close>

datatype prod_pc = PClose | PWrite string | PWait | PDone
datatype cons_pc = CClose | CRead | CPut char | CTail | CWait | CDone

text \<open>
  \<open>wr_prod\<close> and \<open>wr_cons\<close>: does the process hold a write end of the pipe; \<open>rd_prod\<close>, \<open>rd_cons\<close>: a read end.  After \<^verbatim>\<open>fork\<close> both hold
  both.
\<close>

record relay =
  producer :: prod_pc
  consumer :: cons_pc
  pipe_buf :: string
  wr_prod :: bool
  wr_cons :: bool
  rd_prod :: bool
  rd_cons :: bool
  written :: string

definition relay_init :: relay where
  "relay_init = \<lparr>producer = PClose, consumer = CClose, pipe_buf = [], wr_prod = True, wr_cons = True, rd_prod = True, rd_cons = True, written = []\<rparr>"

text \<open>
  \<open>cap\<close> is the capacity of the pipe, \<open>data\<close> what the producer writes, \<open>tail\<close> what the consumer prints after the end of
  file.  \<open>pw\<close>: the producer waits for the consumer (\<^verbatim>\<open>child.c\<close>), otherwise the consumer for the producer
  (\<^verbatim>\<open>dup.c\<close>).  A read from an empty pipe blocks while anybody holds a write end.
\<close>

inductive relay_step :: "nat \<Rightarrow> string \<Rightarrow> string \<Rightarrow> bool \<Rightarrow> relay \<Rightarrow> relay \<Rightarrow> bool" for cap data tail pw where
  p_close: "producer s = PClose \<Longrightarrow> relay_step cap data tail pw s (s\<lparr>rd_prod := False, producer := PWrite data\<rparr>)"
| p_write: "producer s = PWrite (c # cs) \<Longrightarrow> length (pipe_buf s) < cap \<Longrightarrow>
    relay_step cap data tail pw s (s\<lparr>pipe_buf := pipe_buf s @ [c], producer := PWrite cs\<rparr>)"
| p_shut: "producer s = PWrite [] \<Longrightarrow> relay_step cap data tail pw s (s\<lparr>wr_prod := False, producer := if pw then PWait else PDone\<rparr>)"
| p_wait: "producer s = PWait \<Longrightarrow> consumer s = CDone \<Longrightarrow> relay_step cap data tail pw s (s\<lparr>producer := PDone\<rparr>)"
| c_close: "consumer s = CClose \<Longrightarrow> relay_step cap data tail pw s (s\<lparr>wr_cons := False, consumer := CRead\<rparr>)"
| c_read: "consumer s = CRead \<Longrightarrow> pipe_buf s = c # cs \<Longrightarrow> relay_step cap data tail pw s (s\<lparr>pipe_buf := cs, consumer := CPut c\<rparr>)"
| c_eof: "consumer s = CRead \<Longrightarrow> pipe_buf s = [] \<Longrightarrow> \<not> wr_prod s \<Longrightarrow> \<not> wr_cons s \<Longrightarrow> relay_step cap data tail pw s (s\<lparr>consumer := CTail\<rparr>)"
| c_put: "consumer s = CPut c \<Longrightarrow> relay_step cap data tail pw s (s\<lparr>written := written s @ [c], consumer := CRead\<rparr>)"
| c_tail: "consumer s = CTail \<Longrightarrow>
    relay_step cap data tail pw s (s\<lparr>written := written s @ tail, rd_cons := False, consumer := if pw then CDone else CWait\<rparr>)"
| c_wait: "consumer s = CWait \<Longrightarrow> producer s = PDone \<Longrightarrow> relay_step cap data tail pw s (s\<lparr>consumer := CDone\<rparr>)"

text \<open>\<^verbatim>\<open>main\<close> of \<^verbatim>\<open>child.c\<close>: an error of \<^verbatim>\<open>pipe\<close> or \<^verbatim>\<open>fork\<close> (non-zero) ends the program; \<^verbatim>\<open>dup.c\<close> does not look at the first.\<close>

definition child_main :: "int \<Rightarrow> int \<Rightarrow> event + relay" where
  "child_main pipe_err fork_err =
     (if pipe_err \<noteq> 0 then Inl (Error pipe_err ''pipe'')
      else if fork_err \<noteq> 0 then Inl (Error fork_err ''fork'') else Inr relay_init)"

text \<open>
  \<^verbatim>\<open>dup.c\<close>: the child makes the pipe its standard output and becomes \<^verbatim>\<open>ls\<close>.  The result are its messages and the
  bytes that go into the pipe: what \<^verbatim>\<open>ls\<close> writes, or nothing if \<^verbatim>\<open>dup2\<close> or \<^verbatim>\<open>execlp\<close> fails.
\<close>

definition dup_child :: "int \<Rightarrow> int \<Rightarrow> string \<Rightarrow> event list \<times> string" where
  "dup_child dup2_err exec_err ls_output =
     (if dup2_err \<noteq> 0 then ([Error dup2_err ''dup2''], [])
      else if exec_err \<noteq> 0 then ([Error exec_err ''execlp''], []) else ([], ls_output))"

definition dup_main :: "int \<Rightarrow> event + relay" where
  "dup_main fork_err = (if fork_err \<noteq> 0 then Inl (Error fork_err ''fork'') else Inr relay_init)"

definition hello :: string where "hello = ''Hello!''"

section \<open>The bytes arrive\<close>

definition unsent :: "string \<Rightarrow> relay \<Rightarrow> string" where
  "unsent data s = (case producer s of PClose \<Rightarrow> data | PWrite r \<Rightarrow> r | _ \<Rightarrow> [])"

text \<open>Who holds a write end, and who has finished before whom.\<close>

definition relay_ctl :: "bool \<Rightarrow> relay \<Rightarrow> bool" where
  "relay_ctl pw s \<longleftrightarrow>
     wr_prod s = (case producer s of PClose \<Rightarrow> True | PWrite _ \<Rightarrow> True | _ \<Rightarrow> False) \<and>
     wr_cons s = (consumer s = CClose) \<and>
     (producer s = PWait \<longrightarrow> pw) \<and> (consumer s = CWait \<longrightarrow> \<not> pw) \<and>
     (consumer s = CDone \<and> \<not> pw \<longrightarrow> producer s = PDone) \<and> (producer s = PDone \<and> pw \<longrightarrow> consumer s = CDone) \<and>
     (consumer s \<in> {CTail, CWait, CDone} \<longrightarrow> pipe_buf s = [] \<and> \<not> wr_prod s)"

text \<open>Where the data are.\<close>

definition relay_inv :: "string \<Rightarrow> string \<Rightarrow> bool \<Rightarrow> relay \<Rightarrow> bool" where
  "relay_inv data tail pw s \<longleftrightarrow> relay_ctl pw s \<and>
     (case consumer s of
        CPut c \<Rightarrow> written s @ c # pipe_buf s @ unsent data s = data
      | CTail \<Rightarrow> written s = data
      | CWait \<Rightarrow> written s = data @ tail
      | CDone \<Rightarrow> written s = data @ tail
      | _ \<Rightarrow> written s @ pipe_buf s @ unsent data s = data)"

interpretation relay: invariant_system "\<lambda>s. s = relay_init" "relay_step cap data tail pw" "relay_inv data tail pw" for cap data tail pw
proof
  show "relay_inv data tail pw s" if "s = relay_init" for s
    using that by (simp add: relay_inv_def relay_ctl_def relay_init_def unsent_def)
  show "relay_inv data tail pw t" if "relay_inv data tail pw s" "relay_step cap data tail pw s t" for s t
    using that(2,1)
    by (cases rule: relay_step.cases) (auto simp: relay_inv_def relay_ctl_def unsent_def split: prod_pc.splits cons_pc.splits)
qed

text \<open>A bound for the steps that are left.\<close>

definition work :: "string \<Rightarrow> relay \<Rightarrow> nat" where
  "work data s =
     (case producer s of PClose \<Rightarrow> 3 * length data + 3 | PWrite r \<Rightarrow> 3 * length r + 2 | PWait \<Rightarrow> 1 | PDone \<Rightarrow> 0) +
     2 * length (pipe_buf s) +
     (case consumer s of CClose \<Rightarrow> 4 | CRead \<Rightarrow> 3 | CPut _ \<Rightarrow> 4 | CTail \<Rightarrow> 2 | CWait \<Rightarrow> 1 | CDone \<Rightarrow> 0)"

lemma relay_works: "relay_step cap data tail pw s t \<Longrightarrow> work data t < work data s"
  by (cases rule: relay_step.cases) (auto simp: work_def)

lemma relay_progress:
  assumes "0 < cap" "relay_ctl pw s" "\<nexists>t. relay_step cap data tail pw s t"
  shows "producer s = PDone \<and> consumer s = CDone"
proof -
  have p: "producer s = PDone \<or> producer s = PWait \<and> consumer s \<noteq> CDone \<or> (\<exists>c cs. producer s = PWrite (c # cs) \<and> cap \<le> length (pipe_buf s))"
  proof (cases "producer s")
    case (PWrite r)
    then show ?thesis using assms(3) by (cases r) (auto intro: p_shut dest: p_write simp: not_less [symmetric])
  qed (use assms(3) in \<open>auto intro: p_close p_wait\<close>)
  have c: "consumer s = CDone \<or> consumer s = CWait \<and> producer s \<noteq> PDone \<or> consumer s = CRead \<and> pipe_buf s = [] \<and> (wr_prod s \<or> wr_cons s)"
  proof (cases "consumer s")
    case CRead
    then show ?thesis using assms(3) by (cases "pipe_buf s") (auto intro: c_read c_eof)
  qed (use assms(3) in \<open>auto intro: c_close c_put c_tail c_wait\<close>)
  show ?thesis using p c assms(1,2) by (cases "producer s"; cases "consumer s") (auto simp: relay_ctl_def)
qed

lemma relay_runs:
  "(relay_step cap data tail pw ^^ n) relay_init s \<Longrightarrow> reaches (relay_step cap data tail pw) relay_init s \<and> n + work data s \<le> work data relay_init"
proof (induction n arbitrary: s)
  case (Suc n)
  then obtain r where r: "(relay_step cap data tail pw ^^ n) relay_init r" "relay_step cap data tail pw r s" by auto
  show ?case using Suc.IH [OF r(1)] relay_works [OF r(2)] reaches_step r(2) by fastforce
qed (simp add: reaches_refl)

lemma mains_start: "child_main pipe_err fork_err = Inr s0 \<or> dup_main fork_err = Inr s0 \<Longrightarrow> s0 = relay_init"
  by (auto simp: child_main_def dup_main_def split: if_splits)

text \<open>
  C38: data sent through a pipe arrives, in \<^verbatim>\<open>child.c\<close> and in \<^verbatim>\<open>dup.c\<close>: once \<^verbatim>\<open>main\<close> has forked, whatever the capacity and the
  interleaving, every run of the two processes ends after at most \<open>3 * length data + 7\<close> steps, and when neither can
  move both have finished and the consumer has printed exactly the data and then the tail.
\<close>

theorem relay_delivers:
  assumes "child_main pipe_err fork_err = Inr s0 \<or> dup_main fork_err = Inr s0" "0 < cap" "(relay_step cap data tail pw ^^ n) s0 s"
  shows "n \<le> 3 * length data + 7 \<and>
    ((\<exists>t. relay_step cap data tail pw s t) \<or> producer s = PDone \<and> consumer s = CDone \<and> written s = data @ tail)"
proof
  have run: "reaches (relay_step cap data tail pw) relay_init s" "n + work data s \<le> work data relay_init"
    using relay_runs assms(3) mains_start [OF assms(1)] by auto
  then show "n \<le> 3 * length data + 7" by (simp add: work_def relay_init_def)
  have inv: "relay_inv data tail pw s" using relay.inv_reachable [OF refl run(1)] .
  show "(\<exists>t. relay_step cap data tail pw s t) \<or> producer s = PDone \<and> consumer s = CDone \<and> written s = data @ tail"
  proof (cases "\<exists>t. relay_step cap data tail pw s t")
    case False
    then have "producer s = PDone \<and> consumer s = CDone" using inv by (intro relay_progress [OF assms(2)]) (simp_all add: relay_inv_def)
    then show ?thesis using inv by (simp add: relay_inv_def)
  qed simp
qed

lemma relay_step_n: "(relay_step cap data tail pw ^^ n) r s \<Longrightarrow> relay_step cap data tail pw s t \<Longrightarrow> (relay_step cap data tail pw ^^ Suc n) r t"
  by auto

theorem relay_delivers_witness:
  "\<exists>s n. (relay_step 1 ''H'' [nl] True ^^ n) relay_init s \<and> n \<le> 10 \<and> written s = ''H'' @ [nl]"
proof -
  let ?S = "relay_step 1 ''H'' [nl] True"
  define s1 where "s1 = relay_init\<lparr>rd_prod := False, producer := PWrite ''H''\<rparr>"
  define s2 where "s2 = s1\<lparr>pipe_buf := ''H'', producer := PWrite []\<rparr>"
  define s3 where "s3 = s2\<lparr>wr_prod := False, producer := PWait\<rparr>"
  define s4 where "s4 = s3\<lparr>wr_cons := False, consumer := CRead\<rparr>"
  define s5 where "s5 = s4\<lparr>pipe_buf := [], consumer := CPut (CHR ''H'')\<rparr>"
  define s6 where "s6 = s5\<lparr>written := ''H'', consumer := CRead\<rparr>"
  define s7 where "s7 = s6\<lparr>consumer := CTail\<rparr>"
  define s8 where "s8 = s7\<lparr>written := ''H'' @ [nl], rd_cons := False, consumer := CDone\<rparr>"
  define s9 where "s9 = s8\<lparr>producer := PDone\<rparr>"
  note defs = s9_def s8_def s7_def s6_def s5_def s4_def s3_def s2_def s1_def relay_init_def
  have st1: "?S relay_init s1" using p_close [of relay_init 1 "''H''" "[nl]" True] by (simp add: s1_def relay_init_def)
  have st2: "?S s1 s2" using p_write [of s1 "CHR ''H''" "[]" 1 "''H''" "[nl]" True] by (simp add: s2_def) (simp add: defs)
  have st3: "?S s2 s3" using p_shut [of s2 1 "''H''" "[nl]" True] by (simp add: s3_def) (simp add: defs)
  have st4: "?S s3 s4" using c_close [of s3 1 "''H''" "[nl]" True] by (simp add: s4_def) (simp add: defs)
  have st5: "?S s4 s5" using c_read [of s4 "CHR ''H''" "[]" 1 "''H''" "[nl]" True] by (simp add: s5_def) (simp add: defs)
  have st6: "?S s5 s6" using c_put [of s5 "CHR ''H''" 1 "''H''" "[nl]" True] by (simp add: s6_def) (simp add: defs)
  have st7: "?S s6 s7" using c_eof [of s6 1 "''H''" "[nl]" True] by (simp add: s7_def) (simp add: defs)
  have st8: "?S s7 s8" using c_tail [of s7 1 "''H''" "[nl]" True] by (simp add: s8_def) (simp add: defs)
  have st9: "?S s8 s9" using p_wait [of s8 1 "''H''" "[nl]" True] by (simp add: s9_def) (simp add: defs)
  have "(?S ^^ Suc (Suc (Suc (Suc (Suc (Suc (Suc (Suc (Suc 0))))))))) relay_init s9"
    by (intro relay_step_n [OF _ st9] relay_step_n [OF _ st8] relay_step_n [OF _ st7] relay_step_n [OF _ st6] relay_step_n [OF _ st5]
      relay_step_n [OF _ st4] relay_step_n [OF _ st3] relay_step_n [OF _ st2] relay_step_n [OF _ st1]) simp
  then have run: "(?S ^^ 9) relay_init s9" by (simp only: numeral_eq_Suc pred_numeral_simps BitM.simps)
  have "\<not> ?S s9 t" for t by (auto simp: defs elim: relay_step.cases)
  then have "written s9 = ''H'' @ [nl]" using relay_delivers [OF _ _ run, of 0 0] by (auto simp: child_main_def)
  then show ?thesis using run by (intro exI [of _ s9] exI [of _ 9]) simp
qed

section \<open>pipe/pipe.c\<close>

text \<open>What a descriptor refers to; a process is its descriptor table and the program it executes in the end.\<close>

datatype endpoint = OldStdin | OldStdout | OldStderr | PipeRead | PipeWrite

record process =
  fds :: "nat \<Rightarrow> endpoint option"
  image :: "string list"

definition close_fd :: "nat \<Rightarrow> (nat \<Rightarrow> endpoint option) \<Rightarrow> nat \<Rightarrow> endpoint option" where
  "close_fd n t = t(n := None)"

definition dup2 :: "nat \<Rightarrow> nat \<Rightarrow> (nat \<Rightarrow> endpoint option) \<Rightarrow> nat \<Rightarrow> endpoint option" where
  "dup2 old new t = t(new := t old)"

text \<open>\<^verbatim>\<open>execvp\<close> on an argument vector; an empty one has the null pointer as its program name (\<^verbatim>\<open>EFAULT\<close>, 14).\<close>

definition exec :: "(string \<Rightarrow> int) \<Rightarrow> (nat \<Rightarrow> endpoint option) \<Rightarrow> string list \<Rightarrow> event + process" where
  "exec exec_err t argv =
     (case argv of
        [] \<Rightarrow> Inl (Error 14 ''execvp'')
      | p # _ \<Rightarrow> if exec_err p \<noteq> 0 then Inl (Error (exec_err p) ''execvp'') else Inr \<lparr>fds = t, image = argv\<rparr>)"

definition pipe_child :: "int \<Rightarrow> (string \<Rightarrow> int) \<Rightarrow> nat \<times> nat \<Rightarrow> string list \<Rightarrow> (nat \<Rightarrow> endpoint option) \<Rightarrow> event + process" where
  "pipe_child dup_err exec_err pipefd argv t =
     (let t1 = close_fd (fst pipefd) t
      in if dup_err \<noteq> 0 then Inl (Error dup_err ''dup2'') else exec exec_err (dup2 (snd pipefd) 1 t1) argv)"

definition pipe_parent :: "int \<Rightarrow> (string \<Rightarrow> int) \<Rightarrow> nat \<times> nat \<Rightarrow> string list \<Rightarrow> (nat \<Rightarrow> endpoint option) \<Rightarrow> event + process" where
  "pipe_parent dup_err exec_err pipefd argv t =
     (let t1 = close_fd (snd pipefd) t
      in if dup_err \<noteq> 0 then Inl (Error dup_err ''dup2'') else exec exec_err (dup2 (fst pipefd) 0 t1) argv)"

text \<open>The loop that looks for the separator, from the name of the program itself on.\<close>

fun find_colon :: "string list \<Rightarrow> nat" where
  "find_colon [] = 0"
| "find_colon (a # as) = (if '':'' = a then 0 else Suc (find_colon as))"

text \<open>
  What the system answers: error numbers of the two \<^verbatim>\<open>calloc\<close>s, of \<^verbatim>\<open>fork\<close>, of \<^verbatim>\<open>dup2\<close> in child and parent, and of the
  programs executed; and the two descriptors of \<^verbatim>\<open>pipe\<close>, which is taken to succeed because the code
  does not look at its result.
\<close>

record pipe_env =
  pe_calloc1 :: int
  pe_calloc2 :: int
  pe_fork :: int
  pe_dup_child :: int
  pe_dup_parent :: int
  pe_exec :: "string \<Rightarrow> int"
  pe_pipe :: "nat \<times> nat"

definition pipe_main :: "pipe_env \<Rightarrow> (nat \<Rightarrow> endpoint option) \<Rightarrow> string list \<Rightarrow>
    (event + (event + process) \<times> (event + process)) outcome" where
  "pipe_main env table argv =
     (let loc = find_colon argv
      in if loc = length argv then Done (Inl (Error 0 ''expected semicolon''))
         else if pe_calloc1 env \<noteq> 0 then Done (Inl (Error (pe_calloc1 env) ''calloc''))
         else if pe_calloc2 env \<noteq> 0 then Done (Inl (Error (pe_calloc2 env) ''calloc''))
         else if loc = 0 then Fault OutOfBounds
         else let argv1 = take (loc - 1) (drop 1 argv); argv2 = drop (loc + 1) argv;
                  t = table(fst (pe_pipe env) \<mapsto> PipeRead, snd (pe_pipe env) \<mapsto> PipeWrite)
           in if pe_fork env \<noteq> 0 then Done (Inl (Error (pe_fork env) ''fork''))
              else Done (Inr (pipe_child (pe_dup_child env) (pe_exec env) (pe_pipe env) argv2 t,
                              pipe_parent (pe_dup_parent env) (pe_exec env) (pe_pipe env) argv1 t)))"

lemma find_colon_append: "'':'' \<notin> set as \<Longrightarrow> find_colon (as @ '':'' # bs) = length as"
  by (induction as) auto

text \<open>
  \<^verbatim>\<open>pipe A... : B...\<close> connects the two programs so that \<open>B\<close> writes into the pipe and \<open>A\<close> reads from it.  Each of
  the two holds only its own end, so that \<open>A\<close> sees the end of file as soon as \<open>B\<close> ends; their other
  standard descriptors are those of the caller.
\<close>

theorem pipe_connects:
  assumes "'':'' \<notin> set (prog # A)" "A \<noteq> []" "B \<noteq> []"
    and "pe_calloc1 env = 0" "pe_calloc2 env = 0" "pe_fork env = 0" "pe_dup_child env = 0" "pe_dup_parent env = 0"
    and "pe_exec env (hd A) = 0" "pe_exec env (hd B) = 0"
    and "pe_pipe env = (r, w)" "r \<noteq> w" "2 < r" "2 < w"
    and "PipeRead \<notin> ran table" "PipeWrite \<notin> ran table"
  shows "\<exists>child parent. pipe_main env table (prog # A @ '':'' # B) = Done (Inr (Inr child, Inr parent)) \<and>
    image child = B \<and> image parent = A \<and>
    fds child 1 = Some PipeWrite \<and> fds parent 0 = Some PipeRead \<and>
    PipeRead \<notin> ran (fds child) \<and> PipeWrite \<notin> ran (fds parent) \<and>
    fds child 0 = table 0 \<and> fds parent 1 = table 1 \<and> fds child 2 = table 2 \<and> fds parent 2 = table 2"
proof -
  have loc: "find_colon (prog # A @ '':'' # B) = Suc (length A)"
    using find_colon_append [of "prog # A" B] assms(1) by simp
  let ?t = "table(r \<mapsto> PipeRead, w \<mapsto> PipeWrite)"
  let ?child = "\<lparr>fds = dup2 w 1 (close_fd r ?t), image = B\<rparr>" and ?parent = "\<lparr>fds = dup2 r 0 (close_fd w ?t), image = A\<rparr>"
  have "exec (pe_exec env) t B = Inr \<lparr>fds = t, image = B\<rparr>" "exec (pe_exec env) t A = Inr \<lparr>fds = t, image = A\<rparr>" for t
    using assms(2,3,9,10) by (auto simp: exec_def neq_Nil_conv)
  then have "pipe_main env table (prog # A @ '':'' # B) = Done (Inr (Inr ?child, Inr ?parent))"
    using loc assms(4-8,11) by (simp add: pipe_main_def pipe_child_def pipe_parent_def Let_def)
  moreover have "PipeRead \<notin> ran (fds ?child)" "PipeWrite \<notin> ran (fds ?parent)"
    using assms(12-16) by (auto simp: dup2_def close_fd_def ran_def)
  moreover have "fds ?child 1 = Some PipeWrite" "fds ?parent 0 = Some PipeRead" "fds ?child 0 = table 0" "fds ?parent 1 = table 1"
      "fds ?child 2 = table 2" "fds ?parent 2 = table 2"
    using assms(12-14) by (simp_all add: dup2_def close_fd_def)
  ultimately show ?thesis by (intro exI [of _ ?child] exI [of _ ?parent]) simp
qed

theorem pipe_connects_witness:
  "\<exists>child parent. pipe_main \<lparr>pe_calloc1 = 0, pe_calloc2 = 0, pe_fork = 0, pe_dup_child = 0, pe_dup_parent = 0, pe_exec = (\<lambda>_. 0), pe_pipe = (3, 4)\<rparr>
     [0 \<mapsto> OldStdin, 1 \<mapsto> OldStdout] [''pipe'', ''sort'', '':'', ''ls'', ''-l''] = Done (Inr (Inr child, Inr parent)) \<and>
   image child = [''ls'', ''-l''] \<and> fds child 1 = Some PipeWrite \<and> image parent = [''sort''] \<and> fds parent 0 = Some PipeRead"
proof -
  let ?env = "\<lparr>pe_calloc1 = 0, pe_calloc2 = 0, pe_fork = 0, pe_dup_child = 0, pe_dup_parent = 0, pe_exec = (\<lambda>_. 0), pe_pipe = (3, 4)\<rparr>"
  have "PipeRead \<notin> ran [0 \<mapsto> OldStdin, 1 \<mapsto> OldStdout]" "PipeWrite \<notin> ran [0 \<mapsto> OldStdin, 1 \<mapsto> OldStdout]"
    by (auto simp: ran_def split: if_splits)
  then show ?thesis
    using pipe_connects [of "''pipe''" "[''sort'']" "[''ls'', ''-l'']" ?env 3 4 "[0 \<mapsto> OldStdin, 1 \<mapsto> OldStdout]"] by auto
qed

end
