(* ===== verification/Network.thy ===== *)
theory Network
  imports C_Prelude
begin

text \<open>
  \<^verbatim>\<open>ex12\<close>: the set-up and the poll loop of the server \<^verbatim>\<open>tcp_server/roftpd.c\<close>, and \<^verbatim>\<open>resolvip\<close>, which prints the addresses
  of a host.  The resolver and the sockets are parameters.
\<close>

section \<open>roftpd.c\<close>

definition MAX_DESC :: nat where "MAX_DESC = 16"
definition POLLIN :: int where "POLLIN = 1"
definition POLLHUP :: int where "POLLHUP = 16"

text \<open>
  An address of \<^verbatim>\<open>getaddrinfo\<close> with what the calls on it answer: \<open>sock\<close> is the descriptor of \<^verbatim>\<open>socket\<close> or -1, \<open>binds\<close> the
  success of \<^verbatim>\<open>bind\<close>, \<open>listen_err\<close> the error number of \<^verbatim>\<open>listen\<close>.
\<close>

record address =
  sock :: int
  binds :: bool
  listen_err :: int

text \<open>The sockets of the process: the descriptors that are open and those of them that listen.\<close>

record sockets =
  opened :: "int set"
  listening :: "int set"

definition close_socket :: "int \<Rightarrow> sockets \<Rightarrow> sockets" where
  "close_socket fd s = \<lparr>opened = opened s - {fd}, listening = listening s - {fd}\<rparr>"

text \<open>
  The loop over the addresses: \<open>free\<close> counts down from 4, \<open>fds\<close> are the descriptors in \<^verbatim>\<open>list_addr\<close>.  The flag of the
  result says whether the loop was left by \<^verbatim>\<open>break\<close> (\<^verbatim>\<open>rp\<close> is not null).
\<close>

fun bind_loop :: "(int \<Rightarrow> string) \<Rightarrow> address list \<Rightarrow> nat \<Rightarrow> int list \<Rightarrow> sockets \<Rightarrow> event list \<times> bool \<times> int list \<times> sockets" where
  "bind_loop strerror [] free fds s = ([], False, fds, s)"
| "bind_loop strerror (a # as) free fds s =
     (if sock a = - 1 then bind_loop strerror as free fds s
      else let s1 = s\<lparr>opened := insert (sock a) (opened s)\<rparr>
        in if binds a then
             if free > 0 then
               if listen_err a \<noteq> 0 then
                 (let (evs, r) = bind_loop strerror as free fds (close_socket (sock a) s1)
                  in (Stderr (''Listen: '' @ strerror (listen_err a) @ [nl]) # evs, r))
               else
                 bind_loop strerror as (free - 1) (fds[free - 1 := sock a])
                   (close_socket (sock a) (s1\<lparr>listening := insert (sock a) (listening s1)\<rparr>))
             else ([], True, fds, s1)
           else bind_loop strerror as free fds (close_socket (sock a) s1))"

text \<open>
  The inner loop over the descriptors.  Neither branch moves on to the next descriptor.  It runs on
  fuel (\<open>None\<close>: not yet ended); \<open>Some None\<close> is the end of the loop, \<open>Some (Some c)\<close> a return from \<^verbatim>\<open>main\<close>.
\<close>

fun scan_loop :: "nat \<Rightarrow> nat \<Rightarrow> int list \<Rightarrow> (nat \<Rightarrow> int) \<Rightarrow> int option option" where
  "scan_loop 0 curr_desc fds revents = None"
| "scan_loop (Suc fuel) curr_desc fds revents =
     (if fds ! curr_desc = - 1 then Some None
      else if curr_desc \<ge> MAX_DESC then Some (Some 1)
      else if revents curr_desc AND POLLIN \<noteq> 0 then scan_loop fuel curr_desc fds revents
      else if revents curr_desc AND POLLHUP \<noteq> 0 then scan_loop fuel curr_desc fds revents
      else scan_loop fuel curr_desc fds revents)"

text \<open>\<open>polls n\<close> is the result of the \<open>n\<close>-th \<^verbatim>\<open>poll\<close> with the returned events.\<close>

fun serve_loop :: "nat \<Rightarrow> nat \<Rightarrow> (nat \<Rightarrow> int \<times> (nat \<Rightarrow> int)) \<Rightarrow> int list \<Rightarrow> int option" where
  "serve_loop 0 n polls fds = None"
| "serve_loop (Suc fuel) n polls fds =
     (let (ret_code, revents) = polls n
      in if ret_code > 0 then
           (case scan_loop fuel 0 fds revents of
              None \<Rightarrow> None
            | Some None \<Rightarrow> serve_loop fuel (Suc n) polls fds
            | Some (Some c) \<Rightarrow> Some c)
         else serve_loop fuel (Suc n) polls fds)"

record roftpd_env =
  re_addresses :: "string + address list"
  re_strerror :: "int \<Rightarrow> string"
  re_polls :: "nat \<Rightarrow> int \<times> (nat \<Rightarrow> int)"

text \<open>The exit status, \<open>None\<close> while the program is still running.\<close>

definition roftpd_main :: "nat \<Rightarrow> roftpd_env \<Rightarrow> string list \<Rightarrow> event list \<times> int option" where
  "roftpd_main fuel env argv =
     (case argv of
        [_, port] \<Rightarrow>
          (case re_addresses env of
             Inl e \<Rightarrow> ([Stderr (''getaddrinfo: '' @ e @ [nl])], Some EXIT_FAILURE)
           | Inr as \<Rightarrow>
               (let (evs, bound, fds, _) = bind_loop (re_strerror env) as 4 (replicate MAX_DESC (- 1)) \<lparr>opened = {}, listening = {}\<rparr>
                in if \<not> bound then (evs @ [Stderr (''Could not bind'' @ [nl])], Some EXIT_FAILURE)
                   else (evs, serve_loop fuel 0 (re_polls env) fds)))
      | _ \<Rightarrow> ([Stderr (''Usage: '' @ (case argv of p # _ \<Rightarrow> p | [] \<Rightarrow> []) @ '' port'' @ [nl])], Some EXIT_FAILURE))"

lemma bind_loop_few: "length as \<le> free \<Longrightarrow> \<not> fst (snd (bind_loop se as free fds s))"
proof (induction as arbitrary: free fds s)
  case (Cons a as)
  have "length as \<le> free - 1" "length as \<le> free" "0 < free" using Cons.prems by auto
  then show ?case by (simp add: Let_def split_beta Cons.IH)
qed simp

lemma bind_loop_listening: "listening s = {} \<Longrightarrow> listening (snd (snd (snd (bind_loop se as free fds s)))) = {}"
proof (induction as arbitrary: free fds s)
  case (Cons a as)
  have "listening (snd (snd (snd (bind_loop se as f d (close_socket (sock a) t))))) = {}" if "listening t \<subseteq> {sock a}" for f d t
    by (rule Cons.IH) (use that in \<open>auto simp: close_socket_def\<close>)
  then show ?case using Cons by (simp add: Let_def split_beta)
qed simp

lemma scan_loop_stuck: "scan_loop fuel 0 fds revents = (if fds ! 0 = - 1 \<and> 0 < fuel then Some None else None)"
  by (induction fuel) (auto simp: MAX_DESC_def)

lemma serve_loop_forever: "serve_loop fuel n polls fds = None"
  by (induction fuel arbitrary: n) (auto simp: scan_loop_stuck split: prod.splits option.splits)

text \<open>
  \<^verbatim>\<open>roftpd\<close> never serves a client.  With at most four addresses it reports that it could not bind, whatever
  socket, bind and listen answered.  With more it may enter its poll loop, but then no socket of the
  process listens, and however long it runs (for every fuel) it neither ends nor leaves the loop.
\<close>

theorem roftpd_never_serves:
  "(re_addresses env = Inr as \<and> length as \<le> 4 \<longrightarrow>
      (\<exists>evs. roftpd_main fuel env [prog, port] = (evs @ [Stderr (''Could not bind'' @ [nl])], Some EXIT_FAILURE))) \<and>
   listening (snd (snd (snd (bind_loop (re_strerror env) as 4 (replicate MAX_DESC (- 1)) \<lparr>opened = {}, listening = {}\<rparr>)))) = {} \<and>
   (\<forall>n polls fds. serve_loop fuel n polls fds = None) \<and>
   (\<forall>code. snd (roftpd_main fuel env [prog, port]) = Some code \<longrightarrow> code = EXIT_FAILURE)"
proof (intro conjI impI allI)
  let ?b = "bind_loop (re_strerror env) as 4 (replicate MAX_DESC (- 1)) \<lparr>opened = {}, listening = {}\<rparr>"
  show "\<exists>evs. roftpd_main fuel env [prog, port] = (evs @ [Stderr (''Could not bind'' @ [nl])], Some EXIT_FAILURE)"
    if "re_addresses env = Inr as \<and> length as \<le> 4"
    using bind_loop_few [of as 4 "re_strerror env"] that by (simp add: roftpd_main_def split_beta)
  show "listening (snd (snd (snd ?b))) = {}" by (rule bind_loop_listening) simp
  show "serve_loop fuel n polls fds = None" for n polls fds by (rule serve_loop_forever)
  show "code = EXIT_FAILURE" if "snd (roftpd_main fuel env [prog, port]) = Some code" for code
    using that by (auto simp: roftpd_main_def serve_loop_forever split: sum.splits prod.splits if_splits)
qed

theorem roftpd_never_serves_witness:
  "\<exists>evs. roftpd_main 0 \<lparr>re_addresses = Inr [\<lparr>sock = 3, binds = True, listen_err = 0\<rparr>], re_strerror = (\<lambda>_. []), re_polls = (\<lambda>_. (0, \<lambda>_. 0))\<rparr> [''roftpd'', ''80''] =
     (evs @ [Stderr (''Could not bind'' @ [nl])], Some EXIT_FAILURE)"
  using roftpd_never_serves [of "\<lparr>re_addresses = Inr [\<lparr>sock = 3, binds = True, listen_err = 0\<rparr>], re_strerror = (\<lambda>_. []), re_polls = (\<lambda>_. (0, \<lambda>_. 0))\<rparr>"
      "[\<lparr>sock = 3, binds = True, listen_err = 0\<rparr>]" 0 "''roftpd''" "''80''"] by simp

section \<open>resolvip.c\<close>

text \<open>For each address the results of the two \<^verbatim>\<open>getnameinfo\<close> calls: an error text or the numeric address, the host name.\<close>

type_synonym resolved = "(string + string) \<times> (string + string)"

fun resolve_loop :: "resolved list \<Rightarrow> event list" where
  "resolve_loop [] = []"
| "resolve_loop ((numeric, named) # rs) =
     (case numeric of
        Inl e \<Rightarrow> Stderr (''getnameinfo: '' @ e @ [nl]) # resolve_loop rs
      | Inr host \<Rightarrow>
          (case named of
             Inl e \<Rightarrow> Stderr (''Couldn'' @ [CHR 0x27] @ ''t resolve hostname getnameinfo: '' @ e @ [nl]) # resolve_loop rs
           | Inr name_host \<Rightarrow> Stdout (name_host @ '': '' @ host @ [nl]) # resolve_loop rs))"

text \<open>The resolver gives an error text, or the canonical name (with the first address) and the addresses.\<close>

definition resolvip_main :: "(string \<Rightarrow> string + (string \<times> resolved list)) \<Rightarrow> string list \<Rightarrow> event list \<times> int" where
  "resolvip_main resolve args =
     (case args of
        [host] \<Rightarrow>
          (case resolve host of
             Inl e \<Rightarrow> ([Stderr (''getaddrinfo: '' @ e @ [nl])], EXIT_FAILURE)
           | Inr (host_name, rs) \<Rightarrow> (Stdout (host_name @ [nl]) # resolve_loop rs, EXIT_SUCCESS))
      | _ \<Rightarrow> ([Stderr (''Wrong amount of args'' @ [nl])], EXIT_FAILURE))"

text \<open>The lines of the addresses for which both look-ups succeed, in the order of the resolver.\<close>

definition resolved_lines :: "resolved list \<Rightarrow> string" where
  "resolved_lines rs = concat [name @ '': '' @ host @ [nl]. (Inr host, Inr name) \<leftarrow> rs]"

lemma resolve_loop_lines: "stdout_of (resolve_loop rs) = resolved_lines rs \<and> length (resolve_loop rs) = length rs"
  by (induction rs rule: resolve_loop.induct) (auto simp: resolved_lines_def split: sum.splits)

lemma resolvip_prints:
  "resolve host = Inr (name, rs) \<Longrightarrow>
     \<exists>evs. resolvip_main resolve [host] = (evs, EXIT_SUCCESS) \<and> stdout_of evs = name @ [nl] @ resolved_lines rs \<and> length evs = Suc (length rs)"
  using resolve_loop_lines [of rs] by (simp add: resolvip_main_def)

end
