(* ===== verification/Races.thy ===== *)
theory Races
  imports C_Prelude
begin

text \<open>
  Two exercises of \<^verbatim>\<open>ex09\<close> about threads: \<^verbatim>\<open>condvar/condvar.c\<close>, whose threads wait for a flag on a condition variable,
  and \<^verbatim>\<open>pwnam/pwnam.c\<close>, whose threads share the static buffer of \<^verbatim>\<open>getpwuid\<close>.
\<close>

section \<open>condvar.c\<close>

datatype flag_pc = TNew | TLock | TWait | TAsleep | TWoken | TCheck | TUnlock | TPrint | TDone
datatype cv_main_pc = MCreate nat | MLock | MSet | MBroadcast | MUnlock | MJoin nat | MReturn

text \<open>The mutex is owned by \<open>Some 0\<close>, the main thread, or by \<open>Some (Suc i)\<close>, thread \<open>i\<close>.\<close>

record cv =
  GLOBAL_FLAG :: bool
  flag_mutex :: "nat option"
  cv_threads :: "flag_pc list"
  cv_main :: cv_main_pc
  flag_lines :: nat

definition cv_init :: "nat \<Rightarrow> cv" where
  "cv_init n = \<lparr>GLOBAL_FLAG = False, flag_mutex = None, cv_threads = replicate n TNew, cv_main = MCreate 0, flag_lines = 0\<rparr>"

definition awake :: "flag_pc \<Rightarrow> flag_pc" where
  "awake t = (if t = TAsleep then TWoken else t)"

text \<open>A step of \<^verbatim>\<open>run_thread\<close> in thread \<open>i\<close>; \<open>None\<close>: it cannot move.\<close>

definition run_thread :: "nat \<Rightarrow> cv \<Rightarrow> cv option" where
  "run_thread i s =
     (let go = (\<lambda>pc s. s\<lparr>cv_threads := (cv_threads s)[i := pc]\<rparr>)
      in case cv_threads s ! i of
           TLock \<Rightarrow> if flag_mutex s = None then Some (go TWait (s\<lparr>flag_mutex := Some (Suc i)\<rparr>)) else None
         | TWait \<Rightarrow> Some (go TAsleep (s\<lparr>flag_mutex := None\<rparr>))
         | TWoken \<Rightarrow> if flag_mutex s = None then Some (go TCheck (s\<lparr>flag_mutex := Some (Suc i)\<rparr>)) else None
         | TCheck \<Rightarrow> Some (go (if GLOBAL_FLAG s then TUnlock else TWait) s)
         | TUnlock \<Rightarrow> Some (go TPrint (s\<lparr>flag_mutex := None\<rparr>))
         | TPrint \<Rightarrow> Some (go TDone (s\<lparr>flag_lines := Suc (flag_lines s)\<rparr>))
         | _ \<Rightarrow> None)"

text \<open>A step of \<^verbatim>\<open>main\<close>; the sleep of five seconds promises nothing about the other threads.\<close>

definition run_main :: "cv \<Rightarrow> cv option" where
  "run_main s =
     (case cv_main s of
        MCreate k \<Rightarrow>
          if k < length (cv_threads s) then Some (s\<lparr>cv_threads := (cv_threads s)[k := TLock], cv_main := MCreate (Suc k)\<rparr>)
          else Some (s\<lparr>cv_main := MLock\<rparr>)
      | MLock \<Rightarrow> if flag_mutex s = None then Some (s\<lparr>flag_mutex := Some 0, cv_main := MSet\<rparr>) else None
      | MSet \<Rightarrow> Some (s\<lparr>GLOBAL_FLAG := True, cv_main := MBroadcast\<rparr>)
      | MBroadcast \<Rightarrow> Some (s\<lparr>cv_threads := map awake (cv_threads s), cv_main := MUnlock\<rparr>)
      | MUnlock \<Rightarrow> Some (s\<lparr>flag_mutex := None, cv_main := MJoin 0\<rparr>)
      | MJoin k \<Rightarrow>
          if k < length (cv_threads s) then (if cv_threads s ! k = TDone then Some (s\<lparr>cv_main := MJoin (Suc k)\<rparr>) else None)
          else Some (s\<lparr>cv_main := MReturn\<rparr>)
      | MReturn \<Rightarrow> None)"

text \<open>With \<open>sp\<close> a waiting thread may also wake up without a reason, as the standard allows.\<close>

inductive cv_step :: "bool \<Rightarrow> cv \<Rightarrow> cv \<Rightarrow> bool" for sp where
  cv_main_moves: "run_main s = Some t \<Longrightarrow> cv_step sp s t"
| cv_thread_moves: "i < length (cv_threads s) \<Longrightarrow> run_thread i s = Some t \<Longrightarrow> cv_step sp s t"
| cv_spurious: "sp \<Longrightarrow> i < length (cv_threads s) \<Longrightarrow> cv_threads s ! i = TAsleep \<Longrightarrow> cv_step sp s (s\<lparr>cv_threads := (cv_threads s)[i := TWoken]\<rparr>)"

section \<open>What the threads see\<close>

text \<open>A thread that has left the loop has seen the flag; each line is of a thread that has finished.\<close>

definition cv_inv :: "cv \<Rightarrow> bool" where
  "cv_inv s \<longleftrightarrow>
     (\<forall>i < length (cv_threads s). cv_threads s ! i \<in> {TUnlock, TPrint, TDone} \<longrightarrow> GLOBAL_FLAG s) \<and>
     flag_lines s = length (filter (\<lambda>t. t = TDone) (cv_threads s)) \<and>
     (\<forall>i < length (cv_threads s).
        case cv_main s of MJoin k \<Rightarrow> i < k \<longrightarrow> cv_threads s ! i = TDone
        | MReturn \<Rightarrow> cv_threads s ! i = TDone
        | MCreate k \<Rightarrow> k \<le> i \<longrightarrow> cv_threads s ! i = TNew
        | _ \<Rightarrow> True)"

lemma filter_done_update:
  "i < length ts \<Longrightarrow> ts ! i \<noteq> TDone \<Longrightarrow>
     length (filter (\<lambda>t. t = TDone) (ts[i := pc])) = length (filter (\<lambda>t. t = TDone) ts) + (if pc = TDone then 1 else 0)"
  using length_filter_update [of i ts "\<lambda>t. t = TDone" pc] by simp

lemma cv_inv_thread:
  assumes "cv_inv s" "i < length (cv_threads s)" "run_thread i s = Some t"
  shows "cv_inv t"
proof -
  have "\<exists>pc. t = s\<lparr>cv_threads := (cv_threads s)[i := pc], flag_mutex := flag_mutex t, flag_lines := flag_lines s + (if pc = TDone then 1 else 0)\<rparr> \<and>
      (pc \<in> {TUnlock, TPrint, TDone} \<longrightarrow> GLOBAL_FLAG s) \<and> cv_threads s ! i \<noteq> TDone \<and> cv_threads s ! i \<noteq> TNew"
    using assms by (auto simp: run_thread_def cv_inv_def Let_def split: flag_pc.splits if_splits)
  then obtain pc where t: "t = s\<lparr>cv_threads := (cv_threads s)[i := pc], flag_mutex := flag_mutex t, flag_lines := flag_lines s + (if pc = TDone then 1 else 0)\<rparr>"
      "pc \<in> {TUnlock, TPrint, TDone} \<longrightarrow> GLOBAL_FLAG s" "cv_threads s ! i \<noteq> TDone" "cv_threads s ! i \<noteq> TNew" by blast
  show ?thesis
    by (subst t(1)) (use assms(1,2) t(2-4) in \<open>auto simp: cv_inv_def filter_done_update nth_list_update split: cv_main_pc.splits\<close>)
qed

lemma awake_done: "awake t = TDone \<longleftrightarrow> t = TDone" "awake t \<in> {TUnlock, TPrint, TDone} \<longleftrightarrow> t \<in> {TUnlock, TPrint, TDone}"
  by (auto simp: awake_def)

lemma cv_inv_main:
  assumes "cv_inv s" "run_main s = Some t"
  shows "cv_inv t"
proof (cases "cv_main s")
  case (MCreate k)
  then show ?thesis using assms
    by (auto simp: run_main_def cv_inv_def filter_done_update nth_list_update split: if_splits)
next
  case MBroadcast
  have "length (filter (\<lambda>t. t = TDone) (map awake ts)) = length (filter (\<lambda>t. t = TDone) ts)" for ts
    by (induction ts) (auto simp: awake_done)
  then show ?thesis using assms MBroadcast by (auto simp: run_main_def cv_inv_def awake_def split: if_splits)
qed (use assms in \<open>auto simp: run_main_def cv_inv_def less_Suc_eq split: if_splits\<close>)

interpretation cv: invariant_system "\<lambda>s. s = cv_init n" "cv_step sp" cv_inv for n sp
proof
  show "cv_inv s" if "s = cv_init n" for s using that by (simp add: cv_inv_def cv_init_def)
  show "cv_inv t" if "cv_inv s" "cv_step sp s t" for s t
    using that(2,1)
  proof (cases rule: cv_step.cases)
    case (cv_spurious i)
    then show ?thesis using that(1)
      by (auto simp: cv_inv_def filter_done_update nth_list_update split: cv_main_pc.splits)
  qed (auto intro: cv_inv_main cv_inv_thread)
qed

section \<open>When nobody is forgotten\<close>

text \<open>After the flag is set with every thread in its wait: all have been woken or will be.\<close>

definition held :: "nat option \<Rightarrow> flag_pc list \<Rightarrow> bool" where
  "held m ts \<longleftrightarrow>
     (\<forall>i < length ts. ts ! i \<in> {TWoken, TCheck, TUnlock, TPrint, TDone} \<and> (ts ! i \<in> {TCheck, TUnlock} \<longleftrightarrow> m = Some (Suc i))) \<and>
     (m = None \<or> (\<exists>i < length ts. m = Some (Suc i)))"

definition cv_woken :: "cv \<Rightarrow> bool" where
  "cv_woken s \<longleftrightarrow> GLOBAL_FLAG s \<and>
     (case cv_main s of
        MBroadcast \<Rightarrow> flag_mutex s = Some 0 \<and> (\<forall>i < length (cv_threads s). cv_threads s ! i \<in> {TAsleep, TWoken})
      | MUnlock \<Rightarrow> flag_mutex s = Some 0 \<and> (\<forall>i < length (cv_threads s). cv_threads s ! i = TWoken)
      | MCreate _ \<Rightarrow> False | MLock \<Rightarrow> False | MSet \<Rightarrow> False
      | _ \<Rightarrow> held (flag_mutex s) (cv_threads s))"

lemma held_run:
  assumes "held (flag_mutex s) (cv_threads s)" "GLOBAL_FLAG s" "i < length (cv_threads s)" "run_thread i s = Some t"
  shows "held (flag_mutex t) (cv_threads t) \<and> GLOBAL_FLAG t \<and> cv_main t = cv_main s"
proof -
  let ?ts = "cv_threads s"
  have i: "?ts ! i \<in> {TWoken, TCheck, TUnlock, TPrint, TDone}" "?ts ! i \<in> {TCheck, TUnlock} \<longleftrightarrow> flag_mutex s = Some (Suc i)"
    and j: "\<And>j. j < length ?ts \<Longrightarrow> ?ts ! j \<in> {TWoken, TCheck, TUnlock, TPrint, TDone} \<and> (?ts ! j \<in> {TCheck, TUnlock} \<longleftrightarrow> flag_mutex s = Some (Suc j))"
    and m: "flag_mutex s = None \<or> (\<exists>i < length ?ts. flag_mutex s = Some (Suc i))"
    using assms(1,3) by (auto simp: held_def)
  show ?thesis
  proof (cases "?ts ! i")
    case TWoken
    then have "flag_mutex s = None" "t = s\<lparr>flag_mutex := Some (Suc i), cv_threads := ?ts[i := TCheck]\<rparr>"
      using assms(4) by (auto simp: run_thread_def Let_def split: if_splits)
    then show ?thesis using j assms(2,3) by (auto simp: held_def nth_list_update)
  next
    case TCheck
    then have t: "t = s\<lparr>cv_threads := ?ts[i := TUnlock]\<rparr>" "flag_mutex s = Some (Suc i)" using assms(2,4) i(2) by (auto simp: run_thread_def Let_def)
    show ?thesis unfolding t(1) using j t(2) assms(2,3) by (simp add: held_def nth_list_update)
  next
    case TUnlock
    then have t: "t = s\<lparr>flag_mutex := None, cv_threads := ?ts[i := TPrint]\<rparr>" "flag_mutex s = Some (Suc i)" using assms(4) i(2) by (auto simp: run_thread_def Let_def)
    then have "?ts ! k \<in> {TWoken, TPrint, TDone}" if "k < length ?ts" "i \<noteq> k" for k using j [OF that(1)] that(2) by auto
    then show ?thesis unfolding t(1) using assms(2,3) by (fastforce simp: held_def nth_list_update)
  next
    case TPrint
    then have t: "t = s\<lparr>flag_lines := Suc (flag_lines s), cv_threads := ?ts[i := TDone]\<rparr>" "flag_mutex s \<noteq> Some (Suc i)" using assms(4) i(2) by (auto simp: run_thread_def Let_def)
    show ?thesis unfolding t(1) using j m t(2) assms(2,3) by (auto simp: held_def nth_list_update)
  qed (use assms(4) i(1) in \<open>auto simp: run_thread_def Let_def\<close>)
qed

lemma cv_woken_thread:
  assumes "cv_woken s" "i < length (cv_threads s)" "run_thread i s = Some t"
  shows "cv_woken t"
proof (cases "\<exists>k. cv_main s = MJoin k \<or> cv_main s = MReturn")
  case True
  then have "held (flag_mutex s) (cv_threads s)" "GLOBAL_FLAG s" using assms(1) by (auto simp: cv_woken_def)
  then have "held (flag_mutex t) (cv_threads t) \<and> GLOBAL_FLAG t \<and> cv_main t = cv_main s" using held_run assms(2,3) by blast
  then show ?thesis using True by (auto simp: cv_woken_def)
next
  case False
  then have "flag_mutex s = Some 0" "cv_threads s ! i \<in> {TAsleep, TWoken}"
    using assms(1,2) by (auto simp: cv_woken_def split: cv_main_pc.splits)
  then show ?thesis using assms(3) by (auto simp: run_thread_def Let_def)
qed

lemma cv_woken_main: "cv_woken s \<Longrightarrow> run_main s = Some t \<Longrightarrow> cv_woken t"
  by (cases "cv_main s") (auto simp: cv_woken_def held_def run_main_def awake_def split: if_splits)

interpretation woken: invariant_system cv_woken "cv_step sp" cv_woken for sp
proof
  show "cv_woken t" if "cv_woken s" "cv_step sp s t" for s t
    using that(2,1)
  proof (cases rule: cv_step.cases)
    case (cv_spurious i)
    then show ?thesis using that(1) by (auto simp: cv_woken_def held_def nth_list_update split: cv_main_pc.splits)
  qed (auto intro: cv_woken_main cv_woken_thread)
qed

lemma cv_woken_progress:
  assumes "cv_woken s" "\<nexists>t. cv_step sp s t"
  shows "cv_main s = MReturn"
proof (rule ccontr)
  assume "cv_main s \<noteq> MReturn"
  have main: "run_main s = None" and thread: "\<And>i. i < length (cv_threads s) \<Longrightarrow> run_thread i s = None"
    using assms(2) cv_main_moves cv_thread_moves by (metis not_None_eq)+
  then obtain k where k: "cv_main s = MJoin k" "k < length (cv_threads s)" "cv_threads s ! k \<noteq> TDone"
    using assms(1) \<open>cv_main s \<noteq> MReturn\<close> by (cases "cv_main s") (auto simp: run_main_def cv_woken_def split: if_splits)
  have idle: "cv_threads s ! i \<notin> {TCheck, TUnlock, TPrint}" if "i < length (cv_threads s)" for i
    using thread [OF that] by (auto simp: run_thread_def Let_def)
  then have "flag_mutex s = None" using assms(1) k(1) by (auto simp: cv_woken_def held_def)
  moreover have "cv_threads s ! k = TWoken" using assms(1) k idle [OF k(2)] by (auto simp: cv_woken_def held_def)
  ultimately show False using thread [OF k(2)] by (simp add: run_thread_def)
qed

section \<open>A thread that comes too late\<close>

text \<open>\<open>Some i\<close> is a step of thread \<open>i\<close>, \<open>None\<close> a step of \<^verbatim>\<open>main\<close>.\<close>

fun cv_run :: "nat option list \<Rightarrow> cv \<Rightarrow> cv option" where
  "cv_run [] s = Some s"
| "cv_run (None # as) s = (case run_main s of None \<Rightarrow> None | Some t \<Rightarrow> cv_run as t)"
| "cv_run (Some i # as) s =
     (if i < length (cv_threads s) then (case run_thread i s of None \<Rightarrow> None | Some t \<Rightarrow> cv_run as t) else None)"

lemma cv_run_reaches: "reaches (cv_step sp) r s \<Longrightarrow> cv_run as s = Some t \<Longrightarrow> reaches (cv_step sp) r t"
  by (induction as s rule: cv_run.induct)
    (auto split: option.splits if_splits intro: reaches_step cv_main_moves cv_thread_moves)

definition late_run :: "nat option list" where
  "late_run = [None, None, None, None, None, None, None, Some 0, Some 0, Some 1, Some 1]"

lemma condvar_hangs:
  "\<exists>h. reaches (cv_step False) (cv_init 2) h \<and> GLOBAL_FLAG h \<and> cv_threads h = [TAsleep, TAsleep] \<and> (\<nexists>u. cv_step False h u)"
proof -
  define h where "h = \<lparr>GLOBAL_FLAG = True, flag_mutex = None, cv_threads = [TAsleep, TAsleep], cv_main = MJoin 0, flag_lines = 0\<rparr>"
  have "cv_run late_run (cv_init 2) = Some h" unfolding h_def by code_simp
  then have "reaches (cv_step False) (cv_init 2) h" by (rule cv_run_reaches [OF reaches_refl])
  moreover have "\<not> cv_step False h u" for u
    by (auto simp: h_def run_main_def run_thread_def Let_def less_Suc_eq numeral_2_eq_2 elim!: cv_step.cases)
  ultimately show ?thesis by (auto simp: h_def)
qed



section \<open>pwnam.c\<close>

text \<open>
  Each thread waits at the barrier, looks its user up and prints the name that it finds in the static
  buffer of \<^verbatim>\<open>getpwuid\<close>; \<open>PFound b\<close> is the state after the look-up, \<open>b\<close> whether the result was a pointer.  The copy goes
  into an array of 64 bytes.
\<close>

datatype pw_pc = PBarrier | PBlocked | PGet | PFound bool | PCopied | PStop

record pw_thread =
  pw_uid :: nat
  pw_pc :: pw_pc

record pw_sys =
  static_name :: string
  pw_threads :: "pw_thread list"
  pw_lines :: "(nat \<times> string) list"
  pw_overflow :: bool

definition pw_init :: "nat list \<Rightarrow> pw_sys" where
  "pw_init uids = \<lparr>static_name = [], pw_threads = map (\<lambda>u. \<lparr>pw_uid = u, pw_pc = PBarrier\<rparr>) uids, pw_lines = [], pw_overflow = False\<rparr>"

definition pw_go :: "nat \<Rightarrow> pw_pc \<Rightarrow> pw_sys \<Rightarrow> pw_sys" where
  "pw_go i pc s = s\<lparr>pw_threads := (pw_threads s)[i := (pw_threads s ! i)\<lparr>pw_pc := pc\<rparr>]\<rparr>"

definition pass_barrier :: "pw_thread \<Rightarrow> pw_thread" where
  "pass_barrier t = (if pw_pc t = PBlocked then t\<lparr>pw_pc := PGet\<rparr> else t)"

text \<open>\<^verbatim>\<open>print_info\<close> in thread \<open>i\<close>; \<open>db\<close> is the account database.  The barrier opens when all threads have arrived.\<close>

definition print_info :: "(nat \<Rightarrow> string option) \<Rightarrow> nat \<Rightarrow> pw_sys \<Rightarrow> pw_sys option" where
  "print_info db i s =
     (let t = pw_threads s ! i
      in if pw_overflow s then None
         else case pw_pc t of
           PBarrier \<Rightarrow>
             (let s' = pw_go i PBlocked s
              in Some (if list_all (\<lambda>t. pw_pc t = PBlocked) (pw_threads s') then s'\<lparr>pw_threads := map pass_barrier (pw_threads s')\<rparr> else s'))
         | PBlocked \<Rightarrow> None
         | PGet \<Rightarrow>
             (case db (pw_uid t) of
                None \<Rightarrow> Some (pw_go i (PFound False) s)
              | Some name \<Rightarrow> Some (pw_go i (PFound True) (s\<lparr>static_name := name\<rparr>)))
         | PFound found \<Rightarrow>
             if \<not> found then Some (pw_go i PStop s)
             else if length (static_name s) \<ge> 64 then Some (s\<lparr>pw_overflow := True\<rparr>)
             else Some (pw_go i PCopied s)
         | PCopied \<Rightarrow> Some (pw_go i PStop (s\<lparr>pw_lines := pw_lines s @ [(pw_uid t, static_name s)]\<rparr>))
         | PStop \<Rightarrow> None)"

text \<open>Error numbers of the calls of \<^verbatim>\<open>main\<close>: barrier, creation and join of each thread, destruction of the barrier.\<close>

record pwnam_env =
  pn_barrier :: int
  pn_create :: "nat \<Rightarrow> int"
  pn_join :: "nat \<Rightarrow> int"
  pn_destroy :: int

fun first_error :: "string \<Rightarrow> (nat \<Rightarrow> int) \<Rightarrow> nat \<Rightarrow> nat \<Rightarrow> event option" where
  "first_error what err i 0 = None"
| "first_error what err i (Suc k) =
     (if err i \<noteq> 0 then Some (Error (err i) (what @ ''('' @ show_nat i @ '')'')) else first_error what err (Suc i) k)"

text \<open>\<open>lines\<close> is what the threads print; the first failure goes to the label \<^verbatim>\<open>main_barrier_cleanup\<close>.\<close>

definition pwnam_main :: "pwnam_env \<Rightarrow> event list \<Rightarrow> event list \<times> int" where
  "pwnam_main env lines =
     (if pn_barrier env \<noteq> 0 then ([Error (pn_barrier env) ''pthread_barrier_init''], EXIT_FAILURE)
      else let (evs, status) =
             (case first_error ''pthread_create'' (pn_create env) 0 2 of
                Some e \<Rightarrow> ([e], EXIT_FAILURE)
              | None \<Rightarrow> (case first_error ''pthread_join'' (pn_join env) 0 2 of Some e \<Rightarrow> (lines @ [e], EXIT_FAILURE) | None \<Rightarrow> (lines, EXIT_SUCCESS)))
        in if pn_destroy env \<noteq> 0 then (evs @ [Error (pn_destroy env) ''pthread_barrier_destroy''], EXIT_FAILURE) else (evs, status))"

lemma first_error_None: "first_error what err i k = None \<longleftrightarrow> (\<forall>j. i \<le> j \<and> j < i + k \<longrightarrow> err j = 0)"
proof (induction k arbitrary: i)
  case (Suc k)
  have "(\<forall>j. i \<le> j \<and> j < i + Suc k \<longrightarrow> err j = 0) \<longleftrightarrow> err i = 0 \<and> (\<forall>j. Suc i \<le> j \<and> j < Suc i + k \<longrightarrow> err j = 0)"
    by (metis Suc_le_eq add_Suc add_Suc_right le_neq_implies_less less_add_Suc1 less_imp_le order_refl)
  then show ?case by (simp add: Suc.IH)
qed auto

text \<open>The program succeeds exactly when none of the calls fails.\<close>

lemma pwnam_status:
  "snd (pwnam_main env lines) = EXIT_SUCCESS \<longleftrightarrow>
     pn_barrier env = 0 \<and> (\<forall>i < 2. pn_create env i = 0) \<and> (\<forall>i < 2. pn_join env i = 0) \<and> pn_destroy env = 0"
  using first_error_None [of "''pthread_create''" "pn_create env" 0 2] first_error_None [of "''pthread_join''" "pn_join env" 0 2]
  by (auto simp: pwnam_main_def Let_def numeral_2_eq_2 split: option.splits prod.splits if_splits)

inductive pw_step :: "(nat \<Rightarrow> string option) \<Rightarrow> pw_sys \<Rightarrow> pw_sys \<Rightarrow> bool" for db where
  pw_moves: "i < length (pw_threads s) \<Longrightarrow> print_info db i s = Some t \<Longrightarrow> pw_step db s t"

text \<open>Whatever is in the buffer was looked up by some thread, once one of them has found its user.\<close>

definition pw_inv :: "(nat \<Rightarrow> string option) \<Rightarrow> nat list \<Rightarrow> pw_sys \<Rightarrow> bool" where
  "pw_inv db uids s \<longleftrightarrow>
     map pw_uid (pw_threads s) = uids \<and>
     (list_ex (\<lambda>t. pw_pc t = PFound True \<or> pw_pc t = PCopied) (pw_threads s) \<longrightarrow> (\<exists>v \<in> set uids. db v = Some (static_name s))) \<and>
     (\<forall>(u, name) \<in> set (pw_lines s). \<exists>v \<in> set uids. db v = Some name)"

lemma pw_go_uids: "i < length (pw_threads s) \<Longrightarrow> map pw_uid (pw_threads (pw_go i pc s)) = map pw_uid (pw_threads s)"
  by (simp add: pw_go_def map_update list_update_same_conv)

lemma pw_go_ex:
  "i < length (pw_threads s) \<Longrightarrow> list_ex P (pw_threads (pw_go i pc s)) \<Longrightarrow>
     P ((pw_threads s ! i)\<lparr>pw_pc := pc\<rparr>) \<or> list_ex P (pw_threads s)"
  by (auto simp: pw_go_def list_ex_length nth_list_update split: if_splits)

lemma pw_go_fields [simp]: "static_name (pw_go i pc s) = static_name s" "pw_lines (pw_go i pc s) = pw_lines s"
  by (simp_all add: pw_go_def)

abbreviation holds_name :: "pw_thread \<Rightarrow> bool" where
  "holds_name t \<equiv> pw_pc t = PFound True \<or> pw_pc t = PCopied"

lemma pw_inv_go:
  assumes "pw_inv db uids s" "i < length (pw_threads s)" "pc = PFound True \<or> pc = PCopied \<longrightarrow> holds_name (pw_threads s ! i)"
  shows "pw_inv db uids (pw_go i pc s)"
proof -
  have "list_ex holds_name (pw_threads s)" if "list_ex holds_name (pw_threads (pw_go i pc s))"
    using pw_go_ex [OF assms(2) that] assms(2,3) by (auto simp: list_ex_length)
  then show ?thesis using assms(1,2) by (auto simp: pw_inv_def pw_go_uids)
qed

lemma pw_inv_step:
  assumes "pw_inv db uids s" "i < length (pw_threads s)" "print_info db i s = Some t"
  shows "pw_inv db uids t"
proof (cases "pw_pc (pw_threads s ! i)")
  case PBarrier
  let ?s = "pw_go i PBlocked s"
  have go: "pw_inv db uids ?s" using assms(1,2) by (rule pw_inv_go) simp
  have "\<not> list_ex holds_name (map pass_barrier (pw_threads ?s))" if "list_all (\<lambda>t. pw_pc t = PBlocked) (pw_threads ?s)"
    using that by (auto simp: list_ex_iff list_all_iff pass_barrier_def)
  moreover have "map pw_uid (map pass_barrier ts) = map pw_uid ts" for ts by (simp add: pass_barrier_def)
  ultimately show ?thesis using assms(3) PBarrier go by (auto simp: print_info_def Let_def pw_inv_def split: if_splits)
next
  case PGet
  have u: "pw_uid (pw_threads s ! i) \<in> set uids" using assms(1,2) by (auto simp: pw_inv_def)
  show ?thesis
  proof (cases "db (pw_uid (pw_threads s ! i))")
    case None
    then show ?thesis using assms PGet pw_inv_go [OF assms(1,2), of "PFound False"] by (auto simp: print_info_def Let_def split: if_splits)
  next
    case (Some name)
    have "map pw_uid (pw_threads (pw_go i (PFound True) (s\<lparr>static_name := name\<rparr>))) = map pw_uid (pw_threads s)"
      using pw_go_uids [of i "s\<lparr>static_name := name\<rparr>"] assms(2) by simp
    then show ?thesis using assms(1,3) Some PGet u by (auto simp: pw_inv_def print_info_def Let_def split: if_splits)
  qed
next
  case (PFound found)
  then show ?thesis using assms pw_inv_go [OF assms(1,2), of PStop] pw_inv_go [OF assms(1,2), of PCopied]
    by (auto simp: print_info_def Let_def pw_inv_def split: if_splits)
next
  case PCopied
  then have "\<exists>v \<in> set uids. db v = Some (static_name s)" using assms(1,2) by (auto simp: pw_inv_def list_ex_length)
  then have "pw_inv db uids (s\<lparr>pw_lines := pw_lines s @ [(pw_uid (pw_threads s ! i), static_name s)]\<rparr>)" using assms(1) by (auto simp: pw_inv_def)
  then show ?thesis using assms(2,3) PCopied by (auto simp: print_info_def Let_def intro: pw_inv_go split: if_splits)
qed (use assms(3) in \<open>auto simp: print_info_def Let_def split: if_splits\<close>)

interpretation pw: invariant_system "\<lambda>s. s = pw_init uids" "pw_step db" "pw_inv db uids" for uids db
proof
  show "pw_inv db uids s" if "s = pw_init uids" for s using that by (auto simp: pw_inv_def pw_init_def list_ex_iff comp_def)
  show "pw_inv db uids t" if "pw_inv db uids s" "pw_step db s t" for s t using that(2,1) by (cases rule: pw_step.cases) (rule pw_inv_step)
qed

fun pw_run :: "(nat \<Rightarrow> string option) \<Rightarrow> nat list \<Rightarrow> pw_sys \<Rightarrow> pw_sys option" where
  "pw_run db [] s = Some s"
| "pw_run db (i # is) s =
     (if i < length (pw_threads s) then (case print_info db i s of None \<Rightarrow> None | Some t \<Rightarrow> pw_run db is t) else None)"

lemma pw_run_reaches: "reaches (pw_step db) r s \<Longrightarrow> pw_run db is s = Some t \<Longrightarrow> reaches (pw_step db) r t"
  by (induction db "is" s rule: pw_run.induct) (auto split: option.splits if_splits intro: reaches_step pw_moves)

text \<open>
  \<^verbatim>\<open>pwnam\<close>: every name printed is that of some user looked up; a thread that is not interrupted between
  look-up and output prints its own.  With two users of different names, though, the first
  thread can print the name of the second.
\<close>

theorem pwnam_names:
  "(reaches (pw_step db) (pw_init uids) s \<longrightarrow> (\<forall>(u, name) \<in> set (pw_lines s). \<exists>v \<in> set uids. db v = Some name)) \<and>
   (i < length (pw_threads s) \<and> pw_threads s ! i = \<lparr>pw_uid = u, pw_pc = PGet\<rparr> \<and> \<not> pw_overflow s \<and> db u = Some a \<and> length a < 64 \<longrightarrow>
      (\<exists>t. pw_run db [i, i, i] s = Some t \<and> pw_lines t = pw_lines s @ [(u, a)])) \<and>
   (db u = Some a \<and> db v = Some b \<and> length b < 64 \<longrightarrow> (\<exists>t. reaches (pw_step db) (pw_init [u, v]) t \<and> pw_lines t = [(u, b)]))"
proof (intro conjI impI)
  show "\<forall>(u, name) \<in> set (pw_lines s). \<exists>v \<in> set uids. db v = Some name" if "reaches (pw_step db) (pw_init uids) s"
    using pw.inv_reachable [OF refl that] by (simp add: pw_inv_def)
  show "\<exists>t. pw_run db [i, i, i] s = Some t \<and> pw_lines t = pw_lines s @ [(u, a)]"
    if "i < length (pw_threads s) \<and> pw_threads s ! i = \<lparr>pw_uid = u, pw_pc = PGet\<rparr> \<and> \<not> pw_overflow s \<and> db u = Some a \<and> length a < 64"
    using that by (simp add: print_info_def pw_go_def Let_def)
  assume names: "db u = Some a \<and> db v = Some b \<and> length b < 64"
  let ?t = "the (pw_run db [0, 1, 0, 1, 0, 0] (pw_init [u, v]))"
  have run: "pw_run db [0, 1, 0, 1, 0, 0] (pw_init [u, v]) = Some ?t" "pw_lines ?t = [(u, b)]"
    using names by (simp_all add: pw_init_def print_info_def pw_go_def pass_barrier_def Let_def)
  then show "\<exists>t. reaches (pw_step db) (pw_init [u, v]) t \<and> pw_lines t = [(u, b)]"
    using pw_run_reaches [OF reaches_refl run(1)] by blast
qed

theorem pwnam_names_witness:
  "\<exists>t. reaches (pw_step [0 \<mapsto> ''root'', 1000 \<mapsto> ''xlacko1'']) (pw_init [0, 1000]) t \<and> pw_lines t = [(0, ''xlacko1'')]"
proof -
  have "length ''xlacko1'' < 64" by simp
  then show ?thesis using pwnam_names [of "[0 \<mapsto> ''root'', 1000 \<mapsto> ''xlacko1'']" "[0, 1000]" _ 0 0 "''root''" 1000 "''xlacko1''"] by simp
qed

end
