(* ===== verification/File_Tree.thy ===== *)
theory File_Tree
  imports C_Prelude
begin

text \<open>
  The two programs of \<^verbatim>\<open>ex10\<close> that walk over a directory with \<^verbatim>\<open>nftw\<close>: \<^verbatim>\<open>size\<close> adds up sizes and blocks, \<^verbatim>\<open>ftw\<close> prints the
  tree.  What \<^verbatim>\<open>nftw\<close> visits is a list of entries; both callbacks return 0, so the walk is never cut short.
\<close>

section \<open>What nftw reports\<close>

datatype ftw_flag = FTW_F | FTW_D | FTW_DNR | FTW_NS | FTW_SL | FTW_DP | FTW_SLN

record ftw_entry =
  ft_path :: string
  ft_base :: nat
  ft_level :: nat
  ft_flag :: ftw_flag
  st_size :: int
  st_blocks :: int

section \<open>size.c\<close>

record totals =
  object_size :: "64 word"
  block_num :: "64 word"

definition size_callback :: "ftw_entry \<Rightarrow> totals \<Rightarrow> totals" where
  "size_callback e s =
     (case ft_flag e of
        FTW_NS \<Rightarrow> s
      | _ \<Rightarrow> \<lparr>object_size = object_size s + word_of_int (st_size e), block_num = block_num s + word_of_int (st_blocks e)\<rparr>)"

text \<open>\<open>walk\<close> is the error number of \<^verbatim>\<open>nftw\<close> or the entries it visits.  The unsigned sums are printed with \<^verbatim>\<open>%ld\<close>.\<close>

definition size_main :: "(string \<Rightarrow> int + ftw_entry list) \<Rightarrow> string list \<Rightarrow> event list \<times> int" where
  "size_main walk argv =
     (case argv of
        [_, file] \<Rightarrow>
          (case walk file of
             Inl e \<Rightarrow> ([Error e ''ntfw''], EXIT_FAILURE)
           | Inr es \<Rightarrow>
               (let s = fold size_callback es \<lparr>object_size = 0, block_num = 0\<rparr>
                in ([Stdout (''Size: '' @ show_int (sint (object_size s)) @ ''B'' @ [CHR 0x09] @ '' Blocks: '' @ show_int (sint (block_num s)) @ [nl])],
                    EXIT_SUCCESS)))
      | _ \<Rightarrow> ([Stderr (''usage: '' @ (case argv of p # _ \<Rightarrow> p | [] \<Rightarrow> []) @ '' DIRECTORY|FILE|...'' @ [nl])], EXIT_FAILURE))"

definition counted :: "ftw_entry list \<Rightarrow> ftw_entry list" where
  "counted es = filter (\<lambda>e. ft_flag e \<noteq> FTW_NS) es"

lemma size_fold:
  "fold size_callback es s =
     \<lparr>object_size = object_size s + word_of_int (\<Sum>e\<leftarrow>counted es. st_size e), block_num = block_num s + word_of_int (\<Sum>e\<leftarrow>counted es. st_blocks e)\<rparr>"
proof (induction es arbitrary: s)
  case (Cons e es)
  have "size_callback e s = (if ft_flag e = FTW_NS then s
      else \<lparr>object_size = object_size s + word_of_int (st_size e), block_num = block_num s + word_of_int (st_blocks e)\<rparr>)"
    by (simp add: size_callback_def split: ftw_flag.splits)
  then show ?case by (simp add: Cons.IH counted_def ac_simps)
qed (simp add: counted_def)

lemma sint_in_range: "- (2 ^ 63) \<le> v \<Longrightarrow> v < 2 ^ 63 \<Longrightarrow> sint (word_of_int v :: 64 word) = v"
  by (simp add: int_word_sint)

text \<open>
  \<^verbatim>\<open>size\<close> prints the sum of the sizes and of the blocks of everything that could be examined, each entry of
  the walk counted once, as long as the sums fit a signed 64-bit integer.
\<close>

theorem size_totals:
  assumes "walk file = Inr es"
    and "0 \<le> (\<Sum>e\<leftarrow>counted es. st_size e)" "(\<Sum>e\<leftarrow>counted es. st_size e) < 2 ^ 63"
    and "0 \<le> (\<Sum>e\<leftarrow>counted es. st_blocks e)" "(\<Sum>e\<leftarrow>counted es. st_blocks e) < 2 ^ 63"
  shows "size_main walk [prog, file] =
    ([Stdout (''Size: '' @ show_int (\<Sum>e\<leftarrow>counted es. st_size e) @ ''B'' @ [CHR 0x09] @ '' Blocks: '' @ show_int (\<Sum>e\<leftarrow>counted es. st_blocks e) @ [nl])],
     EXIT_SUCCESS)"
  using assms sint_in_range [of "\<Sum>e\<leftarrow>counted es. st_size e"] sint_in_range [of "\<Sum>e\<leftarrow>counted es. st_blocks e"]
  by (simp add: size_main_def size_fold)

theorem size_totals_witness:
  "size_main (\<lambda>_. Inr [\<lparr>ft_path = ''d'', ft_base = 0, ft_level = 0, ft_flag = FTW_D, st_size = 40, st_blocks = 8\<rparr>,
      \<lparr>ft_path = ''d/f'', ft_base = 2, ft_level = 1, ft_flag = FTW_F, st_size = 2, st_blocks = 1\<rparr>,
      \<lparr>ft_path = ''d/g'', ft_base = 2, ft_level = 1, ft_flag = FTW_NS, st_size = 7, st_blocks = 7\<rparr>]) [''size'', ''d''] =
    ([Stdout (''Size: 42B'' @ [CHR 0x09] @ '' Blocks: 9'' @ [nl])], EXIT_SUCCESS)"
proof -
  let ?es = "[\<lparr>ft_path = ''d'', ft_base = 0, ft_level = 0, ft_flag = FTW_D, st_size = 40, st_blocks = 8\<rparr>,
      \<lparr>ft_path = ''d/f'', ft_base = 2, ft_level = 1, ft_flag = FTW_F, st_size = 2, st_blocks = 1\<rparr>,
      \<lparr>ft_path = ''d/g'', ft_base = 2, ft_level = 1, ft_flag = FTW_NS, st_size = 7, st_blocks = 7\<rparr>]"
  have sums: "(\<Sum>e\<leftarrow>counted ?es. st_size e) = 42" "(\<Sum>e\<leftarrow>counted ?es. st_blocks e) = 9" by (simp_all add: counted_def)
  have "show_int 42 = ''42''" "show_int 9 = ''9''" by code_simp+
  then show ?thesis using size_totals [of "\<lambda>_. Inr ?es" "''d''" ?es "''size''", unfolded sums] by simp
qed

section \<open>ftw.c\<close>

definition SGR_RED :: int where "SGR_RED = 31"
definition SGR_BLUE :: int where "SGR_BLUE = 34"
definition SGR_YELLOW :: int where "SGR_YELLOW = 33"
definition SGR_CYAN :: int where "SGR_CYAN = 36"

text \<open>The type letter and the colour; the initial colour is the character \<^verbatim>\<open>'0'\<close>, the number 48.\<close>

definition ftw_style :: "ftw_flag \<Rightarrow> char \<times> int" where
  "ftw_style tf =
     (case tf of
        FTW_F \<Rightarrow> (CHR ''f'', 48)
      | FTW_DP \<Rightarrow> (CHR ''d'', SGR_BLUE) | FTW_D \<Rightarrow> (CHR ''d'', SGR_BLUE)
      | FTW_DNR \<Rightarrow> (CHR ''D'', SGR_YELLOW)
      | FTW_SL \<Rightarrow> (CHR ''l'', SGR_CYAN)
      | FTW_SLN \<Rightarrow> (CHR ''L'', SGR_RED)
      | FTW_NS \<Rightarrow> (CHR ''?'', SGR_YELLOW))"

definition ftw_callback :: "ftw_entry \<Rightarrow> string" where
  "ftw_callback e =
     (let (type, color) = ftw_style (ft_flag e)
      in replicate (2 * ft_level e) (CHR '' '') @ [type] @ '' '' @ [CHR 0x1B] @ ''['' @ show_int color @ ''m'' @
         drop (ft_base e) (ft_path e) @ [CHR 0x1B] @ ''[0m'' @ [nl])"

text \<open>When \<^verbatim>\<open>nftw\<close> fails it may have visited some entries before.\<close>

definition ftw_main :: "(string \<Rightarrow> ftw_entry list \<times> int) \<Rightarrow> string list \<Rightarrow> event list \<times> int" where
  "ftw_main walk argv =
     (case argv of
        [_, dir] \<Rightarrow>
          (let (es, err) = walk dir; out = map (\<lambda>e. Stdout (ftw_callback e)) es
           in if err \<noteq> 0 then (out @ [Error err ''ntfw''], EXIT_FAILURE) else (out, EXIT_SUCCESS))
      | _ \<Rightarrow> ([Stderr (''usage: '' @ (case argv of p # _ \<Rightarrow> p | [] \<Rightarrow> []) @ '' DIRECTORY'' @ [nl])], EXIT_FAILURE))"

text \<open>A regular file is printed with the attribute 48 where 0 was meant.\<close>

lemma ftw_regular_colour:
  "ftw_callback \<lparr>ft_path = ''d/f'', ft_base = 2, ft_level = 1, ft_flag = FTW_F, st_size = 2, st_blocks = 1\<rparr> =
     ''  f '' @ [CHR 0x1B] @ ''[48mf'' @ [CHR 0x1B] @ ''[0m'' @ [nl]"
  by code_simp

text \<open>The letters tell directories, unreadable directories, files, links, broken links and unknown entries apart.\<close>

lemma ftw_letters_distinct:
  "fst (ftw_style a) = fst (ftw_style b) \<longleftrightarrow> a = b \<or> {a, b} = {FTW_D, FTW_DP}"
  by (cases a; cases b) (simp_all add: ftw_style_def doubleton_eq_iff)

end
