(* ===== verification/Stopwatch.thy ===== *)
theory Stopwatch
  imports C_Prelude
begin

text \<open>
  Thread-specific data in \<^verbatim>\<open>ex08\<close>: the library \<^verbatim>\<open>libstopwatch\<close> with its test program, and \<^verbatim>\<open>keys/keys.c\<close>.  The value of a
  key is a function of the thread; the clock and the failures of the system are parameters of the
  operations.
\<close>

section \<open>stopwatch.c\<close>

text \<open>
  \<open>sw_key\<close>: the time that the pointer of a thread refers to, \<open>None\<close> for the null pointer; \<open>sw_leaked\<close> counts the blocks
  that nobody points to any more.
\<close>

record stopwatch =
  sw_key :: "nat \<Rightarrow> int option"
  sw_leaked :: nat

text \<open>\<open>err\<close> is the result of \<^verbatim>\<open>pthread_key_create\<close> or \<^verbatim>\<open>pthread_key_delete\<close>; a new key is null in all threads.\<close>

definition stopwatch_init :: "int \<Rightarrow> stopwatch option \<times> int" where
  "stopwatch_init err = (if err = 0 then (Some \<lparr>sw_key = (\<lambda>_. None), sw_leaked = 0\<rparr>, 0) else (None, err))"

definition stopwatch_destroy :: "int \<Rightarrow> int" where
  "stopwatch_destroy err = err"

text \<open>
  \<open>malloc_err\<close> and \<open>set_err\<close> are error numbers, 0 for success.  Without memory the program ends.  The block of an
  earlier reset is not released.
\<close>

definition stopwatch_reset :: "nat \<Rightarrow> int \<Rightarrow> int \<Rightarrow> int \<Rightarrow> stopwatch \<Rightarrow> event list \<times> (stopwatch \<times> int) outcome" where
  "stopwatch_reset tid malloc_err set_err now s =
     (if malloc_err \<noteq> 0 then ([Error malloc_err ''malloc''], Exit EXIT_FAILURE)
      else if set_err \<noteq> 0 then ([], Done (s\<lparr>sw_leaked := Suc (sw_leaked s)\<rparr>, set_err))
      else ([], Done (\<lparr>sw_key = (sw_key s)(tid := Some now), sw_leaked = sw_leaked s + (if sw_key s tid = None then 0 else 1)\<rparr>, 0)))"

text \<open>\<open>want\<close>: the caller passed a place for the result; \<open>now1\<close>, \<open>now2\<close> are the two readings of the clock.\<close>

definition stopwatch_elapsed :: "nat \<Rightarrow> bool \<Rightarrow> int \<Rightarrow> int \<Rightarrow> stopwatch \<Rightarrow> event list \<times> (int option \<times> int) outcome" where
  "stopwatch_elapsed tid want now1 now2 s =
     (case sw_key s tid of
        None \<Rightarrow> ([Stdout (''no thread specific data'' @ [nl])], if want then Fault NullDeref else Done (None, 0))
      | Some got \<Rightarrow>
          ([Stdout (''timediff: '' @ show_int (now1 - got) @ ''.000000'' @ [nl])], Done (if want then Some (got - now2) else None, 0)))"

section \<open>test.c\<close>

datatype sw_op = SwReset | SwElapsed

text \<open>What follows the reset in \<^verbatim>\<open>thread_run\<close>, given its result: a message, or four rounds and one more call.\<close>

definition after_reset :: "int \<Rightarrow> event list \<times> sw_op list" where
  "after_reset perrno =
     (if perrno \<noteq> 0 then ([Error perrno ''pthread_setspecific''], []) else ([], replicate 4 SwElapsed @ [SwElapsed]))"

text \<open>The calls of \<^verbatim>\<open>thread_run\<close> in their order, when the reset succeeds.\<close>

definition thread_run :: "sw_op list" where
  "thread_run = SwReset # snd (after_reset 0)"

text \<open>One call in thread \<open>tid\<close> when the clock shows \<open>now\<close>; nothing fails.\<close>

definition sw_call :: "nat \<Rightarrow> sw_op \<Rightarrow> int \<Rightarrow> stopwatch \<Rightarrow> stopwatch \<times> event list" where
  "sw_call tid opn now s =
     (case opn of
        SwReset \<Rightarrow> (case stopwatch_reset tid 0 0 now s of (evs, Done (t, _)) \<Rightarrow> (t, evs) | (evs, _) \<Rightarrow> (s, evs))
      | SwElapsed \<Rightarrow> (s, fst (stopwatch_elapsed tid False now now s)))"

text \<open>An interleaving of the calls of several threads, each with the time at which it happens.\<close>

fun sw_run :: "(nat \<times> sw_op \<times> int) list \<Rightarrow> stopwatch \<Rightarrow> (nat \<times> event) list" where
  "sw_run [] s = []"
| "sw_run ((tid, opn, now) # tr) s = (let (t, evs) = sw_call tid opn now s in map (Pair tid) evs @ sw_run tr t)"

text \<open>
  \<^verbatim>\<open>main\<close>: \<open>lines\<close> is what the threads print; error numbers for the allocation, the key, the creation of the threads, the
  joins and the deletion of the key.
\<close>

definition sw_main :: "int \<Rightarrow> int \<Rightarrow> int \<Rightarrow> int list \<Rightarrow> int \<Rightarrow> event list \<Rightarrow> string list \<Rightarrow> event list \<times> int" where
  "sw_main malloc_err init_err create_err joins destroy_err lines args =
     (case args of
        [a] \<Rightarrow>
          (let (v, ptr, _) = strtol 10 a; thread_num = to_int v
           in if ptr = a \<or> ptr \<noteq> [] \<or> thread_num \<le> 0 then ([Stderr (''Expected positive number!'' @ [nl])], EXIT_FAILURE)
              else if malloc_err \<noteq> 0 then ([Error malloc_err ''malloc''], EXIT_FAILURE)
              else if snd (stopwatch_init init_err) \<noteq> 0 then ([Error init_err ''pthread_key_create''], EXIT_FAILURE)
              else if create_err \<noteq> 0 then (lines @ [Error create_err ''pthread_create''], EXIT_FAILURE)
              else let evs = lines @ map (\<lambda>e. Error e ''pthread_join'') (filter (\<lambda>e. e \<noteq> 0) joins) @ [Stdout (''Threads joined'' @ [nl])]
                in if stopwatch_destroy destroy_err \<noteq> 0 then (evs @ [Error destroy_err ''pthread_key_create''], EXIT_FAILURE)
                   else (evs @ [Stdout (''Main thread ending!'' @ [nl])], EXIT_SUCCESS))
      | _ \<Rightarrow> ([Stderr (''Wrong amount of program arguments!'' @ [nl])], EXIT_FAILURE))"

section \<open>Threads do not disturb each other\<close>

lemma sw_call_key: "sw_key (fst (sw_call tid opn now s)) = (if opn = SwReset then (sw_key s)(tid := Some now) else sw_key s)"
  by (cases opn) (simp_all add: sw_call_def stopwatch_reset_def)

lemma sw_call_events:
  "snd (sw_call tid opn now s) =
     (if opn = SwReset then []
      else case sw_key s tid of
        None \<Rightarrow> [Stdout (''no thread specific data'' @ [nl])]
      | Some got \<Rightarrow> [Stdout (''timediff: '' @ show_int (now - got) @ ''.000000'' @ [nl])])"
  by (cases opn) (simp_all add: sw_call_def stopwatch_reset_def stopwatch_elapsed_def split: option.splits)

lemma sw_run_local:
  "sw_key s tid = sw_key t tid \<Longrightarrow>
     filter (\<lambda>(i, _). i = tid) (sw_run tr s) = sw_run (filter (\<lambda>(i, _). i = tid) tr) t"
proof (induction tr arbitrary: s t)
  case (Cons c tr)
  obtain i opn now where c: "c = (i, opn, now)" using prod_cases3 by blast
  have evs: "map (Pair tid) (snd (sw_call tid opn now s)) = map (Pair tid) (snd (sw_call tid opn now t))"
    using Cons.prems by (simp add: sw_call_events)
  have drop_map: "filter (\<lambda>(j, _). j = tid) (map (Pair i) xs) = (if i = tid then map (Pair i) xs else [])" for xs :: "event list"
    by (induction xs) auto
  show ?case
  proof (cases "i = tid")
    case True
    have "sw_key (fst (sw_call tid opn now s)) tid = sw_key (fst (sw_call tid opn now t)) tid" using Cons.prems by (simp add: sw_call_key)
    from Cons.IH [OF this] show ?thesis using c True evs by (simp add: Let_def split_beta drop_map [unfolded split_beta])
  next
    case False
    have "sw_key (fst (sw_call i opn now s)) tid = sw_key t tid" using Cons.prems False by (simp add: sw_call_key)
    from Cons.IH [OF this] show ?thesis using c False by (simp add: Let_def split_beta drop_map [unfolded split_beta])
  qed
qed simp

text \<open>The lines of a thread that resets at \<open>t0\<close> and asks at the times \<open>ts\<close>.\<close>

lemma sw_run_elapsed:
  "sw_key s tid = Some t0 \<Longrightarrow>
     sw_run (map (\<lambda>now. (tid, SwElapsed, now)) ts) s =
       map (\<lambda>now. (tid, Stdout (''timediff: '' @ show_int (now - t0) @ ''.000000'' @ [nl]))) ts"
proof (induction ts arbitrary: s)
  case (Cons now ts)
  have "sw_key (fst (sw_call tid SwElapsed now s)) tid = Some t0" using Cons.prems by (simp add: sw_call_key)
  then show ?case using Cons.IH Cons.prems by (simp add: Let_def split_beta sw_call_events)
qed simp

text \<open>
  The stopwatches of the threads are independent.  In any interleaving of the calls of any number of
  threads, in which thread \<open>tid\<close> makes the calls of the test program at the times \<open>t0\<close> and \<open>ts\<close>, that
  thread prints the time since its own reset each time, whatever the other threads do.
\<close>

theorem stopwatch_independent:
  assumes "filter (\<lambda>(i, _). i = tid) tr = zip (replicate 6 tid) (zip thread_run (t0 # ts))" "length ts = 5"
  shows "filter (\<lambda>(i, _). i = tid) (sw_run tr s) = map (\<lambda>now. (tid, Stdout (''timediff: '' @ show_int (now - t0) @ ''.000000'' @ [nl]))) ts"
proof -
  have calls: "zip (replicate 6 tid) (zip thread_run (t0 # ts)) = (tid, SwReset, t0) # map (\<lambda>now. (tid, SwElapsed, now)) ts"
    using assms(2) by (auto simp: thread_run_def after_reset_def numeral_eq_Suc length_Suc_conv)
  have "filter (\<lambda>(i, _). i = tid) (sw_run tr s) = sw_run ((tid, SwReset, t0) # map (\<lambda>now. (tid, SwElapsed, now)) ts) s"
    using sw_run_local [of s tid s tr] unfolding assms(1) calls by simp
  also have "\<dots> = sw_run (map (\<lambda>now. (tid, SwElapsed, now)) ts) (fst (sw_call tid SwReset t0 s))"
    by (simp add: Let_def split_beta sw_call_events)
  also have "\<dots> = map (\<lambda>now. (tid, Stdout (''timediff: '' @ show_int (now - t0) @ ''.000000'' @ [nl]))) ts"
    by (rule sw_run_elapsed) (simp add: sw_call_key)
  finally show ?thesis .
qed

theorem stopwatch_independent_witness:
  "filter (\<lambda>(i, _). i = 1)
     (sw_run [(1, SwReset, 10), (0, SwReset, 11), (1, SwElapsed, 11), (1, SwElapsed, 12), (0, SwElapsed, 12), (1, SwElapsed, 13), (1, SwElapsed, 14), (1, SwElapsed, 15)]
       \<lparr>sw_key = (\<lambda>_. None), sw_leaked = 0\<rparr>) =
   map (\<lambda>now. (1, Stdout (''timediff: '' @ show_int (now - 10) @ ''.000000'' @ [nl]))) [11, 12, 13, 14, 15]"
  by (rule stopwatch_independent) (simp_all add: thread_run_def after_reset_def numeral_eq_Suc)

text \<open>The result that the caller receives has the wrong sign.\<close>

lemma elapsed_result_negative:
  "sw_key s tid = Some t0 \<Longrightarrow> snd (stopwatch_elapsed tid True now now s) = Done (Some (- (now - t0)), 0)"
  by (simp add: stopwatch_elapsed_def)

section \<open>keys.c\<close>

text \<open>The text that a thread stores; \<^verbatim>\<open>snprintf\<close> cuts it to 31 characters.  \<open>set_err\<close> is the result of \<^verbatim>\<open>pthread_setspecific\<close>.\<close>

definition thread_print :: "string option \<Rightarrow> event" where
  "thread_print spec = Stdout (case spec of None \<Rightarrow> ''no thread specific data'' @ [nl] | Some text \<Rightarrow> ''thread '' @ text @ [nl])"

definition thread_entry :: "int \<Rightarrow> int \<Rightarrow> int \<Rightarrow> event list" where
  "thread_entry set_err i tid =
     (let text = take 31 (show_int i @ '':'' @ show_int tid)
      in if set_err \<noteq> 0 then [Error set_err ''pthread_setspecific''] else [thread_print (Some text)])"

text \<open>
  The creation loop: error numbers of \<^verbatim>\<open>pthread_create\<close>, one per thread; the result is the number of threads
  that \<^verbatim>\<open>main\<close> will join, and whether all were created.
\<close>

fun create_loop :: "nat \<Rightarrow> int list \<Rightarrow> event list \<times> nat \<times> bool" where
  "create_loop i [] = ([], i, True)"
| "create_loop i (e # es) =
     (if e \<noteq> 0 then ([Error e (''pthread_create('' @ show_nat i @ '')'')], i, False) else create_loop (Suc i) es)"

fun join_loop :: "nat \<Rightarrow> nat \<Rightarrow> (nat \<Rightarrow> int) \<Rightarrow> event list" where
  "join_loop i 0 joins = []"
| "join_loop i (Suc n) joins =
     (if joins i \<noteq> 0 then [Error (joins i) (''pthread_join('' @ show_nat i @ '')'')] else []) @ join_loop (Suc i) n joins"

definition keys_main :: "int \<Rightarrow> int list \<Rightarrow> (nat \<Rightarrow> event list) \<Rightarrow> (nat \<Rightarrow> int) \<Rightarrow> int \<Rightarrow> event list \<times> int" where
  "keys_main key_err creates lines joins delete_err =
     (if key_err \<noteq> 0 then ([Error key_err ''pthread_key_create''], EXIT_FAILURE)
      else let (evs, n, ok) = create_loop 0 creates
        in (evs @ concat (map lines [0..<n]) @ join_loop 0 n joins @
             (if delete_err \<noteq> 0 then [Error delete_err ''pthread_key_delete''] else []),
            if ok then EXIT_SUCCESS else EXIT_FAILURE))"

text \<open>Exactly the threads that were created before the first failure run and are joined.\<close>

lemma create_loop_prefix: "fst (snd (create_loop i es)) = i + length (takeWhile (\<lambda>e. e = 0) es)"
  by (induction es arbitrary: i) auto

lemma create_loop_ok: "snd (snd (create_loop i es)) \<longleftrightarrow> list_all (\<lambda>e. e = 0) es"
  by (induction es arbitrary: i) auto

end
