(* ===== verification/Werecat.thy ===== *)
theory Werecat
  imports File_Copy
begin

text \<open>
  \<^verbatim>\<open>ex11/werecat\<close>: \<^verbatim>\<open>cat\<close> for up to nine descriptors at once, with \<^verbatim>\<open>poll\<close>.  The inner loops are those of \<^verbatim>\<open>copy/slow\<close>.  A round
  of \<^verbatim>\<open>poll\<close> gives for each descriptor the returned events and what its reads deliver; for a descriptor of
  -1 it returns no events.
\<close>

section \<open>Rounds\<close>

definition POLLIN :: int where "POLLIN = 1"
definition POLLERR :: int where "POLLERR = 8"
definition POLLHUP :: int where "POLLHUP = 16"
definition POLLNVAL :: int where "POLLNVAL = 32"

type_synonym round = "(int \<times> read_ret list) list"

text \<open>The descriptor after the tests at the end of the loop body.\<close>

definition forget :: "int \<Rightarrow> int \<Rightarrow> int" where
  "forget revents fd =
     (let fd1 = (if revents AND POLLERR \<noteq> 0 then - 1 else fd);
          fd2 = (if revents AND POLLHUP \<noteq> 0 then - 1 else fd1)
      in if revents AND POLLNVAL \<noteq> 0 then - 1 else fd2)"

text \<open>
  The loop over the descriptors of one round.  \<open>failed\<close>: the last \<^verbatim>\<open>write\<close> failed (\<^verbatim>\<open>wt\<close> is negative), after which nothing
  is read any more.  The result is what is written, the descriptors and the flag.
\<close>

fun scan_round :: "(nat \<Rightarrow> transfer) \<Rightarrow> nat \<Rightarrow> int list \<Rightarrow> round \<Rightarrow> bool \<Rightarrow> byte list \<times> int list \<times> bool" where
  "scan_round wrs i (fd # fds) ((ev, reads) # rd) failed =
     (let revents = (if fd = - 1 then 0 else ev);
          (out, failed1) = (if revents AND POLLIN \<noteq> 0 \<and> \<not> failed
                            then (let (o1, _, we) = copy_loop (wrs i) 0 reads in (o1, we \<noteq> None)) else ([], failed));
          (out', fds', failed') = scan_round wrs (Suc i) fds rd failed1
      in (out @ out', forget revents fd # fds', failed'))"
| "scan_round wrs i fds rd failed = ([], fds, failed)"

text \<open>The outer loop over the rounds in which \<^verbatim>\<open>poll\<close> returned a positive number.\<close>

fun poll_loop :: "(nat \<Rightarrow> nat \<Rightarrow> transfer) \<Rightarrow> nat \<Rightarrow> int list \<Rightarrow> round list \<Rightarrow> bool \<Rightarrow> byte list \<times> int list \<times> bool" where
  "poll_loop wrs n fds [] failed = ([], fds, failed)"
| "poll_loop wrs n fds (rd # rds) failed =
     (let (out, fds', failed') = scan_round (wrs n) 0 fds rd failed;
          (out', r) = poll_loop wrs (Suc n) fds' rds failed'
      in (out @ out', r))"

text \<open>Opening the files: a descriptor or an error number.\<close>

fun open_all :: "(string \<Rightarrow> int + int) \<Rightarrow> string list \<Rightarrow> event + int list" where
  "open_all opens [] = Inr []"
| "open_all opens (f # fs) =
     (case opens f of
        Inl e \<Rightarrow> Inl (Error e (''open('' @ f @ '')''))
      | Inr fd \<Rightarrow> (case open_all opens fs of Inl e \<Rightarrow> Inl e | Inr fds \<Rightarrow> Inr (fd # fds)))"

text \<open>
  \<open>failing\<close>: after the rounds \<^verbatim>\<open>poll\<close> fails, which ends the program; otherwise it waits for ever (\<open>None\<close>), also when no
  descriptor is left.
\<close>

definition werecat_main :: "(string \<Rightarrow> int + int) \<Rightarrow> (nat \<Rightarrow> nat \<Rightarrow> transfer) \<Rightarrow> round list \<Rightarrow> bool \<Rightarrow> string list \<Rightarrow>
    event list \<times> byte list \<times> int option" where
  "werecat_main opens wrs rounds failing args =
     (if args = [] then ([Stderr ''gib some args''], [], Some EXIT_FAILURE)
      else if length args > 9
      then ([Stderr (''I am using variable length array and you can'' @ [CHR 0x27] @ ''t expect me to handle so many args'')], [], Some EXIT_FAILURE)
      else case open_all opens args of
        Inl e \<Rightarrow> ([e], [], Some EXIT_FAILURE)
      | Inr fds \<Rightarrow>
          (case poll_loop wrs 0 fds rounds False of (out, _) \<Rightarrow> ([], out, if failing then Some EXIT_SUCCESS else None)))"

section \<open>What is written\<close>

text \<open>The data of the descriptors that are ready, in the order of the rounds and of the arguments.\<close>

fun round_data :: "int list \<Rightarrow> round \<Rightarrow> byte list" where
  "round_data (fd # fds) ((ev, reads) # rd) = (if fd \<noteq> - 1 \<and> ev AND POLLIN \<noteq> 0 then read_data reads else []) @ round_data fds rd"
| "round_data _ _ = []"

fun round_fds :: "int list \<Rightarrow> round \<Rightarrow> int list" where
  "round_fds (fd # fds) ((ev, reads) # rd) = (if fd = - 1 then - 1 else forget ev fd) # round_fds fds rd"
| "round_fds fds _ = fds"

fun ready_data :: "int list \<Rightarrow> round list \<Rightarrow> byte list" where
  "ready_data fds [] = []"
| "ready_data fds (rd # rds) = round_data fds rd @ ready_data (round_fds fds rd) rds"

lemma forget_none: "forget 0 fd = fd" by (simp add: forget_def)

text \<open>
  The shape of a step: after a failure nothing is written; without one all data are written, and in
  any case a prefix of them.
\<close>

definition writes :: "bool \<Rightarrow> byte list \<Rightarrow> byte list \<Rightarrow> bool \<Rightarrow> bool" where
  "writes failed data out failed' \<longleftrightarrow>
     (failed \<longrightarrow> out = [] \<and> failed') \<and> (\<not> failed' \<longrightarrow> out = data) \<and> prefix out data"

lemma writes_append: "writes f d1 o1 f1 \<Longrightarrow> writes f1 d2 o2 f2 \<Longrightarrow> writes f (d1 @ d2) (o1 @ o2) f2"
  by (cases f; cases f1; cases f2) (auto simp: writes_def prefix_prefix)

lemma writes_copy:
  assumes "progresses wr" "copy_loop wr i reads = (out, re, we)"
  shows "writes False (read_data reads) out (we \<noteq> None)"
  using copy_loop_prefix [OF assms] by (auto simp: writes_def)

text \<open>One descriptor.\<close>

definition serve_fd :: "transfer \<Rightarrow> int \<Rightarrow> read_ret list \<Rightarrow> bool \<Rightarrow> byte list \<times> bool" where
  "serve_fd wr revents reads failed =
     (if revents AND POLLIN \<noteq> 0 \<and> \<not> failed then (let (o1, _, we) = copy_loop wr 0 reads in (o1, we \<noteq> None)) else ([], failed))"

lemma serve_fd_writes:
  "progresses wr \<Longrightarrow> serve_fd wr revents reads failed = (out, failed') \<Longrightarrow>
     writes failed (if revents AND POLLIN \<noteq> 0 then read_data reads else []) out failed'"
  using writes_copy [of wr 0 reads] by (auto simp: serve_fd_def writes_def split: if_splits prod.splits)

lemma scan_round_writes:
  assumes "\<forall>i. progresses (wrs i)" "scan_round wrs i fds rd failed = (out, fds', failed')"
  shows "writes failed (round_data fds rd) out failed' \<and> fds' = round_fds fds rd"
  using assms(2)
proof (induction fds arbitrary: i rd failed out fds' failed')
  case Nil
  then show ?case by (auto simp: writes_def)
next
  case (Cons fd fds)
  show ?case
  proof (cases rd)
    case Nil
    then show ?thesis using Cons.prems by (auto simp: writes_def)
  next
    case rd: (Cons e rd')
    obtain ev reads where e: "e = (ev, reads)" by fastforce
    let ?re = "if fd = - 1 then 0 else ev"
    obtain o1 f1 where o1: "serve_fd (wrs i) ?re reads failed = (o1, f1)" by fastforce
    obtain o2 g2 f2 where o2: "scan_round wrs (Suc i) fds rd' f1 = (o2, g2, f2)" using prod_cases3 by blast
    have step: "scan_round wrs i (fd # fds) rd failed =
        (let (o1, f1) = serve_fd (wrs i) ?re reads failed; (o2, g2, f2) = scan_round wrs (Suc i) fds rd' f1 in (o1 @ o2, forget ?re fd # g2, f2))"
      by (simp add: rd e serve_fd_def Let_def)
    have r: "out = o1 @ o2" "fds' = forget ?re fd # g2" "failed' = f2" using Cons.prems unfolding step o1 by (simp_all add: o2)
    have "writes failed (if fd \<noteq> - 1 \<and> ev AND POLLIN \<noteq> 0 then read_data reads else []) o1 f1"
      using serve_fd_writes [OF _ o1] assms(1) by (cases "fd = - 1") simp_all
    from writes_append [OF this, of "round_data fds rd'" o2 f2] show ?thesis
      using Cons.IH [OF o2] by (simp add: rd e r forget_none)
  qed
qed

lemma poll_loop_writes:
  assumes "\<forall>n i. progresses (wrs n i)" "poll_loop wrs n fds rds failed = (out, fds', failed')"
  shows "writes failed (ready_data fds rds) out failed'"
  using assms(2)
proof (induction rds arbitrary: n fds failed out)
  case (Cons rd rds)
  obtain o1 g1 f1 where o1: "scan_round (wrs n) 0 fds rd failed = (o1, g1, f1)" using prod_cases3 by blast
  obtain o2 where o2: "poll_loop wrs (Suc n) g1 rds f1 = (o2, fds', failed')" "out = o1 @ o2"
    using Cons.prems o1 by (auto split: prod.splits)
  have r1: "writes failed (round_data fds rd) o1 f1" "g1 = round_fds fds rd" using scan_round_writes [OF _ o1] assms(1) by auto
  show ?case using writes_append [OF r1(1) Cons.IH [OF o2(1)]] by (simp add: o2(2) r1(2))
qed (auto simp: writes_def)

text \<open>Without failing writes the flag stays off.\<close>

lemma scan_round_ok:
  "\<forall>i. progresses (wrs i) \<Longrightarrow> \<forall>i. never_fails (wrs i) \<Longrightarrow> \<not> snd (snd (scan_round wrs i fds rd False))"
proof (induction fds arbitrary: i rd)
  case (Cons fd fds)
  show ?case
  proof (cases rd)
    case rd: (Cons e rd')
    then show ?thesis using Cons.IH [OF Cons.prems, of "Suc i" rd'] Cons.prems
      by (cases e) (simp add: copy_loop_complete Let_def split_beta)
  qed simp
qed simp

lemma poll_loop_ok:
  assumes "\<forall>n i. progresses (wrs n i)" "\<forall>n i. never_fails (wrs n i)" "poll_loop wrs n fds rds False = (out, fds', failed)"
  shows "\<not> failed"
  using assms(3)
proof (induction rds arbitrary: n fds out)
  case (Cons rd rds)
  obtain o1 g1 f1 where o1: "scan_round (wrs n) 0 fds rd False = (o1, g1, f1)" using prod_cases3 by blast
  have "\<not> f1" using scan_round_ok [of "wrs n" 0 fds rd] o1 assms(1,2) by simp
  then show ?case using Cons o1 by (auto split: prod.splits)
qed simp

text \<open>
  What \<^verbatim>\<open>werecat\<close> writes is a prefix of the data of its inputs in the order in which \<^verbatim>\<open>poll\<close> reported them ready,
  and all of it unless a write failed.  It ends only when \<^verbatim>\<open>poll\<close> fails, not when its inputs do.
\<close>

theorem werecat_copies:
  assumes "\<forall>n i. progresses (wrs n i)" "open_all opens args = Inr fds" "args \<noteq> []" "length args \<le> 9"
  shows "\<exists>out. werecat_main opens wrs rounds failing args = ([], out, if failing then Some EXIT_SUCCESS else None) \<and>
    prefix out (ready_data fds rounds) \<and> ((\<forall>n i. never_fails (wrs n i)) \<longrightarrow> out = ready_data fds rounds)"
proof -
  obtain out fds' failed where run: "poll_loop wrs 0 fds rounds False = (out, fds', failed)" using prod_cases3 by blast
  have "writes False (ready_data fds rounds) out failed" by (rule poll_loop_writes [OF assms(1) run])
  moreover have "\<not> failed" if "\<forall>n i. never_fails (wrs n i)" using poll_loop_ok [OF assms(1) that run] by simp
  ultimately show ?thesis using assms(2-4) run by (auto simp: werecat_main_def writes_def)
qed

theorem werecat_copies_witness:
  "\<exists>out. werecat_main (\<lambda>f. Inr 3) (\<lambda>_ _ _. Inr 1) [[(1, [Got [0x61, 0x62]])], [(17, [Got [0x63]])]] False [''f''] = ([], out, None) \<and> out = [0x61, 0x62, 0x63]"
proof -
  have "ready_data [3] [[(1, [Got [0x61, 0x62]])], [(17, [Got [0x63]])]] = [0x61, 0x62, 0x63 :: byte]"
    by (simp add: POLLIN_def forget_def POLLERR_def POLLHUP_def POLLNVAL_def)
  then show ?thesis
    using werecat_copies [of "\<lambda>_ _ _. Inr 1" "\<lambda>f. Inr 3" "[''f'']" "[3]" "[[(1, [Got [0x61, 0x62]])], [(17, [Got [0x63]])]]" False]
    by (auto simp: progresses_def never_fails_def)
qed

end
