(* ===== verification/Wwc.thy ===== *)
theory Wwc
  imports C_Prelude
begin

text \<open>
  \<^verbatim>\<open>ex04/wwc\<close>: count the bytes and the characters of files.  What a character is depends on the locale; \<^verbatim>\<open>mbrlen\<close> is an
  argument of the model.  The locale \<open>charset\<close> states what an encoding promises, and is interpreted by
  UTF-8 and by the single-byte encodings.
\<close>

section \<open>The program\<close>

text \<open>
  The result of \<^verbatim>\<open>mbrlen\<close> on the rest of a line: the length of the first character, 0 for a NUL, or -1 and -2 for
  bytes that are no character or only the beginning of one; as a \<^verbatim>\<open>size_t\<close> these are larger than any line.
\<close>

type_synonym mbrlen_fun = "string \<Rightarrow> int"

text \<open>The loop over the characters of a line: the messages and the number of characters.\<close>

function char_loop :: "mbrlen_fun \<Rightarrow> string \<Rightarrow> event list \<times> nat" where
  "char_loop mbrlen line =
     (if line = [] then ([], 0)
      else let n = mbrlen line; e = Stdout (''byte_size = '' @ show_int n @ [nl])
        in if n = 0 \<or> n < 0 \<or> n > int (length line) then ([e], 0)
           else let (evs, k) = char_loop mbrlen (drop (nat n) line) in (e # evs, Suc k))"
  by pat_completeness auto
termination by (relation "measure (\<lambda>(_, line). length line)") auto

declare char_loop.simps [simp del]

text \<open>The loop over the lines of a file, with the counters for bytes and characters; \<^verbatim>\<open>puts\<close> adds a newline.\<close>

fun line_loop :: "mbrlen_fun \<Rightarrow> nat \<Rightarrow> nat \<Rightarrow> string list \<Rightarrow> event list \<times> nat \<times> nat" where
  "line_loop mbrlen bytes chars [] = ([], bytes, chars)"
| "line_loop mbrlen bytes chars (l # ls) =
     (let (evs, k) = char_loop mbrlen (cstr l);
          (evs', r) = line_loop mbrlen (bytes + length l) (chars + k) ls
      in (Stdout (cstr l @ [nl]) # evs @ evs', r))"

definition count_file :: "mbrlen_fun \<Rightarrow> string \<times> string \<Rightarrow> event list" where
  "count_file mbrlen f =
     (let (name, contents) = f; (evs, bytes, chars) = line_loop mbrlen 0 0 (input_lines contents)
      in evs @ [Stdout (name @ '': bytes='' @ show_nat bytes @ '' chars='' @ show_nat chars @ [nl])])"

text \<open>
  The array of streams, which \<^verbatim>\<open>calloc\<close> filled with null pointers: opening stops at the first file that cannot be
  opened.  \<^verbatim>\<open>close_files\<close> closes the streams before the first null pointer and leaves the others.
\<close>

fun open_files :: "(string \<Rightarrow> string option) \<Rightarrow> string list \<Rightarrow> (string \<times> string) option list \<times> bool" where
  "open_files fs [] = ([], True)"
| "open_files fs (n # ns) =
     (case fs n of
        None \<Rightarrow> (replicate (length (n # ns)) None, False)
      | Some c \<Rightarrow> (let (files, ok) = open_files fs ns in (Some (n, c) # files, ok)))"

fun close_files :: "'f option list \<Rightarrow> nat \<Rightarrow> 'f option list" where
  "close_files (Some f # files) (Suc len) = close_files files len"
| "close_files files len = files"

definition still_open :: "('f option) list \<Rightarrow> 'f list" where
  "still_open files = map the (filter (\<lambda>f. f \<noteq> None) files)"

text \<open>
  \<open>loc0\<close> is the name of the initial locale, \<open>loc\<close> that of the locale of the environment (\<open>None\<close>: there is no such locale);
  \<open>alloc\<close> tells whether \<^verbatim>\<open>calloc\<close> succeeded.  The last component are the files that are open when \<^verbatim>\<open>main\<close> returns.
\<close>

definition wwc_main :: "mbrlen_fun \<Rightarrow> string \<Rightarrow> string option \<Rightarrow> bool \<Rightarrow> (string \<Rightarrow> string option) \<Rightarrow> string list \<Rightarrow>
    event list \<times> int outcome \<times> (string \<times> string) list" where
  "wwc_main mbrlen loc0 loc alloc fs args =
     (case loc of
        None \<Rightarrow> ([Stdout (loc0 @ [nl])], Fault AssertFailed, [])
      | Some l \<Rightarrow>
          (let start = [Stdout (loc0 @ [nl]), Stdout (l @ [nl])]
           in if \<not> alloc then (start, Done EXIT_FAILURE, [])
              else case open_files fs args of (files, ok) \<Rightarrow>
                if \<not> ok then (start, Done EXIT_FAILURE, still_open (close_files files (length args)))
                else (start @ concat (map (\<lambda>f. count_file mbrlen (the f)) files), Done EXIT_SUCCESS, still_open files)))"

section \<open>Encodings\<close>

lemma input_lines_prepend:
  "l \<noteq> [] \<Longrightarrow> nl \<notin> set l \<Longrightarrow> input_lines (l @ s) = (case input_lines s of [] \<Rightarrow> [l] | x # xs \<Rightarrow> (l @ x) # xs)"
proof (induction l)
  case (Cons c l)
  then show ?case by (cases l) (auto split: list.splits)
qed simp

locale charset =
  fixes mbrlen :: mbrlen_fun and enc :: "'c \<Rightarrow> string" and ok :: "'c \<Rightarrow> bool"
  assumes mbrlen_enc: "ok c \<Longrightarrow> mbrlen (enc c @ s) = int (length (enc c))"
    and enc_nonempty: "ok c \<Longrightarrow> enc c \<noteq> []"
    and enc_nul: "ok c \<Longrightarrow> nul \<notin> set (enc c)"
    and enc_nl: "ok c \<Longrightarrow> nl \<in> set (enc c) \<Longrightarrow> enc c = [nl]"
begin

lemma char_loop_count: "list_all ok cs \<Longrightarrow> snd (char_loop mbrlen (concat (map enc cs))) = length cs"
proof (induction cs)
  case Nil
  show ?case by (simp add: char_loop.simps)
next
  case (Cons c cs)
  then have "0 < length (enc c)" using enc_nonempty by simp
  then show ?case using Cons mbrlen_enc [of c]
    by (subst char_loop.simps) (simp add: Let_def split_beta)
qed

lemma text_lines:
  "list_all ok cs \<Longrightarrow> \<exists>css. input_lines (concat (map enc cs)) = map (\<lambda>l. concat (map enc l)) css \<and> concat css = cs \<and> list_all (list_all ok) css"
proof (induction cs)
  case (Cons c cs)
  then obtain css where css: "input_lines (concat (map enc cs)) = map (\<lambda>l. concat (map enc l)) css" "concat css = cs" "list_all (list_all ok) css" by auto
  show ?case
  proof (cases "nl \<in> set (enc c)")
    case True
    then have "enc c = [nl]" using Cons.prems enc_nl by simp
    then show ?thesis using css Cons.prems by (intro exI [of _ "[c] # css"]) simp
  next
    case False
    have "enc c \<noteq> []" using Cons.prems enc_nonempty by simp
    note lines = input_lines_prepend [OF this False]
    show ?thesis
    proof (cases css)
      case Nil
      then show ?thesis using css Cons.prems lines [of "concat (map enc cs)"] by (intro exI [of _ "[[c]]"]) simp
    next
      case (Cons l ls)
      then show ?thesis using css \<open>list_all ok (c # cs)\<close> lines by (intro exI [of _ "(c # l) # ls"]) auto
    qed
  qed
qed (auto intro: exI [of _ "[]"])

lemma line_cstr: "list_all ok cs \<Longrightarrow> cstr (concat (map enc cs)) = concat (map enc cs)"
  by (rule cstr_id) (auto simp: list_all_iff dest: enc_nul)

lemma line_loop_count:
  "list_all (list_all ok) css \<Longrightarrow>
     snd (line_loop mbrlen bytes chars (map (\<lambda>l. concat (map enc l)) css)) =
       (bytes + length (concat (map enc (concat css))), chars + length (concat css))"
proof (induction css arbitrary: bytes chars)
  case (Cons l css)
  then show ?case by (simp add: Let_def split_beta line_cstr char_loop_count)
qed simp

lemma count_text:
  assumes "list_all ok cs"
  shows "\<exists>evs. count_file mbrlen (name, concat (map enc cs)) =
    evs @ [Stdout (name @ '': bytes='' @ show_nat (length (concat (map enc cs))) @ '' chars='' @ show_nat (length cs) @ [nl])]"
proof -
  obtain css where css: "input_lines (concat (map enc cs)) = map (\<lambda>l. concat (map enc l)) css" "concat css = cs" "list_all (list_all ok) css"
    using text_lines [OF assms] by blast
  show ?thesis using line_loop_count [OF css(3), of 0 0] css(1,2) by (simp add: count_file_def split_beta)
qed

end

section \<open>UTF-8\<close>

definition utf8_enc :: "nat \<Rightarrow> string" where
  "utf8_enc cp =
     (if cp < 0x80 then [char_of cp]
      else if cp < 0x800 then [char_of (0xC0 + cp div 64), char_of (0x80 + cp mod 64)]
      else if cp < 0x10000 then [char_of (0xE0 + cp div 4096), char_of (0x80 + cp div 64 mod 64), char_of (0x80 + cp mod 64)]
      else [char_of (0xF0 + cp div 262144), char_of (0x80 + cp div 4096 mod 64), char_of (0x80 + cp div 64 mod 64), char_of (0x80 + cp mod 64)])"

text \<open>The code points that text can contain: no NUL, no surrogates.\<close>

definition scalar :: "nat \<Rightarrow> bool" where
  "scalar cp \<longleftrightarrow> 0 < cp \<and> cp < 0x110000 \<and> \<not> (0xD800 \<le> cp \<and> cp < 0xE000)"

text \<open>\<^verbatim>\<open>mbrlen\<close> in a UTF-8 locale, on the bytes as numbers.\<close>

definition cont :: "nat \<Rightarrow> bool" where "cont b \<longleftrightarrow> 0x80 \<le> b \<and> b < 0xC0"

definition utf8_len :: "nat list \<Rightarrow> int" where
  "utf8_len bs =
     (case bs of
        [] \<Rightarrow> - 2
      | b # cs \<Rightarrow>
          if b = 0 then 0
          else if b < 0x80 then 1
          else if 0xC2 \<le> b \<and> b < 0xE0 then
            (case cs of [] \<Rightarrow> - 2 | c # _ \<Rightarrow> if cont c then 2 else - 1)
          else if 0xE0 \<le> b \<and> b < 0xF0 then
            (case cs of
               c # d # _ \<Rightarrow> if cont c \<and> cont d \<and> (b = 0xE0 \<longrightarrow> 0xA0 \<le> c) \<and> (b = 0xED \<longrightarrow> c < 0xA0) then 3 else - 1
             | _ \<Rightarrow> - 2)
          else if 0xF0 \<le> b \<and> b < 0xF5 then
            (case cs of
               c # d # e # _ \<Rightarrow>
                 if cont c \<and> cont d \<and> cont e \<and> (b = 0xF0 \<longrightarrow> 0x90 \<le> c) \<and> (b = 0xF4 \<longrightarrow> c < 0x90) then 4 else - 1
             | _ \<Rightarrow> - 2)
          else - 1)"

definition utf8_mbrlen :: mbrlen_fun where
  "utf8_mbrlen s = utf8_len (map of_char s)"

lemma of_char_small: "n < 256 \<Longrightarrow> of_char (char_of n :: char) = n" for n :: nat
  by (simp add: of_char_of)

lemma digits64:
  "cp = 64 * (cp div 64) + cp mod 64" "cp div 64 = 64 * (cp div 4096) + cp div 64 mod 64" "cp div 4096 = 64 * (cp div 262144) + cp div 4096 mod 64" for cp :: nat
  using div_mult2_eq [of cp 64 64] div_mult2_eq [of cp 4096 64] by simp_all

lemma mod64: "cp mod 64 < 64" for cp :: nat by simp

lemma utf8_bytes:
  assumes "scalar cp"
  shows "map of_char (utf8_enc cp) =
    (if cp < 0x80 then [cp]
     else if cp < 0x800 then [0xC0 + cp div 64, 0x80 + cp mod 64]
     else if cp < 0x10000 then [0xE0 + cp div 4096, 0x80 + cp div 64 mod 64, 0x80 + cp mod 64]
     else [0xF0 + cp div 262144, 0x80 + cp div 4096 mod 64, 0x80 + cp div 64 mod 64, 0x80 + cp mod 64 :: nat])"
proof -
  have m: "0x80 + x mod 64 < 256" for x :: nat using mod64 [of x] by linarith
  have "cp < 0x800 \<Longrightarrow> 0xC0 + cp div 64 < 256" "cp < 0x10000 \<Longrightarrow> 0xE0 + cp div 4096 < 256" "0xF0 + cp div 262144 < 256"
    using assms by (simp_all add: scalar_def less_mult_imp_div_less)
  with m show ?thesis by (simp add: utf8_enc_def of_char_small)
qed

lemma utf8_len_enc:
  assumes "scalar cp"
  shows "utf8_len (map of_char (utf8_enc cp) @ bs) = int (length (utf8_enc cp))"
proof -
  define a b c d where "a = cp div 262144" and "b = cp div 4096 mod 64" and "c = cp div 64 mod 64" and "d = cp mod 64"
  have d: "cp div 64 = 64 * (cp div 4096) + c" "cp div 4096 = 64 * a + b" "cp = 64 * (cp div 64) + d" "b < 64" "c < 64" "d < 64"
    using digits64 [of cp] by (simp_all add: a_def b_def c_def d_def)
  have cont: "cont (0x80 + b)" "cont (0x80 + c)" "cont (0x80 + d)" using d by (simp_all add: cont_def)
  consider "cp < 0x80" | "0x80 \<le> cp" "cp < 0x800" | "0x800 \<le> cp" "cp < 0x10000" | "0x10000 \<le> cp" by linarith
  then show ?thesis
  proof cases
    case 2
    then have "2 \<le> cp div 64" "cp div 64 < 32" using d by linarith+
    then show ?thesis using 2 cont utf8_bytes [OF assms] by (simp add: utf8_len_def d_def utf8_enc_def)
  next
    case 3
    have "cp < 0xD800 \<or> 0xE000 \<le> cp" using assms by (auto simp: scalar_def)
    then have "cp div 4096 = 13 \<Longrightarrow> c < 32" using d(1,3,5,6) by (elim disjE) linarith+
    moreover have "cp div 4096 < 16" "cp div 4096 = 0 \<Longrightarrow> 32 \<le> c" using 3 d(1,3,6) by linarith+
    ultimately show ?thesis using 3 cont utf8_bytes [OF assms] by (auto simp: utf8_len_def c_def d_def utf8_enc_def)
  next
    case 4
    then have "a < 5" "a = 0 \<Longrightarrow> 16 \<le> b" "a = 4 \<Longrightarrow> b < 16" using d assms by (auto simp: scalar_def)
    then show ?thesis using 4 cont utf8_bytes [OF assms] by (auto simp: utf8_len_def a_def b_def c_def d_def utf8_enc_def)
  qed (use assms utf8_bytes [OF assms] in \<open>simp add: utf8_len_def scalar_def utf8_enc_def\<close>)
qed

lemma utf8_byte_range: "scalar cp \<Longrightarrow> x \<in> set (utf8_enc cp) \<Longrightarrow> of_char x = cp \<and> cp < 0x80 \<or> 0x80 \<le> (of_char x :: nat)"
proof -
  assume "scalar cp" "x \<in> set (utf8_enc cp)"
  then have "of_char x \<in> set (map of_char (utf8_enc cp) :: nat list)" by simp
  then show ?thesis unfolding utf8_bytes [OF \<open>scalar cp\<close>] by (auto split: if_splits)
qed

interpretation utf8: charset utf8_mbrlen utf8_enc scalar
proof
  fix cp assume ok: "scalar cp"
  show "utf8_mbrlen (utf8_enc cp @ s) = int (length (utf8_enc cp))" for s
    using utf8_len_enc [OF ok, of "map of_char s"] by (simp add: utf8_mbrlen_def)
  show "utf8_enc cp \<noteq> []" by (simp add: utf8_enc_def)
  show "nul \<notin> set (utf8_enc cp)" using utf8_byte_range [OF ok, of nul] ok by (auto simp: nul_def scalar_def)
  show "utf8_enc cp = [nl]" if "nl \<in> set (utf8_enc cp)"
    using utf8_byte_range [OF ok that] by (auto simp: nl_def utf8_enc_def char_of_eq_iff)
qed

text \<open>A single-byte encoding: each byte but the NUL is a character.\<close>

interpretation single: charset "\<lambda>s. if s = [] then - 2 else if hd s = nul then 0 else 1" "\<lambda>c. [c]" "\<lambda>c. c \<noteq> nul"
  by unfold_locales auto

text \<open>The files are opened in the order of the arguments; after a failure none stays open.\<close>

lemma open_files_all: "list_all (\<lambda>n. fs n \<noteq> None) ns \<Longrightarrow> open_files fs ns = (map (\<lambda>n. Some (n, the (fs n))) ns, True)"
  by (induction ns) auto

lemma open_files_fails: "\<not> list_all (\<lambda>n. fs n \<noteq> None) ns \<Longrightarrow> snd (open_files fs ns) = False"
  by (induction ns) (auto split: option.splits prod.splits)

lemma close_after_failure:
  "open_files fs ns = (files, False) \<Longrightarrow> still_open (close_files files (length ns)) = []"
  by (induction ns arbitrary: files) (auto simp: still_open_def split: option.splits prod.splits)

text \<open>The line that \<^verbatim>\<open>wwc\<close> owes for a file with the given characters.\<close>

definition report :: "string \<Rightarrow> nat list \<Rightarrow> event" where
  "report name cps = Stdout (name @ '': bytes='' @ show_nat (length (concat (map utf8_enc cps))) @ '' chars='' @ show_nat (length cps) @ [nl])"

text \<open>
  C40: \<^verbatim>\<open>wwc\<close> in a UTF-8 locale prints for each file, in the order of the arguments, the number of its bytes and the
  number of its characters, for all texts of Unicode characters without NUL, whatever their lines.  When a file
  cannot be opened it fails, prints no count and has closed the files opened before; after a success all files
  are still open when \<^verbatim>\<open>main\<close> returns.
\<close>

theorem wwc_counts_utf8:
  assumes "list_all (\<lambda>n. list_all scalar (cps n) \<and> (fs n = None \<or> fs n = Some (concat (map utf8_enc (cps n))))) names"
  shows "case wwc_main utf8_mbrlen loc0 (Some loc) True fs names of (evs, res, left) \<Rightarrow>
    if list_all (\<lambda>n. fs n \<noteq> None) names
    then res = Done EXIT_SUCCESS \<and> map fst left = names \<and>
      (\<exists>f. evs = [Stdout (loc0 @ [nl]), Stdout (loc @ [nl])] @ concat (map (\<lambda>n. f n @ [report n (cps n)]) names))
    else res = Done EXIT_FAILURE \<and> left = [] \<and> evs = [Stdout (loc0 @ [nl]), Stdout (loc @ [nl])]"
proof (cases "list_all (\<lambda>n. fs n \<noteq> None) names")
  case True
  have "\<exists>e. count_file utf8_mbrlen (n, the (fs n)) = e @ [report n (cps n)]" if "n \<in> set names" for n
  proof -
    have "list_all scalar (cps n)" "fs n = Some (concat (map utf8_enc (cps n)))" using that assms True unfolding list_all_iff by blast+
    then show ?thesis using utf8.count_text [of "cps n" n] by (auto simp: report_def)
  qed
  then obtain f where f: "\<forall>n \<in> set names. count_file utf8_mbrlen (n, the (fs n)) = f n @ [report n (cps n)]" by metis
  have "concat (map (\<lambda>n. count_file utf8_mbrlen (n, the (fs n))) names) = concat (map (\<lambda>n. f n @ [report n (cps n)]) names)"
    using f by (metis (no_types, lifting) map_eq_conv)
  then show ?thesis using True by (auto simp: wwc_main_def open_files_all still_open_def comp_def)
next
  case False
  obtain files where "open_files fs names = (files, False)" using open_files_fails [OF False] by (cases "open_files fs names") auto
  with False show ?thesis by (auto simp: wwc_main_def close_after_failure)
qed

theorem wwc_counts_utf8_witness:
  "\<exists>evs left. wwc_main utf8_mbrlen ''C'' (Some ''C.UTF-8'') True (\<lambda>_. Some (concat (map utf8_enc [0x161, 0x0A, 0x20AC]))) [''f''] =
     (evs @ [Stdout (''f: bytes=6 chars=3'' @ [nl])], Done EXIT_SUCCESS, left)"
proof -
  have "length (concat (map utf8_enc [0x161, 0x0A, 0x20AC])) = 6" by (simp add: utf8_enc_def)
  moreover have "show_nat 6 = ''6''" "show_nat 3 = ''3''" by code_simp+
  ultimately have r: "report ''f'' [0x161, 0x0A, 0x20AC] = Stdout (''f: bytes=6 chars=3'' @ [nl])" by (simp add: report_def numeral_3_eq_3)
  have "list_all scalar [0x161, 0x0A, 0x20AC]" by (simp add: scalar_def)
  with wwc_counts_utf8 [of "\<lambda>_. [0x161, 0x0A, 0x20AC]" "\<lambda>_. Some (concat (map utf8_enc [0x161, 0x0A, 0x20AC]))" "[''f'']" "''C''" "''C.UTF-8''"] r
  show ?thesis by (cases "wwc_main utf8_mbrlen ''C'' (Some ''C.UTF-8'') True (\<lambda>_. Some (concat (map utf8_enc [0x161, 0x0A, 0x20AC]))) [''f'']") auto
qed

text \<open>The loop over the characters ends in every locale, and a line is never counted past its end.\<close>

lemma char_loop_bound: "snd (char_loop mbrlen line) \<le> length line"
proof (induction mbrlen line rule: char_loop.induct)
  case (1 mbrlen line)
  show ?case
  proof (cases "line = [] \<or> mbrlen line \<le> 0 \<or> mbrlen line > int (length line)")
    case True
    then show ?thesis by (subst char_loop.simps) (auto simp: Let_def)
  next
    case False
    then have "snd (char_loop mbrlen (drop (nat (mbrlen line)) line)) \<le> length (drop (nat (mbrlen line)) line)"
      using 1 by (auto simp: not_le)
    then show ?thesis using False by (subst char_loop.simps) (auto simp: Let_def split_beta)
  qed
qed

end
