(* ===== verification/Fences.thy ===== *)
theory Fences
  imports Getopt
begin

text \<open>
  Programs that prepare their process and then execute another: \<^verbatim>\<open>ex06/seccomp\<close> and \<^verbatim>\<open>ex10/fsfence\<close> forbid system
  calls, \<^verbatim>\<open>ex06/alarm/alarm.c\<close> sets an alarm, and \<^verbatim>\<open>ex06/alarm/troll.c\<close> is a program that escapes from it.  The
  library \<^verbatim>\<open>libseccomp\<close> is a parameter: the results of its calls; a filter that was loaded denies the calls
  of its rules and allows the others, in the process and in what it executes.
\<close>

section \<open>seccomp.c and fsfence.c\<close>

definition EPERM :: int where "EPERM = 1"

definition seccomp_rules :: "string list" where
  "seccomp_rules = [''chmod'', ''unlink'', ''unlinkat'', ''rmdir'', ''truncate'', ''bind'', ''connect'', ''sendto'', ''socket'']"

definition fsfence_rules :: "string list" where
  "fsfence_rules = [''chmod'', ''unlink'', ''unlinkat'']"

text \<open>\<open>sl_init\<close> is the error number of a failed \<^verbatim>\<open>seccomp_init\<close> (0: success), \<open>sl_add\<close> and \<open>sl_load\<close> are the results of the calls and \<open>sl_errno\<close> what \<^verbatim>\<open>errno\<close> holds after a failure.\<close>

record seccomp_lib =
  sl_init :: int
  sl_add :: "string \<Rightarrow> int"
  sl_load :: int
  sl_errno :: int

text \<open>The rules in the context after the calls of \<^verbatim>\<open>seccomp_rule_add\<close>; \<open>None\<close> when one fails.\<close>

fun add_rules :: "seccomp_lib \<Rightarrow> string list \<Rightarrow> string list \<Rightarrow> string list option" where
  "add_rules lib ctx [] = Some ctx"
| "add_rules lib ctx (r # rs) = (if sl_add lib r < 0 then None else add_rules lib (ctx @ [r]) rs)"

text \<open>The filter that is in force afterwards, or the message with which the program exits.\<close>

definition setup_seccomp :: "seccomp_lib \<Rightarrow> string list \<Rightarrow> event + string list" where
  "setup_seccomp lib rules =
     (if sl_init lib \<noteq> 0 then Inl (Error (sl_init lib) ''seccomp_init'')
      else case add_rules lib [] rules of
        None \<Rightarrow> Inl (Error (sl_errno lib) ''failed to set up seccomp'')
      | Some ctx \<Rightarrow> if sl_load lib < 0 then Inl (Error (sl_errno lib) ''failed to set up seccomp'') else Inr ctx)"

definition fence_usage :: "string \<Rightarrow> event" where
  "fence_usage argv0 = Stderr (''usage: '' @ basename argv0 @ '' PROGRAM [PARAMETERS]'' @ [nl])"

text \<open>\<open>Inr (filter, argv)\<close>: the program \<open>argv\<close> runs under the filter.\<close>

definition fence_main :: "string list \<Rightarrow> seccomp_lib \<Rightarrow> (string \<Rightarrow> int) \<Rightarrow> string list \<Rightarrow> event list + (string list \<times> string list)" where
  "fence_main rules lib exec_err argv =
     (case argv of
        argv0 # p # args \<Rightarrow>
          (case setup_seccomp lib rules of
             Inl e \<Rightarrow> Inl [e]
           | Inr filt \<Rightarrow> if exec_err p \<noteq> 0 then Inl [Error (exec_err p) (''failed to exec '' @ p)] else Inr (filt, p # args))
      | _ \<Rightarrow> Inl [fence_usage (case argv of a # _ \<Rightarrow> a | [] \<Rightarrow> [])])"

definition seccomp_main :: "seccomp_lib \<Rightarrow> (string \<Rightarrow> int) \<Rightarrow> string list \<Rightarrow> event list + (string list \<times> string list)" where
  "seccomp_main = fence_main seccomp_rules"

definition fsfence_main :: "seccomp_lib \<Rightarrow> (string \<Rightarrow> int) \<Rightarrow> string list \<Rightarrow> event list + (string list \<times> string list)" where
  "fsfence_main = fence_main fsfence_rules"

text \<open>What a system call of the fenced program returns: -\<^verbatim>\<open>EPERM\<close>, or what the kernel does with it.\<close>

definition fenced_call :: "string list \<Rightarrow> (string \<Rightarrow> int) \<Rightarrow> string \<Rightarrow> int" where
  "fenced_call filt kern call = (if call \<in> set filt then - EPERM else kern call)"

lemma add_rules_all: "add_rules lib ctx rs = Some c \<Longrightarrow> c = ctx @ rs \<and> (\<forall>r \<in> set rs. 0 \<le> sl_add lib r)"
proof (induction rs arbitrary: ctx)
  case (Cons r rs)
  then have "\<not> sl_add lib r < 0" "add_rules lib (ctx @ [r]) rs = Some c" by (auto split: if_splits)
  then show ?case using Cons.IH [of "ctx @ [r]"] by auto
qed simp

lemma fence_main_filter: "fence_main rules lib exec_err argv = Inr (filt, prog) \<Longrightarrow> filt = rules \<and> prog = drop 1 argv"
  by (auto simp: fence_main_def setup_seccomp_def dest!: add_rules_all split: list.splits sum.splits if_splits option.splits)

text \<open>
  The fences fail closed: a program is executed only under the complete filter, and then every
  forbidden call returns \<^verbatim>\<open>EPERM\<close> while the others reach the kernel.  \<^verbatim>\<open>seccomp\<close> forbids everything that \<^verbatim>\<open>fsfence\<close>
  forbids.
\<close>

theorem fences_closed:
  assumes "seccomp_main lib exec_err argv = Inr (filt, prog)" "fsfence_main lib' exec_err' argv' = Inr (filt', prog')"
  shows "(fenced_call filt kern call = (if call \<in> set seccomp_rules then - EPERM else kern call)) \<and>
    (fenced_call filt' kern call = (if call \<in> set fsfence_rules then - EPERM else kern call)) \<and>
    (fenced_call filt' (\<lambda>_. 0) call = - EPERM \<longrightarrow> fenced_call filt kern call = - EPERM) \<and> prog = drop 1 argv \<and> prog' = drop 1 argv'"
proof -
  have "filt = seccomp_rules \<and> prog = drop 1 argv" "filt' = fsfence_rules \<and> prog' = drop 1 argv'"
    using assms fence_main_filter unfolding seccomp_main_def fsfence_main_def by blast+
  moreover have "set fsfence_rules \<subseteq> set seccomp_rules" by (simp add: seccomp_rules_def fsfence_rules_def)
  ultimately show ?thesis by (auto simp: fenced_call_def EPERM_def)
qed

theorem fences_closed_witness:
  "\<exists>filt. seccomp_main \<lparr>sl_init = 0, sl_add = (\<lambda>_. 0), sl_load = 0, sl_errno = 0\<rparr> (\<lambda>_. 0) [''seccomp'', ''rm'', ''f''] = Inr (filt, [''rm'', ''f'']) \<and>
     fenced_call filt (\<lambda>_. 0) ''unlink'' = - 1 \<and> fenced_call filt (\<lambda>_. 0) ''read'' = 0"
proof -
  let ?l = "\<lparr>sl_init = 0, sl_add = (\<lambda>_. 0), sl_load = 0, sl_errno = 0\<rparr>"
  have s: "seccomp_main ?l (\<lambda>_. 0) [''seccomp'', ''rm'', ''f''] = Inr (seccomp_rules, [''rm'', ''f''])" by code_simp
  have f: "fsfence_main ?l (\<lambda>_. 0) [''fsfence'', ''rm''] = Inr (fsfence_rules, [''rm''])" by code_simp
  show ?thesis using s fences_closed [OF s f, of "\<lambda>_. 0" "''unlink''"] fences_closed [OF s f, of "\<lambda>_. 0" "''read''"]
    by (simp add: seccomp_rules_def EPERM_def)
qed

section \<open>alarm.c\<close>

text \<open>The attributes of a process that decide about \<^verbatim>\<open>SIGALRM\<close>: the seconds until the alarm, the mask, a handler.\<close>

record alarm_proc =
  alarm_in :: "nat option"
  alrm_blocked :: bool
  alrm_handler :: bool

definition set_alarm :: "nat \<Rightarrow> alarm_proc \<Rightarrow> alarm_proc" where
  "set_alarm n p = p\<lparr>alarm_in := if n = 0 then None else Some n\<rparr>"

text \<open>The alarm and the mask survive \<^verbatim>\<open>exec\<close>, a handler does not.\<close>

definition exec_proc :: "alarm_proc \<Rightarrow> alarm_proc" where
  "exec_proc p = p\<lparr>alrm_handler := False\<rparr>"

text \<open>The argument of \<^verbatim>\<open>alarm\<close> is an unsigned 32-bit number.  A failed \<^verbatim>\<open>execv\<close> makes the program return success.\<close>

definition alarm_main :: "(string \<Rightarrow> int) \<Rightarrow> alarm_proc \<Rightarrow> string list \<Rightarrow> event list \<times> (int + alarm_proc \<times> string list)" where
  "alarm_main exec_err p argv =
     (case argv of
        _ # a # prog # args \<Rightarrow>
          (let seconds = nat (fst (strtol 10 a) mod 2 ^ 32)
           in ([], if exec_err prog \<noteq> 0 then Inl EXIT_SUCCESS else Inr (exec_proc (set_alarm seconds p), prog # args)))
      | _ \<Rightarrow> ([Stderr ''Not enough args''], Inl EXIT_FAILURE))"

text \<open>Is the process killed when it runs for at least that many seconds?\<close>

definition dies_within :: "nat \<Rightarrow> alarm_proc \<Rightarrow> bool" where
  "dies_within t p \<longleftrightarrow> (case alarm_in p of None \<Rightarrow> False | Some n \<Rightarrow> n \<le> t) \<and> \<not> alrm_blocked p \<and> \<not> alrm_handler p"

section \<open>troll.c\<close>

text \<open>How an option ends: the loop over the options goes on, or the program waits or loops for ever, or is killed.\<close>

datatype troll_end = GoesOn alarm_proc | Forever alarm_proc | KilledByAlarm

definition part_a :: "alarm_proc \<Rightarrow> event list \<times> troll_end" where
  "part_a p =
     (let seconds = (case alarm_in p of None \<Rightarrow> 0 | Some n \<Rightarrow> n); p' = set_alarm 0 p
      in ([Stdout (''Time remaining: '' @ show_int (to_int (int seconds)) @ [nl])],
          if dies_within (10 * seconds mod 2 ^ 32) p' then KilledByAlarm else GoesOn p'))"

text \<open>With the signal blocked \<^verbatim>\<open>pause\<close> does not return for it.\<close>

definition part_b :: "alarm_proc \<Rightarrow> troll_end" where
  "part_b p = Forever (p\<lparr>alrm_blocked := True\<rparr>)"

text \<open>
  The loop of \<^verbatim>\<open>part_s\<close> over the lines of the input; at the end of the input \<^verbatim>\<open>getline\<close> fails without touching \<^verbatim>\<open>errno\<close>.  It
  runs on fuel; the flag says whether it was left.
\<close>

fun part_s_loop :: "nat \<Rightarrow> int \<Rightarrow> string list \<Rightarrow> event list \<times> bool" where
  "part_s_loop 0 errno lines = ([], False)"
| "part_s_loop (Suc fuel) errno lines =
     (let e = (case lines of [] \<Rightarrow> [] | l # _ \<Rightarrow> [Stdout (cstr l)])
      in if errno \<noteq> 0 then (e, True)
         else let (evs, r) = part_s_loop fuel errno (drop 1 lines) in (e @ evs, r))"

definition sigalrm_ignore :: event where "sigalrm_ignore = Stderr (''SIGALRM caught'' @ [nl])"

definition part_s :: "nat \<Rightarrow> int \<Rightarrow> int \<Rightarrow> string \<Rightarrow> alarm_proc \<Rightarrow> event list \<times> (int + troll_end)" where
  "part_s fuel action_err errno input p =
     (if action_err \<noteq> 0 then ([Error action_err ''cannot setup handler for ABRT''], Inl EXIT_FAILURE)
      else let p' = p\<lparr>alrm_handler := True\<rparr>; (evs, left) = part_s_loop fuel errno (input_lines input)
        in (evs, Inr (if left then GoesOn p' else Forever p')))"

text \<open>The loop over the options: the exit status, or how the program ends up.\<close>

fun troll_opts :: "nat \<Rightarrow> int \<Rightarrow> int \<Rightarrow> string \<Rightarrow> opt_event list \<Rightarrow> alarm_proc \<Rightarrow> event list \<times> (int + troll_end)" where
  "troll_opts fuel action_err errno input [] p = ([], Inl EXIT_SUCCESS)"
| "troll_opts fuel action_err errno input (BadOpt # es) p = ([], Inl EXIT_FAILURE)"
| "troll_opts fuel action_err errno input (Opt c _ # es) p =
     (let (evs, r) = (if c = CHR ''a'' then (let (e, t) = part_a p in (e, Inr t))
                      else if c = CHR ''b'' then ([], Inr (part_b p))
                      else if c = CHR ''s'' then part_s fuel action_err errno input p
                      else ([], Inl EXIT_FAILURE))
      in case r of
           Inr (GoesOn p') \<Rightarrow> (let (evs', r') = troll_opts fuel action_err errno input es p' in (evs @ evs', r'))
         | _ \<Rightarrow> (evs, r))"

definition troll_main :: "nat \<Rightarrow> int \<Rightarrow> int \<Rightarrow> string \<Rightarrow> string list \<Rightarrow> alarm_proc \<Rightarrow> event list \<times> (int + troll_end)" where
  "troll_main fuel action_err errno input args p = troll_opts fuel action_err errno input (fst (getopt_all ''abs'' None args)) p"

lemma part_s_forever: "part_s_loop fuel 0 lines = (evs, r) \<Longrightarrow> \<not> r"
  by (induction fuel arbitrary: lines evs) (auto split: prod.splits)

lemma part_a_survives: "snd (part_a p) = GoesOn (set_alarm 0 p)"
  by (simp add: part_a_def Let_def dies_within_def set_alarm_def)

text \<open>
  The alarm kills a program that does nothing about it, while \<^verbatim>\<open>troll\<close> escapes with each of its options: \<^verbatim>\<open>-a\<close>
  takes the alarm back, \<^verbatim>\<open>-b\<close> and \<^verbatim>\<open>-s\<close> never end and are not killed.
\<close>

lemma troll_escapes:
  assumes "alarm_main exec_err \<lparr>alarm_in = None, alrm_blocked = False, alrm_handler = False\<rparr> (self # a # prog # args) = ([], Inr (p, argv))"
    and "fst (strtol 10 a) mod 2 ^ 32 = int n" "0 < n"
  shows "dies_within n p"
    and "snd (troll_main fuel 0 0 input [''-a''] p) = Inl EXIT_SUCCESS"
    and "\<exists>q. snd (troll_main fuel 0 0 input [''-b''] p) = Inr (Forever q) \<and> \<not> dies_within t q"
    and "\<exists>q. snd (troll_main fuel 0 0 input [''-s''] p) = Inr (Forever q) \<and> \<not> dies_within t q"
proof -
  have p: "p = \<lparr>alarm_in = Some n, alrm_blocked = False, alrm_handler = False\<rparr>"
    using assms by (auto simp: alarm_main_def Let_def exec_proc_def set_alarm_def split: if_splits)
  show "dies_within n p" by (simp add: p dies_within_def)
  have opts: "getopt_all ''abs'' None [''-a''] = ([Opt (CHR ''a'') None], [])" "getopt_all ''abs'' None [''-b''] = ([Opt (CHR ''b'') None], [])"
      "getopt_all ''abs'' None [''-s''] = ([Opt (CHR ''s'') None], [])" by code_simp+
  show "snd (troll_main fuel 0 0 input [''-a''] p) = Inl EXIT_SUCCESS"
    using part_a_survives [of p] by (simp add: troll_main_def opts split_beta Let_def del: getopt_all.simps)
  show "\<exists>q. snd (troll_main fuel 0 0 input [''-b''] p) = Inr (Forever q) \<and> \<not> dies_within t q"
    by (simp add: troll_main_def opts part_b_def dies_within_def del: getopt_all.simps)
  have "\<not> snd (part_s_loop fuel 0 (input_lines input))" using part_s_forever by (metis prod.collapse)
  then show "\<exists>q. snd (troll_main fuel 0 0 input [''-s''] p) = Inr (Forever q) \<and> \<not> dies_within t q"
    by (simp add: troll_main_def opts part_s_def dies_within_def split_beta Let_def del: getopt_all.simps)
qed

end
