(* ===== verification/Notice.thy ===== *)
theory Notice
  imports C_Prelude
begin

text \<open>
  \<^verbatim>\<open>ex13/mmap/mmap.c\<close> and \<^verbatim>\<open>ex13/shm/shm.c\<close>: a notice in shared memory.  The first byte says whether the display is to
  stop, the text follows it.  The memory is that of a page: what lies behind the 80 bytes of the
  buffer is zero.  Other processes can change it between two looks at it, so a display sees a
  sequence of memories.
\<close>

section \<open>The buffer\<close>

definition BUFFER_LENGTH :: nat where "BUFFER_LENGTH = 80"

definition stop_flag :: "string \<Rightarrow> bool" where
  "stop_flag mem \<longleftrightarrow> mem ! 0 \<noteq> nul"

definition shown :: "string \<Rightarrow> string" where
  "shown mem = cstr (drop 1 mem)"

text \<open>\<^verbatim>\<open>strncpy(mem + 1, msg, 79)\<close>: at most 79 characters, filled up with NUL, and no NUL behind a longer text.\<close>

definition strncpy :: "string \<Rightarrow> string \<Rightarrow> nat \<Rightarrow> string" where
  "strncpy mem msg n = take n (cstr msg @ replicate n nul) @ drop n mem"

definition store_notice :: "string \<Rightarrow> string \<Rightarrow> string" where
  "store_notice mem msg = take 1 mem @ strncpy (drop 1 mem) msg (BUFFER_LENGTH - 1)"

text \<open>\<^verbatim>\<open>*mem = 1\<close>.\<close>

definition raise_flag :: "string \<Rightarrow> string" where
  "raise_flag mem = mem[0 := CHR 0x01]"

definition page :: "string \<Rightarrow> bool" where
  "page mem \<longleftrightarrow> BUFFER_LENGTH < length mem \<and> list_all (\<lambda>c. c = nul) (drop BUFFER_LENGTH mem)"

section \<open>The display loop\<close>

text \<open>One round: the time of day as text, the memory at that moment, and the error numbers of the two calls of \<^verbatim>\<open>flock\<close> (\<^verbatim>\<open>mmap.c\<close> only).\<close>

record look =
  lk_time :: string
  lk_mem :: string
  lk_lock :: int
  lk_unlock :: int

definition display_line :: "look \<Rightarrow> event" where
  "display_line l = Stdout (lk_time l @ '' '' @ shown (lk_mem l) @ [CHR 0x1B] @ ''[0K'' @ [CHR 0x0D])"

text \<open>The flag of the result: the loop was left.\<close>

fun mmap_loop :: "look list \<Rightarrow> event list \<times> bool" where
  "mmap_loop [] = ([], False)"
| "mmap_loop (l # ls) =
     (if lk_lock l \<noteq> 0 then ([Error (lk_lock l) ''flock lock''], True)
      else if stop_flag (lk_mem l) then ([display_line l, Stdout (''finished'' @ [nl])], True)
      else if lk_unlock l \<noteq> 0 then ([display_line l, Error (lk_unlock l) ''flock unlock''], True)
      else let (evs, r) = mmap_loop ls in (display_line l # evs, r))"

fun shm_loop :: "look list \<Rightarrow> event list \<times> bool" where
  "shm_loop [] = ([], False)"
| "shm_loop (l # ls) =
     (if stop_flag (lk_mem l) then ([display_line l, Stdout (''finished'' @ [nl])], True)
      else let (evs, r) = shm_loop ls in (display_line l # evs, r))"

section \<open>The programs\<close>

text \<open>Error numbers, 0 for success; \<open>ne_loop\<close> is what the display sees.\<close>

record notice_env =
  ne_open :: int
  ne_truncate :: int
  ne_mmap :: int
  ne_lock :: int
  ne_unlock :: int
  ne_remove :: int
  ne_msync :: int
  ne_loop :: "look list"
  ne_munmap :: int
  ne_close :: int

definition message_if :: "int \<Rightarrow> string \<Rightarrow> event list" where
  "message_if err txt = (if err = 0 then [] else [Error err txt])"

text \<open>The messages, the memory as the program itself leaves it, and the exit status (\<open>None\<close>: still running).\<close>

definition mmap_main :: "notice_env \<Rightarrow> string \<Rightarrow> string list \<Rightarrow> event list \<times> string \<times> int option" where
  "mmap_main env mem args =
     (case args of
        [] \<Rightarrow> ([Stderr (''Expected arguments'' @ [nl])], mem, Some EXIT_FAILURE)
      | a # _ \<Rightarrow>
          (let close = message_if (ne_close env) (''failed to close '' @ a);
               unmap = message_if (ne_munmap env) ''munmap'' @ close
           in if ne_open env \<noteq> 0 then ([Error (ne_open env) a], mem, Some EXIT_FAILURE)
              else if ne_truncate env \<noteq> 0 then (Error (ne_truncate env) (''truncate '' @ a) # close, mem, Some EXIT_SUCCESS)
              else if ne_mmap env \<noteq> 0 then (Error (ne_mmap env) ''mmap'' # close, mem, Some EXIT_SUCCESS)
              else if a = ''--stop'' then
                (if ne_lock env \<noteq> 0 then (Error (ne_lock env) ''flock lock'' # unmap, mem, Some EXIT_SUCCESS)
                 else if ne_unlock env \<noteq> 0 then (Error (ne_unlock env) ''flock unlock'' # unmap, raise_flag mem, Some EXIT_SUCCESS)
                 else (message_if (ne_remove env) ''remove file'' @ unmap, raise_flag mem, Some EXIT_SUCCESS))
              else
                (let (evs, left) = mmap_loop (ne_loop env)
                 in (message_if (ne_msync env) ''msync'' @ evs @ (if left then unmap else []), store_notice mem a,
                     if left then Some EXIT_SUCCESS else None))))"

text \<open>\<open>created\<close>: the error number or the identifier of the first \<^verbatim>\<open>shmget\<close>, \<open>found\<close>: of the second.\<close>

record shm_env =
  se_ftok :: int
  se_created :: "int + int"
  se_found :: "int + int"
  se_shmat :: int
  se_remove :: int
  se_loop :: "look list"
  se_shmdt :: int

definition shm_main :: "shm_env \<Rightarrow> string \<Rightarrow> string list \<Rightarrow> event list \<times> string \<times> int option" where
  "shm_main env mem argv =
     (case argv of
        argv0 # a # _ \<Rightarrow>
          if se_ftok env \<noteq> 0 then ([Error (se_ftok env) (''ftok('' @ argv0 @ '', 69)'')], mem, Some EXIT_FAILURE)
          else (case (case se_created env of Inr i \<Rightarrow> Inr (''Created new: '' @ show_int i @ [nl])
                      | Inl _ \<Rightarrow> (case se_found env of Inl e \<Rightarrow> Inl e | Inr i \<Rightarrow> Inr (''Accessed: '' @ show_int i @ [nl]))) of
                  Inl e \<Rightarrow> ([Error e ''shmget''], mem, Some EXIT_FAILURE)
                | Inr line \<Rightarrow>
                    if se_shmat env \<noteq> 0 then ([Stdout line, Error (se_shmat env) ''shmat''], mem, Some EXIT_SUCCESS)
                    else if a = ''--stop'' then
                      (Stdout line # message_if (se_remove env) ''shmctl'' @ message_if (se_shmdt env) ''shmdt'', raise_flag mem, Some EXIT_SUCCESS)
                    else
                      (let (evs, left) = shm_loop (se_loop env)
                       in (Stdout line # evs @ (if left then message_if (se_shmdt env) ''shmdt'' else []), store_notice mem a,
                           if left then Some EXIT_SUCCESS else None)))
      | _ \<Rightarrow> ([Stderr (''Expected arguments'' @ [nl])], mem, Some EXIT_FAILURE))"

section \<open>What is displayed\<close>

lemma cstr_before_nul: "nul \<notin> set s \<Longrightarrow> cstr (s @ nul # r) = s"
  by (auto simp: cstr_def takeWhile_tail)

lemma shown_store:
  assumes "page mem"
  shows "shown (store_notice mem msg) = take 79 (cstr msg)"
proof -
  have c: "nul \<notin> set (cstr msg)" by (auto simp: cstr_def dest: set_takeWhileD)
  obtain r where rest: "drop 80 mem = nul # r" using assms by (cases "drop 80 mem") (auto simp: page_def BUFFER_LENGTH_def)
  have "drop 1 (store_notice mem msg) = take 79 (cstr msg @ replicate 79 nul) @ drop 80 mem"
    using assms by (cases mem) (auto simp: store_notice_def strncpy_def BUFFER_LENGTH_def page_def)
  also have "\<dots> = take 79 (cstr msg) @ replicate (79 - length (cstr msg)) nul @ nul # r"
    by (simp add: rest take_replicate min_def)
  also have "\<dots> = take 79 (cstr msg) @ nul # replicate (79 - length (cstr msg)) nul @ r"
    by (simp add: replicate_app_Cons_same)
  finally have "drop 1 (store_notice mem msg) = take 79 (cstr msg) @ nul # replicate (79 - length (cstr msg)) nul @ r" .
  then show ?thesis using c cstr_before_nul [of "take 79 (cstr msg)"] by (auto simp: shown_def dest: in_set_takeD)
qed

lemma store_keeps: "page mem \<Longrightarrow> stop_flag (store_notice mem msg) = stop_flag mem \<and> length (store_notice mem msg) = length mem"
  by (cases mem) (auto simp: store_notice_def stop_flag_def strncpy_def BUFFER_LENGTH_def page_def)

lemma raise_flag_stops: "page mem \<Longrightarrow> stop_flag (raise_flag mem) \<and> shown (raise_flag mem) = shown mem"
  by (cases mem) (auto simp: raise_flag_def stop_flag_def shown_def nul_def page_def)

text \<open>The display shows each memory that it sees, up to the first with the flag, and then ends.\<close>

lemma loops_show:
  assumes "\<forall>l \<in> set ls. \<not> stop_flag (lk_mem l) \<and> lk_lock l = 0 \<and> lk_unlock l = 0"
  shows "mmap_loop (ls @ ms) = (let (evs, r) = mmap_loop ms in (map display_line ls @ evs, r))"
    "shm_loop (ls @ ms) = (let (evs, r) = shm_loop ms in (map display_line ls @ evs, r))"
  using assms by (induction ls) (auto split: prod.splits)

text \<open>
  A notice is displayed and stopped.  A display that stores \<open>msg\<close> and then sees only its own text prints the
  first 79 characters of it, round after round; after the run of another process of \<^verbatim>\<open>mmap\<close> with
  \<^verbatim>\<open>--stop\<close> the next round is its last one, and it ends with success.
\<close>

theorem notice_displayed:
  assumes "page mem" "\<not> stop_flag mem" "msg \<noteq> ''--stop''"
    and "ne_open env = 0" "ne_truncate env = 0" "ne_mmap env = 0" "ne_msync env = 0" "ne_munmap env = 0" "ne_close env = 0"
    and "ne_lock stop = 0" "ne_unlock stop = 0" "ne_open stop = 0" "ne_truncate stop = 0" "ne_mmap stop = 0"
    and "m1 = fst (snd (mmap_main env mem [msg]))" "m2 = fst (snd (mmap_main stop m1 [''--stop'']))"
    and "ne_loop env = map (\<lambda>t. \<lparr>lk_time = t, lk_mem = m1, lk_lock = 0, lk_unlock = 0\<rparr>) ts @ \<lparr>lk_time = t', lk_mem = m2, lk_lock = 0, lk_unlock = 0\<rparr> # later"
  shows "mmap_main env mem [msg] =
    (map (\<lambda>t. Stdout (t @ '' '' @ take 79 (cstr msg) @ [CHR 0x1B] @ ''[0K'' @ [CHR 0x0D])) (ts @ [t']) @ [Stdout (''finished'' @ [nl])], m1, Some EXIT_SUCCESS)"
proof -
  have m1: "m1 = store_notice mem msg" using assms(3-6,15) by (simp add: mmap_main_def Let_def split_beta)
  have m2: "m2 = raise_flag m1" using assms(10-14,16) by (simp add: mmap_main_def Let_def)
  have page1: "page m1" using assms(1) store_keeps [OF assms(1), of msg] by (cases mem) (auto simp: m1 page_def store_notice_def strncpy_def BUFFER_LENGTH_def)
  have s1: "shown m1 = take 79 (cstr msg)" "\<not> stop_flag m1" using shown_store [OF assms(1)] store_keeps [OF assms(1)] assms(2) by (simp_all add: m1)
  have s2: "shown m2 = take 79 (cstr msg)" "stop_flag m2" using raise_flag_stops [OF page1] s1 by (simp_all add: m2)
  have "mmap_loop (ne_loop env) = (map (\<lambda>t. Stdout (t @ '' '' @ take 79 (cstr msg) @ [CHR 0x1B] @ ''[0K'' @ [CHR 0x0D])) (ts @ [t']) @ [Stdout (''finished'' @ [nl])], True)"
    unfolding assms(17) by (subst loops_show(1)) (auto simp: s1 s2 display_line_def)
  then show ?thesis using assms(3-9) by (simp add: mmap_main_def Let_def message_if_def m1)
qed

definition quiet_env :: "look list \<Rightarrow> notice_env" where
  "quiet_env looks = \<lparr>ne_open = 0, ne_truncate = 0, ne_mmap = 0, ne_lock = 0, ne_unlock = 0, ne_remove = 0, ne_msync = 0,
     ne_loop = looks, ne_munmap = 0, ne_close = 0\<rparr>"

theorem notice_displayed_witness:
  "\<exists>m1 m2. mmap_main (quiet_env [\<lparr>lk_time = ''1'', lk_mem = m1, lk_lock = 0, lk_unlock = 0\<rparr>, \<lparr>lk_time = ''2'', lk_mem = m2, lk_lock = 0, lk_unlock = 0\<rparr>])
     (replicate 81 nul) [''hi''] =
   ([Stdout (''1 hi'' @ [CHR 0x1B] @ ''[0K'' @ [CHR 0x0D]), Stdout (''2 hi'' @ [CHR 0x1B] @ ''[0K'' @ [CHR 0x0D]), Stdout (''finished'' @ [nl])], m1, Some EXIT_SUCCESS)"
proof -
  define m1 m2 where "m1 = store_notice (replicate 81 nul) ''hi''" and "m2 = raise_flag m1"
  let ?e = "quiet_env [\<lparr>lk_time = ''1'', lk_mem = m1, lk_lock = 0, lk_unlock = 0\<rparr>, \<lparr>lk_time = ''2'', lk_mem = m2, lk_lock = 0, lk_unlock = 0\<rparr>]"
  have p: "page (replicate 81 nul)" "\<not> stop_flag (replicate 81 nul)" by (simp_all add: page_def BUFFER_LENGTH_def list_all_iff stop_flag_def)
  have e: "fst (snd (mmap_main ?e (replicate 81 nul) [''hi''])) = m1" "fst (snd (mmap_main (quiet_env []) m1 [''--stop''])) = m2"
    by (simp_all add: mmap_main_def quiet_env_def Let_def split_beta m1_def m2_def)
  have "mmap_main ?e (replicate 81 nul) [''hi''] = (map (\<lambda>t. Stdout (t @ '' '' @ take 79 (cstr ''hi'') @ [CHR 0x1B] @ ''[0K'' @ [CHR 0x0D])) ([''1''] @ [''2'']) @ [Stdout (''finished'' @ [nl])], m1, Some EXIT_SUCCESS)"
    by (rule notice_displayed [of _ _ _ "quiet_env []" m1 m2 _ _ "[]"]) (rule p e [symmetric] | simp add: quiet_env_def)+
  moreover have "take 79 (cstr ''hi'') = ''hi''" by code_simp
  ultimately have "mmap_main ?e (replicate 81 nul) [''hi''] = (map (\<lambda>t. Stdout (t @ '' '' @ ''hi'' @ [CHR 0x1B] @ ''[0K'' @ [CHR 0x0D])) ([''1''] @ [''2'']) @ [Stdout (''finished'' @ [nl])], m1, Some EXIT_SUCCESS)" by (simp only:)
  then show ?thesis by (intro exI [of _ m1] exI [of _ m2]) simp
qed

end
