(* ===== verification/Queue_Alone.thy ===== *)
theory Queue_Alone
  imports Queue_Threads
begin

text \<open>
  The queue of \<^verbatim>\<open>hw09\<close> used by one thread only: \<open>alone\<close> is what a call does when no other thread is
  inside (a call that would wait for another thread never returns), shown to agree with the
  steps of \<open>Queue_Threads\<close>.  On it run the two test programs whose queues are not shared:
  \<^verbatim>\<open>tester_impl.c\<close> and \<^verbatim>\<open>tester_thread_safe.c\<close>.
\<close>

section \<open>A call without other threads\<close>

text \<open>
  \<open>Done None\<close>: the call waits on a condition variable that nobody signals.  Otherwise the queue
  afterwards, what was copied to the caller, and the returned code.
\<close>

type_synonym op_result = "(queue \<times> byte list option \<times> queue_error_codes) option outcome"

definition queue_push :: "nat \<Rightarrow> queue \<Rightarrow> byte list \<Rightarrow> op_result" where
  "queue_push tid q e =
     (if queue_is_full q then
        if q_aborted (q_sync q) then Done (Some (set_errno tid QUEUE_ABORT q, None, QUEUE_ABORT)) else Done None
      else map_outcome (\<lambda>q'. Some (q', None, QUEUE_SUCCESS)) (push_commit q e))"

definition queue_pop :: "nat \<Rightarrow> queue \<Rightarrow> bool \<Rightarrow> op_result" where
  "queue_pop tid q want =
     (if queue_is_empty q then
        if q_aborted (q_sync q) then Done (Some (set_errno tid QUEUE_ABORT q, None, QUEUE_ABORT)) else Done None
      else map_outcome (\<lambda>(q', out). Some (q', out, QUEUE_SUCCESS)) (pop_commit q want))"

fun alone :: "nat \<Rightarrow> queue \<Rightarrow> qop \<Rightarrow> op_result" where
  "alone tid q (Push e) = queue_push tid q e"
| "alone tid q (Pop w) = queue_pop tid q w"
| "alone tid q (TryPush e) = map_outcome (\<lambda>(q', c). Some (q', None, c)) (queue_try_push tid True q (Some e))"
| "alone tid q (TryPop w) = map_outcome (\<lambda>(q', out, c). Some (q', out, c)) (queue_try_pop tid True q w)"
| "alone tid q Abort = Done (Some (fst (queue_abort q), None, QUEUE_SUCCESS))"

section \<open>Agreement with the steps of the threads\<close>

text \<open>A step of a thread that is inside an operation, as opposed to a new call.\<close>

definition inside :: "qsys \<Rightarrow> qsys \<Rightarrow> bool" where
  "inside s t \<longleftrightarrow> qstep s t \<and> (\<exists>i < length (pcs s). (\<forall>r. pcs s ! i \<noteq> Outside r) \<and> pcs t ! i \<noteq> pcs s ! i)"

text \<open>The states of a single thread on its way through the call \<open>p\<close> of the queue \<open>q\<close>.\<close>

definition bumped :: "qop \<Rightarrow> queue \<Rightarrow> queue" where
  "bumped p q = (case p of
      Push _ \<Rightarrow> set_sync (\<lambda>y. y\<lparr>q_waiting_for_push := q_waiting_for_push y + 1\<rparr>) q
    | Pop _ \<Rightarrow> set_sync (\<lambda>y. y\<lparr>q_waiting_for_pop := q_waiting_for_pop y + 1\<rparr>) q
    | _ \<Rightarrow> q)"

definition lone_pc :: "queue \<Rightarrow> qop \<Rightarrow> queue \<Rightarrow> nat option \<Rightarrow> qpc \<Rightarrow> bool" where
  "lone_pc q p q' own pc = (case pc of
      AtLock p' \<Rightarrow> p' = p \<and> own = None \<and> q' = q
    | AtTest p' \<Rightarrow> p' = p \<and> p \<noteq> Abort \<and> own = Some 0 \<and> q' = q
    | Asleep p' \<Rightarrow> p' = p \<and> own = None \<and> alone 0 q p = Done None \<and> q' = bumped p q
    | Woken p' \<Rightarrow> p' = p \<and> own = None \<and> alone 0 q p = Done None \<and> q' = bumped p q
    | AtSignal _ \<Rightarrow> own = Some 0 \<and> (\<exists>out. alone 0 q p = Done (Some (q', out, QUEUE_SUCCESS)))
    | AtUnlock c \<Rightarrow> own = Some 0 \<and> (\<exists>out. alone 0 q p = Done (Some (leave 0 c q', out, c)))
    | AtSetAborted \<Rightarrow> p = Abort \<and> own = Some 0 \<and> q' = q
    | AtBroadcastPop \<Rightarrow> p = Abort \<and> own = Some 0 \<and> q' = fst (queue_abort q)
    | AtBroadcastPush \<Rightarrow> p = Abort \<and> own = Some 0 \<and> q' = fst (queue_abort q)
    | Outside r \<Rightarrow> own = None \<and> (\<exists>c out. r = Some c \<and> alone 0 q p = Done (Some (q', out, c))))"

definition lone :: "queue \<Rightarrow> qop \<Rightarrow> qsys \<Rightarrow> bool" where
  "lone q p s \<longleftrightarrow> (\<exists>pc. pcs s = [pc] \<and> lone_pc q p (the_queue s) (owner s) pc)"

lemma inside_cases1:
  assumes "inside s t" "pcs s = [pc]"
  shows "qstep s t" "\<And>r. pc \<noteq> Outside r"
  using assms by (auto simp: inside_def)

lemmas alone_defs = queue_push_def queue_pop_def queue_try_push_def queue_try_pop_def return_error_state_def
  bumped_def leave_def set_errno_def

lemma lone_step: "qstep s t \<Longrightarrow> lone q p s \<Longrightarrow> (\<forall>r. pcs s \<noteq> [Outside r]) \<Longrightarrow> lone q p t"
proof (induction rule: qstep.induct)
  case (push_stores i s p' e q')
  then show ?case by (auto simp: lone_def lone_pc_def alone_defs)
next
  case (pop_takes i s p' w q' out)
  then show ?case by (auto simp: lone_def lone_pc_def alone_defs)
next
  case (unlock i s c)
  then show ?case by (auto simp: lone_def lone_pc_def)
qed (auto simp: lone_def lone_pc_def alone_defs sleeps_on_def broadcast_def)

definition enter :: "queue \<Rightarrow> qop \<Rightarrow> qsys" where
  "enter q p = \<lparr>the_queue = q, owner = None, pcs = [AtLock p]\<rparr>"

definition returned :: "queue \<Rightarrow> queue_error_codes \<Rightarrow> qsys" where
  "returned q c = \<lparr>the_queue = q, owner = None, pcs = [Outside (Some c)]\<rparr>"

definition lone_ok :: "queue \<Rightarrow> qop \<Rightarrow> qsys \<Rightarrow> bool" where
  "lone_ok q p s \<longleftrightarrow> lone q p s \<and> mutex_inv s \<and> (elem_ok (q_elem_size q) (AtLock p) \<and> queue_inv q \<longrightarrow> ring_inv s)"

interpretation lone: invariant_system "\<lambda>s. s = enter q p" inside "lone_ok q p" for q p
proof (unfold_locales, goal_cases)
  case (1 s)
  then show ?case by (auto simp: lone_ok_def lone_def lone_pc_def enter_def mutex_inv_def ring_inv_def)
next
  case (2 s t)
  then have st: "qstep s t" and "\<forall>r. pcs s \<noteq> [Outside r]" by (auto simp: inside_def)
  with 2 show ?case using lone_step mutex_step [OF st] ring_step [OF st] by (auto simp: lone_ok_def)
qed

lemma lone_progress:
  assumes "lone q p s" "mutex_inv s" "ring_inv s" "\<forall>r. pcs s \<noteq> [Outside r]"
  shows "\<exists>t. inside s t"
proof -
  obtain pc where pc: "pcs s = [pc]" "lone_pc q p (the_queue s) (owner s) pc" using assms(1) by (auto simp: lone_def)
  have in1: "\<exists>t. inside s t" if "can_move s 0" using that pc assms(4) by (auto simp: can_move_def inside_def)
  show ?thesis
  proof (cases "in_critical pc")
    case True
    then show ?thesis using critical_moves [of 0 s] assms(3) pc(1) in1 by simp
  next
    case False
    then have free: "owner s = None" using pc assms(4) by (cases pc) (auto simp: lone_pc_def)
    show ?thesis
    proof (cases "active pc")
      case True
      then show ?thesis using waiting_thread_moves [of 0 s] False free assms(3) pc(1) in1 by simp
    next
      case False
      with assms(4) pc(1) obtain p' where "pc = Asleep p'" by (cases pc) (auto simp: active_def)
      with pc(1) qstep.spurious_wakeup [of 0 s p'] have "can_move s 0" by (auto intro: can_moveI)
      with in1 show ?thesis by blast
    qed
  qed
qed

text \<open>How far a call is from its end when it does not have to wait.\<close>

definition pc_rank :: "qpc \<Rightarrow> nat" where
  "pc_rank pc = (case pc of Outside _ \<Rightarrow> 0 | AtUnlock _ \<Rightarrow> 1 | AtSignal _ \<Rightarrow> 2 | AtBroadcastPush \<Rightarrow> 2 | AtBroadcastPop \<Rightarrow> 3
     | AtTest _ \<Rightarrow> 4 | AtSetAborted \<Rightarrow> 4 | AtLock _ \<Rightarrow> 5 | Woken _ \<Rightarrow> 5 | Asleep _ \<Rightarrow> 6)"

lemma lone_rank:
  assumes "qstep s t" "lone q p s" "alone 0 q p \<noteq> Done None" "\<forall>r. pcs s \<noteq> [Outside r]"
  shows "pc_rank (pcs t ! 0) < pc_rank (pcs s ! 0)"
  using assms
  by (induction rule: qstep.induct) (auto simp: lone_def lone_pc_def pc_rank_def alone_defs sleeps_on_def broadcast_def)

lemma lone_returns:
  assumes "lone_ok q p s" "elem_ok (q_elem_size q) (AtLock p)" "queue_inv q" "alone 0 q p = Done (Some (q', out, c))"
  shows "reaches inside s (returned q' c)"
  using assms(1)
proof (induction "pc_rank (pcs s ! 0)" arbitrary: s rule: less_induct)
  case less
  show ?case
  proof (cases "\<exists>r. pcs s = [Outside r]")
    case True
    with less.prems assms(4) have "s = returned q' c" by (auto simp: lone_ok_def lone_def lone_pc_def returned_def)
    then show ?thesis by (simp add: reaches_refl)
  next
    case False
    with less.prems assms(2,3) obtain t where t: "inside s t" using lone_progress by (fastforce simp: lone_ok_def)
    then have "pc_rank (pcs t ! 0) < pc_rank (pcs s ! 0)"
      using lone_rank [of s t q p] less.prems False assms(4) by (auto simp: inside_def lone_ok_def)
    with less.hyps lone.inv_step [OF less.prems t] have "reaches inside t (returned q' c)" by blast
    with t show ?thesis by (rule reaches_front)
  qed
qed

lemma slot_length:
  assumes "queue_inv q" "\<not> queue_is_empty q"
  shows "length (slot q (q_write_pointer (q_buffer q))) = q_elem_size q"
proof -
  have "q_write_pointer (q_buffer q) < q_capacity q" "length (q_memory (q_buffer q)) = q_capacity q * q_elem_size q"
    using assms by (auto simp: queue_inv_def queue_is_empty_def split: if_splits)
  moreover from this(1) have "q_write_pointer (q_buffer q) * q_elem_size q + q_elem_size q \<le> q_capacity q * q_elem_size q"
    by (metis Suc_leI add.commute mult_Suc mult_le_mono1)
  ultimately show ?thesis by (simp add: slot_def)
qed

lemma alone_total:
  assumes "queue_inv q" "elem_ok (q_elem_size q) (AtLock p)"
  shows "\<exists>r. alone 0 q p = Done r"
proof (cases p)
  case (Push e)
  then show ?thesis using assms push_commit_ok [of q e] by (cases "queue_is_full q") (auto simp: queue_push_def elem_ok_def)
next
  case (Pop w)
  then show ?thesis using assms pop_commit_ok [of q w] by (cases "queue_is_empty q") (auto simp: queue_pop_def)
next
  case (TryPush e)
  then show ?thesis using assms push_commit_ok [of q e]
    by (cases "queue_is_full q") (auto simp: queue_try_push_def return_error_state_def elem_ok_def)
next
  case (TryPop w)
  then show ?thesis using assms pop_commit_ok [of q w]
    by (cases "queue_is_empty q") (auto simp: queue_try_pop_def return_error_state_def)
qed auto





section \<open>tester\_impl.c\<close>

text \<open>The bytes of an unsigned integer in memory, lowest first, and back.\<close>

definition le_bytes :: "nat \<Rightarrow> nat \<Rightarrow> byte list" where
  "le_bytes n v = map (\<lambda>k. word_of_nat (v div 256 ^ k)) [0..<n]"

fun le_value :: "byte list \<Rightarrow> nat" where
  "le_value [] = 0"
| "le_value (b # bs) = unat b + 256 * le_value bs"

lemma le_roundtrip: "v < 256 ^ n \<Longrightarrow> le_value (le_bytes n v) = v"
proof (induction n arbitrary: v)
  case (Suc n)
  have "le_bytes (Suc n) v = word_of_nat v # le_bytes n (v div 256)"
    by (simp add: le_bytes_def upt_conv_Cons map_Suc_upt [symmetric] div_mult2_eq del: upt_Suc)
  moreover have "v div 256 < 256 ^ n" using Suc.prems by (simp add: less_mult_imp_div_less mult.commute)
  ultimately show ?case using Suc.IH by (simp add: unat_of_nat)
qed (simp add: le_bytes_def)

text \<open>The numbers of the enumeration.\<close>

definition code_of :: "queue_error_codes \<Rightarrow> int" where
  "code_of c = (case c of QUEUE_SUCCESS \<Rightarrow> 0 | ALLOC_FAILURE \<Rightarrow> 1 | WRONG_QUEUE_ARG \<Rightarrow> 2 | MUTEX_INIT_FAIL \<Rightarrow> 3
     | COND_INIT_FAIL \<Rightarrow> 4 | MUTEX_DESTROY_FAIL \<Rightarrow> 5 | COND_DESTROY_FAIL \<Rightarrow> 6 | CANT_LOCK \<Rightarrow> 7 | QUEUE_FULL \<Rightarrow> 8
     | QUEUE_EMPTY \<Rightarrow> 9 | QUEUE_ABORT \<Rightarrow> 10 | KEY_ERROR \<Rightarrow> 11)"

definition show_bool :: "bool \<Rightarrow> string" where "show_bool b = (if b then ''1'' else ''0'')"

definition tab_char :: char where "tab_char = CHR 0x09"

text \<open>The memory is an array of (signed) \<^verbatim>\<open>char\<close>.\<close>

definition queue_state_debug :: "queue \<Rightarrow> event" where
  "queue_state_debug q = Stdout (
     ''queue memory:'' @ [tab_char] @
     concat (map (\<lambda>b. '' '' @ show_int (sint b)) (take (q_capacity q * q_elem_size q) (q_memory (q_buffer q)))) @ [nl] @
     ''queue size:'' @ [tab_char, tab_char] @ show_nat (q_size (q_buffer q)) @ [nl] @
     ''queue read ptr:'' @ [tab_char, tab_char] @ show_nat (q_read_pointer (q_buffer q)) @ [nl] @
     ''queue write ptr:'' @ [tab_char] @ show_nat (q_write_pointer (q_buffer q)) @ [nl, nl])"

text \<open>A sequence of calls: what was printed, and a result that may be missing because a call never returns.\<close>

definition and_then :: "event list \<times> 'a option outcome \<Rightarrow> ('a \<Rightarrow> event list \<times> 'b option outcome) \<Rightarrow> event list \<times> 'b option outcome" where
  "and_then m f = (case m of
      (es, Done (Some a)) \<Rightarrow> (es @ fst (f a), snd (f a))
    | (es, Done None) \<Rightarrow> (es, Done None)
    | (es, Exit c) \<Rightarrow> (es, Exit c)
    | (es, Fault x) \<Rightarrow> (es, Fault x))"

definition copied :: "byte list option \<Rightarrow> nat \<Rightarrow> nat" where
  "copied out old = (case out of None \<Rightarrow> old | Some b \<Rightarrow> le_value b)"

definition tester_impl_main :: "bool \<Rightarrow> create_env \<Rightarrow> destroy_env \<Rightarrow> event list \<times> (int \<times> resource list) option outcome" where
  "tester_impl_main debug cenv denv =
     (let dump = (\<lambda>q. if debug then [queue_state_debug q] else []); num = le_bytes 8
      in case queue_create cenv True 8 2 of
        (None, live, _) \<Rightarrow> ([], Fault NullDeref)
      | (Some q0, live, _) \<Rightarrow>
          and_then (Stdout (show_bool (queue_is_empty q0) @ [nl]) # dump q0, alone 0 q0 (Push (num 1024))) (\<lambda>(q1, _, _).
          and_then ([], alone 0 q1 (TryPush (num 1025))) (\<lambda>(q2, _, _).
          and_then (dump q2 @ [Stdout (show_nat (queue_size q2) @ '' '' @ show_bool (queue_is_full q2) @ [nl])],
                    alone 0 q2 (Pop True)) (\<lambda>(q3, out3, _).
          and_then (dump q3, alone 0 q3 (Push (num 1026))) (\<lambda>(q4, _, _).
          and_then ([], alone 0 q4 (TryPush (num 1026))) (\<lambda>(q5, _, _).
          and_then ([Stdout (''error val: '' @ show_int (code_of (queue_errno 0 q5)) @ [nl]), Stdout (''pushed'' @ [nl])],
                    alone 0 q5 (TryPop True)) (\<lambda>(q6, out6, _).
          and_then ([Stdout (''popped'' @ [nl]), Stdout ''Got these numbers: ''] @
                    map (\<lambda>v. Stdout (show_nat v @ '' '')) [copied out3 0, copied out6 0, 0, 0] @ [Stdout [nl]],
                    alone 0 q6 (TryPush (num 3))) (\<lambda>(q7, _, _).
          (dump q7 @ [Stdout (''Finished!'' @ [nl])],
           Done (Some (EXIT_SUCCESS, fst (snd (queue_destroy denv q7 live)))))))))))))"

section \<open>tester\_thread\_safe.c\<close>

text \<open>Every thread creates a queue of its own.  The loop over the numbers it pushes:\<close>

fun push_numbers :: "nat \<Rightarrow> nat \<Rightarrow> nat list \<Rightarrow> queue \<Rightarrow> event list \<times> queue option outcome" where
  "push_numbers thread_num i [] q = ([], Done (Some q))"
| "push_numbers thread_num i (v # vs) q =
     and_then ([Stdout (''Thread '' @ show_nat thread_num @ '': push '' @ show_nat i @ [nl])], alone 0 q (Push (le_bytes 4 v)))
       (\<lambda>(q', _, _). push_numbers thread_num (Suc i) vs q')"

definition safe_run_thread :: "create_env \<Rightarrow> destroy_env \<Rightarrow> nat \<Rightarrow> event list \<times> resource list option outcome" where
  "safe_run_thread cenv denv thread_num =
     (case queue_create cenv True 4 2 of
        (None, live, _) \<Rightarrow> ([], Fault NullDeref)
      | (Some q0, live, _) \<Rightarrow>
          and_then ([], alone 0 q0 (TryPop True)) (\<lambda>(q1, _, c).
          and_then ([Stdout (show_int (code_of c) @ [nl])], Done (Some ())) (\<lambda>_.
          and_then (push_numbers thread_num 0 (if thread_num = 0 then [1, 2, 3] else [1, 2]) q1) (\<lambda>q2.
          and_then ([], alone 0 q2 Abort) (\<lambda>(q3, _, _).
          and_then ([], alone 0 q3 Abort) (\<lambda>(q4, _, _).
          and_then ([], alone 0 q4 Abort) (\<lambda>(q5, _, _).
          ([Stdout (''Thread '' @ show_nat thread_num @ '': finished'' @ [nl])],
           Done (Some (fst (snd (queue_destroy denv q5 live))))))))))))"

text \<open>
  \<^verbatim>\<open>main\<close>: the output of each thread that was started (their order among each other is left open; if
  \<^verbatim>\<open>main\<close> exits early they are cut off), what
  \<^verbatim>\<open>main\<close> prints, and its result: joining a thread that never ends does not return.
\<close>

definition thread_safe_main ::
    "(nat \<Rightarrow> int) \<Rightarrow> (nat \<Rightarrow> create_env) \<Rightarrow> (nat \<Rightarrow> destroy_env) \<Rightarrow> event list list \<times> event list \<times> int option outcome" where
  "thread_safe_main perrno cenv denv =
     (let started = takeWhile (\<lambda>i. perrno i = 0) [0..<2];
          runs = map (\<lambda>i. safe_run_thread (cenv i) (denv i) i) started
      in if length started < 2 then
           (map fst runs,
            [Error (perrno (length started)) (''pthread_create('' @ show_nat (length started) @ '')'')], Exit EXIT_FAILURE)
         else if list_ex (\<lambda>r. snd r = Fault NullDeref) runs then (map fst runs, [], Fault NullDeref)
         else if list_ex (\<lambda>r. snd r = Done None) runs then (map fst runs, [], Done None)
         else (map fst runs, [Stdout (''Threads joined!'' @ [nl])], Done (Some EXIT_SUCCESS)))"

section \<open>The calls in terms of the stored elements\<close>

definition stores :: "nat \<Rightarrow> nat \<Rightarrow> byte list list \<Rightarrow> queue \<Rightarrow> bool" where
  "stores cap es xs q \<longleftrightarrow> queue_inv q \<and> contents q = xs \<and> q_capacity q = cap \<and> q_elem_size q = es \<and> \<not> q_aborted (q_sync q)"

lemma stores_new: "stores cap es [] (new_queue es cap)"
  by (simp add: stores_def new_queue_inv new_queue_contents) (simp add: new_queue_def)

lemma stores_full: "stores cap es xs q \<Longrightarrow> queue_is_full q \<longleftrightarrow> length xs = cap"
  and stores_empty: "stores cap es xs q \<Longrightarrow> queue_is_empty q \<longleftrightarrow> xs = []"
  and stores_size: "stores cap es xs q \<Longrightarrow> queue_size q = length xs"
  by (auto simp: stores_def queue_is_full_def queue_size_def)

lemma stores_errno: "stores cap es xs (set_errno tid c q) = stores cap es xs q"
  by (simp add: stores_def contents_def slot_def)

lemma alone_push_room:
  assumes "stores cap es xs q" "length xs < cap" "length e = es" "p = Push e \<or> p = TryPush e"
  shows "\<exists>q'. alone tid q p = Done (Some (q', None, QUEUE_SUCCESS)) \<and> stores cap es (xs @ [e]) q'"
proof -
  have "\<not> queue_is_full q" using stores_full [OF assms(1)] assms(2) by simp
  then obtain q' where "push_commit q e = Done q'" "stores cap es (xs @ [e]) q'"
    using push_commit_ok [of q e] assms(1,3) by (auto simp: stores_def)
  with \<open>\<not> queue_is_full q\<close> assms(4) show ?thesis by (auto simp: queue_push_def queue_try_push_def)
qed

lemma alone_pop_full:
  assumes "stores cap es (x # xs) q" "length (x # xs) = cap" "p = Pop True \<or> p = TryPop True"
  shows "\<exists>q'. alone tid q p = Done (Some (q', Some x, QUEUE_SUCCESS)) \<and> stores cap es xs q'"
proof -
  have ne: "\<not> queue_is_empty q" "queue_is_full q" "queue_inv q"
    using stores_empty [OF assms(1)] stores_full [OF assms(1)] assms(1,2) by (auto simp: stores_def)
  then obtain q' where "pop_commit q True = Done (q', Some x)" "stores cap es xs q'"
    using pop_commit_ok [OF ne(3,1), of True] full_write_slot [OF ne(3,2,1)] assms(1) by (auto simp: stores_def)
  with ne(1) assms(3) show ?thesis by (auto simp: queue_pop_def queue_try_pop_def)
qed

lemma alone_push_full:
  assumes "stores cap es xs q" "length xs = cap"
  shows "alone tid q (Push e) = Done None"
    and "alone tid q (TryPush e) = Done (Some (set_errno tid QUEUE_FULL q, None, QUEUE_FULL))"
  using assms stores_full [OF assms(1)]
  by (auto simp: stores_def queue_push_def queue_try_push_def set_errno_def return_error_state_def)

lemma alone_pop_empty:
  assumes "stores cap es [] q"
  shows "alone tid q (Pop w) = Done None"
    and "alone tid q (TryPop w) = Done (Some (set_errno tid QUEUE_EMPTY q, None, QUEUE_EMPTY))"
  using assms stores_empty [OF assms]
  by (auto simp: stores_def queue_pop_def queue_try_pop_def set_errno_def return_error_state_def Let_def)

declare alone.simps [simp del]

lemma length_le_bytes [simp]: "length (le_bytes n v) = n"
  by (simp add: le_bytes_def)

lemma create_ok [simp]: "queue_create all_ok_create True es c =
    (Some (new_queue es c), [QueueBlock, BufferBlock, ErrnoKey, QueueMutex, CondPop, CondPush], QUEUE_SUCCESS)"
  and destroy_ok [simp]: "fst (snd (queue_destroy all_ok_destroy q
    [QueueBlock, BufferBlock, ErrnoKey, QueueMutex, CondPop, CondPush])) = []"
  by (simp_all add: queue_create_def all_ok_create_def queue_destroy_def all_ok_destroy_def Let_def)

lemma errno_set [simp]: "queue_errno tid (set_errno tid c q) = c"
  by (simp add: queue_errno_def set_errno_def return_error_state_def)

text \<open>
  The test program \<^verbatim>\<open>tester_impl\<close> ends with success and without a leak and prints the elements in the right order, although
  a pop copies the slot of the wrong pointer: it only pops from a full queue, where both pointers agree.
\<close>

theorem tester_impl_passes:
  "\<exists>es. tester_impl_main False all_ok_create all_ok_destroy = (es, Done (Some (EXIT_SUCCESS, []))) \<and>
   stdout_of es = ''1'' @ [nl] @ ''2 1'' @ [nl] @ ''error val: 8'' @ [nl] @ ''pushed'' @ [nl] @ ''popped'' @ [nl] @
     ''Got these numbers: 1024 1025 0 0 '' @ [nl] @ ''Finished!'' @ [nl]"
proof -
  let ?n = "le_bytes 8"
  have s0: "stores 2 8 [] (new_queue 8 2)" by (rule stores_new)
  obtain q1 where q1: "alone 0 (new_queue 8 2) (Push (?n 1024)) = Done (Some (q1, None, QUEUE_SUCCESS))" "stores 2 8 [?n 1024] q1"
    using alone_push_room [OF s0, of "?n 1024" "Push (?n 1024)" 0] by auto
  obtain q2 where q2: "alone 0 q1 (TryPush (?n 1025)) = Done (Some (q2, None, QUEUE_SUCCESS))" "stores 2 8 [?n 1024, ?n 1025] q2"
    using alone_push_room [OF q1(2), of "?n 1025" "TryPush (?n 1025)" 0] by auto
  obtain q3 where q3: "alone 0 q2 (Pop True) = Done (Some (q3, Some (?n 1024), QUEUE_SUCCESS))" "stores 2 8 [?n 1025] q3"
    using alone_pop_full [OF q2(2), of "Pop True" 0] by auto
  obtain q4 where q4: "alone 0 q3 (Push (?n 1026)) = Done (Some (q4, None, QUEUE_SUCCESS))" "stores 2 8 [?n 1025, ?n 1026] q4"
    using alone_push_room [OF q3(2), of "?n 1026" "Push (?n 1026)" 0] by auto
  let ?q5 = "set_errno 0 QUEUE_FULL q4"
  have q5: "alone 0 q4 (TryPush (?n 1026)) = Done (Some (?q5, None, QUEUE_FULL))" "stores 2 8 [?n 1025, ?n 1026] ?q5"
    using alone_push_full(2) [OF q4(2), of 0 "?n 1026"] q4(2) by (auto simp: stores_errno)
  obtain q6 where q6: "alone 0 ?q5 (TryPop True) = Done (Some (q6, Some (?n 1025), QUEUE_SUCCESS))" "stores 2 8 [?n 1026] q6"
    using alone_pop_full [OF q5(2), of "TryPop True" 0] by auto
  obtain q7 where q7: "alone 0 q6 (TryPush (?n 3)) = Done (Some (q7, None, QUEUE_SUCCESS))"
    using alone_push_room [OF q6(2), of "?n 3" "TryPush (?n 3)" 0] by auto
  have "le_value (?n 1024) = 1024" "le_value (?n 1025) = 1025" "queue_size q2 = 2"
    using stores_size [OF q2(2)] by (simp_all add: le_roundtrip)
  then show ?thesis
    using q1(1) q2(1) q3(1) q4(1) q5(1) q6(1) q7 stores_empty [OF s0] stores_full [OF q2(2)]
    by (simp add: tester_impl_main_def and_then_def copied_def show_bool_def code_of_def c_eval)
qed

lemma push_numbers_room:
  "stores cap 4 xs q \<Longrightarrow> length xs + length vs \<le> cap \<Longrightarrow>
   \<exists>q'. push_numbers k i vs q = (map (\<lambda>j. Stdout (''Thread '' @ show_nat k @ '': push '' @ show_nat j @ [nl])) [i..<i + length vs], Done (Some q')) \<and>
     stores cap 4 (xs @ map (le_bytes 4) vs) q'"
proof (induction vs arbitrary: i xs q)
  case (Cons v vs)
  obtain q' where q': "alone 0 q (Push (le_bytes 4 v)) = Done (Some (q', None, QUEUE_SUCCESS))" "stores cap 4 (xs @ [le_bytes 4 v]) q'"
    using alone_push_room [OF Cons.prems(1), of "le_bytes 4 v" "Push (le_bytes 4 v)" 0] Cons.prems(2) by auto
  obtain q'' where "push_numbers k (Suc i) vs q' = (map (\<lambda>j. Stdout (''Thread '' @ show_nat k @ '': push '' @ show_nat j @ [nl])) [Suc i..<Suc i + length vs], Done (Some q''))"
      "stores cap 4 ((xs @ [le_bytes 4 v]) @ map (le_bytes 4) vs) q''"
    using Cons.IH [OF q'(2), of "Suc i"] Cons.prems(2) by auto
  then show ?case using q'(1) by (simp add: and_then_def upt_conv_Cons del: upt_Suc)
qed simp

lemma push_numbers_full:
  assumes "stores cap 4 xs q" "length xs + length vs = cap"
  shows "snd (push_numbers k i (vs @ v # ws) q) = Done None"
  using assms
proof (induction vs arbitrary: i xs q)
  case Nil
  then show ?case using alone_push_full(1) [of cap 4 xs q 0] by (simp add: and_then_def)
next
  case (Cons u vs)
  obtain q' where "alone 0 q (Push (le_bytes 4 u)) = Done (Some (q', None, QUEUE_SUCCESS))" "stores cap 4 (xs @ [le_bytes 4 u]) q'"
    using alone_push_room [OF Cons.prems(1), of "le_bytes 4 u" "Push (le_bytes 4 u)" 0] Cons.prems(2) by auto
  then show ?case using Cons.IH [of "xs @ [le_bytes 4 u]" q' "Suc i"] Cons.prems(2) by (simp add: and_then_def)
qed

lemma safe_run_thread_create:
  "safe_run_thread all_ok_create all_ok_destroy k =
     and_then ([Stdout (''9'' @ [nl])], Done (Some ())) (\<lambda>_.
     and_then (push_numbers k 0 (if k = 0 then [1, 2, 3] else [1, 2]) (set_errno 0 QUEUE_EMPTY (new_queue 4 2))) (\<lambda>q.
     ([Stdout (''Thread '' @ show_nat k @ '': finished'' @ [nl])], Done (Some []))))"
  using alone_pop_empty(2) [OF stores_new [of 2 4], of 0 True]
  by (simp add: safe_run_thread_def and_then_def code_of_def c_eval alone.simps split: option.splits outcome.splits)

text \<open>
  \<^verbatim>\<open>tester_thread_safe\<close> never ends: its first thread waits for ever in its third push into a queue for two elements that
  only it uses, and \<^verbatim>\<open>main\<close> waits for that thread; the other thread finishes and leaves nothing behind.
\<close>

theorem thread_safe_hangs:
  "snd (snd (thread_safe_main (\<lambda>_. 0) (\<lambda>_. all_ok_create) (\<lambda>_. all_ok_destroy))) = Done None \<and>
   snd (safe_run_thread all_ok_create all_ok_destroy 0) = Done None \<and>
   snd (safe_run_thread all_ok_create all_ok_destroy 1) = Done (Some [])"
proof -
  have st: "stores 2 4 [] (set_errno 0 QUEUE_EMPTY (new_queue 4 2))" by (simp add: stores_errno stores_new)
  have 0: "snd (safe_run_thread all_ok_create all_ok_destroy 0) = Done None"
    using push_numbers_full [OF st, of "[1, 2]" 0 0 3 "[]"]
    by (simp add: safe_run_thread_create and_then_def split_beta split: option.splits outcome.splits)
  have 1: "snd (safe_run_thread all_ok_create all_ok_destroy 1) = Done (Some [])"
    using push_numbers_room [OF st, of "[1, 2]" 1 0] by (auto simp: safe_run_thread_create and_then_def)
  show ?thesis using 0 1 by (simp add: thread_safe_main_def numeral_2_eq_2)
qed

end
