(* ===== verification/Queue_Atomic.thy ===== *)
theory Queue_Atomic
  imports Queue_Threads
begin

text \<open>
  What the threads may rely on when they share the queue of \<^verbatim>\<open>hw09/queue.c\<close>: an abstract queue whose calls take
  effect in one step, somewhere between their beginning and their return, without a mutex, condition variables,
  memory or pointers.  The steps of \<^verbatim>\<open>Queue_Threads\<close> refine it.  The abstract queue does not say which bytes a pop
  copies, because the source copies those of another slot.
\<close>

section \<open>The abstract queue\<close>

text \<open>A thread is outside, has called an operation that had no effect yet, or only has to return.\<close>

datatype acall = Idle "queue_error_codes option" | Called qop | Answered queue_error_codes

text \<open>
  The elements stored, in the order of the queue, the flag of \<^verbatim>\<open>queue_abort\<close> and the error code of each thread;
  \<open>aq_put\<close> and \<open>aq_got\<close> record all the elements that were ever stored and removed.
\<close>

record aqueue =
  aq_items :: "byte list list"
  aq_capacity :: nat
  aq_elem_size :: nat
  aq_aborted :: bool
  aq_errno :: "nat \<Rightarrow> queue_error_codes"
  aq_threads :: "acall list"
  aq_put :: "byte list list"
  aq_got :: "byte list list"

definition fits_queue :: "nat \<Rightarrow> qop \<Rightarrow> bool" where
  "fits_queue n p = (case p of Push e \<Rightarrow> length e = n | TryPush e \<Rightarrow> length e = n | _ \<Rightarrow> True)"

text \<open>A blocking call may give up with \<^verbatim>\<open>QUEUE_ABORT\<close>, a try with \<^verbatim>\<open>QUEUE_FULL\<close> or \<^verbatim>\<open>QUEUE_EMPTY\<close>.\<close>

fun refusal :: "aqueue \<Rightarrow> qop \<Rightarrow> queue_error_codes option" where
  "refusal a (Push e) = (if length (aq_items a) = aq_capacity a \<and> aq_aborted a then Some QUEUE_ABORT else None)"
| "refusal a (Pop w) = (if aq_items a = [] \<and> aq_aborted a then Some QUEUE_ABORT else None)"
| "refusal a (TryPush e) = (if length (aq_items a) = aq_capacity a then Some QUEUE_FULL else None)"
| "refusal a (TryPop w) = (if aq_items a = [] then Some QUEUE_EMPTY else None)"
| "refusal a Abort = None"

text \<open>An operation has begun and is not over.\<close>

definition busy :: "acall \<Rightarrow> bool" where "busy x \<longleftrightarrow> (\<forall>r. x \<noteq> Idle r)"

inductive aq_step :: "aqueue \<Rightarrow> aqueue \<Rightarrow> bool" where
  begins: "i < length (aq_threads a) \<Longrightarrow> aq_threads a ! i = Idle r \<Longrightarrow> fits_queue (aq_elem_size a) p \<Longrightarrow>
    aq_step a (a\<lparr>aq_threads := (aq_threads a)[i := Called p]\<rparr>)"
| bad_argument: "i < length (aq_threads a) \<Longrightarrow> aq_threads a ! i = Idle r \<Longrightarrow>
    aq_step a (a\<lparr>aq_errno := (aq_errno a)(i := WRONG_QUEUE_ARG), aq_threads := (aq_threads a)[i := Idle (Some WRONG_QUEUE_ARG)]\<rparr>)"
| puts: "i < length (aq_threads a) \<Longrightarrow> aq_threads a ! i = Called p \<Longrightarrow> p = Push e \<or> p = TryPush e \<Longrightarrow>
    length (aq_items a) < aq_capacity a \<Longrightarrow>
    aq_step a (a\<lparr>aq_items := aq_items a @ [e], aq_put := aq_put a @ [e], aq_threads := (aq_threads a)[i := Answered QUEUE_SUCCESS]\<rparr>)"
| gets: "i < length (aq_threads a) \<Longrightarrow> aq_threads a ! i = Called p \<Longrightarrow> p = Pop w \<or> p = TryPop w \<Longrightarrow> aq_items a = e # es \<Longrightarrow>
    aq_step a (a\<lparr>aq_items := es, aq_got := aq_got a @ [e], aq_threads := (aq_threads a)[i := Answered QUEUE_SUCCESS]\<rparr>)"
| refuses: "i < length (aq_threads a) \<Longrightarrow> aq_threads a ! i = Called p \<Longrightarrow> refusal a p = Some c \<Longrightarrow>
    aq_step a (a\<lparr>aq_threads := (aq_threads a)[i := Answered c]\<rparr>)"
| cannot_lock: "i < length (aq_threads a) \<Longrightarrow> aq_threads a ! i = Called p \<Longrightarrow> (\<exists>e. p = TryPush e) \<or> (\<exists>w. p = TryPop w) \<Longrightarrow>
    j < length (aq_threads a) \<Longrightarrow> j \<noteq> i \<Longrightarrow> busy (aq_threads a ! j) \<Longrightarrow>
    aq_step a (a\<lparr>aq_errno := (aq_errno a)(i := CANT_LOCK), aq_threads := (aq_threads a)[i := Idle (Some CANT_LOCK)]\<rparr>)"
| aborts: "i < length (aq_threads a) \<Longrightarrow> aq_threads a ! i = Called Abort \<Longrightarrow>
    aq_step a (a\<lparr>aq_aborted := True, aq_threads := (aq_threads a)[i := Answered QUEUE_SUCCESS]\<rparr>)"
| returns: "i < length (aq_threads a) \<Longrightarrow> aq_threads a ! i = Answered c \<Longrightarrow>
    aq_step a (a\<lparr>aq_errno := (if c = QUEUE_SUCCESS then aq_errno a else (aq_errno a)(i := c)),
                 aq_threads := (aq_threads a)[i := Idle (Some c)]\<rparr>)"

definition aq_init :: "nat \<Rightarrow> nat \<Rightarrow> nat \<Rightarrow> aqueue" where
  "aq_init threads elem_size capacity =
     \<lparr>aq_items = [], aq_capacity = capacity, aq_elem_size = elem_size, aq_aborted = False, aq_errno = (\<lambda>_. QUEUE_SUCCESS),
      aq_threads = replicate threads (Idle None), aq_put = [], aq_got = []\<rparr>"

section \<open>Invariant of the abstract queue\<close>

definition aq_inv :: "aqueue \<Rightarrow> bool" where
  "aq_inv a \<longleftrightarrow> aq_put a = aq_got a @ aq_items a \<and> length (aq_items a) \<le> aq_capacity a"

interpretation aq: invariant_system "\<lambda>a. \<exists>n es c. a = aq_init n es c" aq_step aq_inv
proof unfold_locales
  fix a b assume "aq_inv a" "aq_step a b"
  from this(2,1) show "aq_inv b" by (induction rule: aq_step.induct) (auto simp: aq_inv_def)
qed (auto simp: aq_inv_def aq_init_def)

section \<open>How the queue represents it\<close>

fun view :: "qpc \<Rightarrow> acall" where
  "view (Outside r) = Idle r"
| "view (AtLock p) = Called p"
| "view (AtTest p) = Called p"
| "view (Asleep p) = Called p"
| "view (Woken p) = Called p"
| "view AtSetAborted = Called Abort"
| "view (AtSignal c) = Answered QUEUE_SUCCESS"
| "view AtBroadcastPop = Answered QUEUE_SUCCESS"
| "view AtBroadcastPush = Answered QUEUE_SUCCESS"
| "view (AtUnlock c) = Answered c"

definition shows_queue :: "queue \<Rightarrow> aqueue \<Rightarrow> bool" where
  "shows_queue q a \<longleftrightarrow> aq_items a = contents q \<and> aq_capacity a = q_capacity q \<and> aq_elem_size a = q_elem_size q \<and>
     aq_aborted a = q_aborted (q_sync q) \<and> aq_errno a = q_lib_errno q"

definition represents :: "qsys \<Rightarrow> aqueue \<Rightarrow> bool" where
  "represents s a \<longleftrightarrow> shows_queue (the_queue s) a \<and> aq_threads a = map view (pcs s)"

lemma view_wake [simp]: "view (wake pc) = view pc"
  by (cases pc) (simp_all add: wake_def)

lemma view_broadcast [simp]: "map view (broadcast c xs) = map view xs"
  by (simp add: broadcast_def)

lemma view_same: "i < length xs \<Longrightarrow> view x = view (xs ! i) \<Longrightarrow> map view (xs[i := x]) = map view xs"
  by (simp add: map_update) (metis length_map list_update_id nth_map)

lemma critical_busy: "in_critical pc \<Longrightarrow> busy (view pc)"
  by (cases pc) (simp_all add: busy_def)

lemma shows_sync [simp]:
  "shows_queue (q\<lparr>q_sync := q_sync q\<lparr>q_waiting_for_push := n\<rparr>\<rparr>) a = shows_queue q a"
  "shows_queue (q\<lparr>q_sync := q_sync q\<lparr>q_waiting_for_pop := n\<rparr>\<rparr>) a = shows_queue q a"
  by (simp_all add: shows_queue_def contents_def slot_def)

lemma shows_errno [simp]:
  "shows_queue q a \<Longrightarrow> shows_queue (set_errno i c q) (a\<lparr>aq_errno := (aq_errno a)(i := c)\<rparr>)"
  by (simp add: shows_queue_def set_errno_def return_error_state_def contents_def slot_def)

lemma shows_threads [simp]: "shows_queue q (a\<lparr>aq_threads := ts\<rparr>) = shows_queue q a"
  by (simp add: shows_queue_def)

lemma represents_thread: "represents s a \<Longrightarrow> i < length (pcs s) \<Longrightarrow> i < length (aq_threads a) \<and> aq_threads a ! i = view (pcs s ! i)"
  by (simp add: represents_def)

text \<open>A step that the abstract queue sees: thread \<open>i\<close> moves on, and the abstract queue with it.\<close>

lemma seen:
  assumes "aq_step a (b\<lparr>aq_threads := (aq_threads a)[i := view x]\<rparr>)" "shows_queue q b" "represents s a"
  shows "\<exists>b. aq_step a b \<and> represents (s\<lparr>the_queue := q, owner := o', pcs := (pcs s)[i := x]\<rparr>) b"
  using assms by (intro exI conjI) (auto simp: represents_def map_update)

lemma seen_refusal:
  assumes "represents s a" "i < length (pcs s)" "pcs s ! i = AtTest p" "refusal a p = Some c"
  shows "\<exists>b. aq_step a b \<and> represents (s\<lparr>pcs := (pcs s)[i := AtUnlock c]\<rparr>) b"
  using seen [of a i "AtUnlock c" a "the_queue s" s "owner s"] aq_step.refuses [of i a p c] represents_thread [OF assms(1,2)] assms
  by (simp add: represents_def)

lemma seen_error:
  assumes "represents s a" "i < length (pcs s)" "aq_step a (a\<lparr>aq_errno := (aq_errno a)(i := c), aq_threads := (aq_threads a)[i := Idle (Some c)]\<rparr>)"
  shows "\<exists>b. aq_step a b \<and> represents (s\<lparr>the_queue := set_errno i c (the_queue s), owner := o', pcs := (pcs s)[i := Outside (Some c)]\<rparr>) b"
  by (rule seen [where b = "a\<lparr>aq_errno := (aq_errno a)(i := c)\<rparr>"]) (use assms in \<open>simp_all add: represents_def\<close>)

lemma seen_push:
  assumes "represents s a" "ring_inv s" "i < length (pcs s)" "pcs s ! i = AtTest p" "p = Push e \<or> p = TryPush e"
    "\<not> queue_is_full (the_queue s)" "push_commit (the_queue s) e = Done q'"
  shows "\<exists>b. aq_step a b \<and> represents (s\<lparr>the_queue := q', pcs := (pcs s)[i := AtSignal CondPopVar]\<rparr>) b"
proof -
  have q: "queue_inv (the_queue s)" "length e = q_elem_size (the_queue s)"
    using assms by (auto simp: ring_inv_def elem_ok_def dest!: spec [of _ i])
  let ?b = "a\<lparr>aq_items := aq_items a @ [e], aq_put := aq_put a @ [e]\<rparr>"
  have "shows_queue q' ?b" using push_commit_ok [OF q(1) assms(6), of e] assms q(2) by (auto simp: represents_def shows_queue_def)
  moreover have "length (aq_items a) < aq_capacity a"
    using assms q(1) by (auto simp: represents_def shows_queue_def queue_is_full_def queue_inv_def split: if_splits)
  then have "aq_step a (?b\<lparr>aq_threads := (aq_threads a)[i := view (AtSignal CondPopVar)]\<rparr>)"
    using aq_step.puts [of i a p e] represents_thread [OF assms(1,3)] assms(4,5) by simp
  ultimately show ?thesis using seen [of a i "AtSignal CondPopVar" ?b q' s "owner s"] assms(1) by simp
qed

lemma seen_pop:
  assumes "represents s a" "ring_inv s" "i < length (pcs s)" "pcs s ! i = AtTest p" "p = Pop w \<or> p = TryPop w"
    "\<not> queue_is_empty (the_queue s)" "pop_commit (the_queue s) w = Done (q', out)"
  shows "\<exists>b. aq_step a b \<and> represents (s\<lparr>the_queue := q', pcs := (pcs s)[i := AtSignal CondPushVar]\<rparr>) b"
proof -
  have q: "queue_inv (the_queue s)" using assms by (simp add: ring_inv_def)
  have "aq_items a \<noteq> []" using assms(1,6) by (simp add: represents_def shows_queue_def)
  then obtain x xs where x: "aq_items a = x # xs" by (cases "aq_items a") auto
  let ?b = "a\<lparr>aq_items := xs, aq_got := aq_got a @ [x]\<rparr>"
  have "contents (the_queue s) = x # xs" using assms(1) x by (simp add: represents_def shows_queue_def)
  then have "shows_queue q' ?b"
    using pop_commit_ok [OF q assms(6), of w] assms by (auto simp: represents_def shows_queue_def)
  moreover have "aq_step a (?b\<lparr>aq_threads := (aq_threads a)[i := view (AtSignal CondPushVar)]\<rparr>)"
    using aq_step.gets [of i a p w x xs] represents_thread [OF assms(1,3)] assms(4,5) x by simp
  ultimately show ?thesis using seen [of a i "AtSignal CondPushVar" ?b q' s "owner s"] assms(1) by simp
qed

text \<open>Every step of the threads is matched; those not named here are not seen.\<close>

lemma queue_step_matched:
  assumes "qstep s t" "mutex_inv s" "ring_inv s" "represents s a"
  shows "represents t a \<or> (\<exists>b. aq_step a b \<and> represents t b)"
  using assms
proof (induction rule: qstep.induct)
  case (call i s r p)
  then have "aq_step a (a\<lparr>aq_threads := (aq_threads a)[i := view (AtLock p)]\<rparr>)"
    using aq_step.begins [of i a r p] represents_thread [of s a i] by (simp add: represents_def shows_queue_def fits_queue_def)
  from seen [OF this _ call.prems(3), of "the_queue s" "owner s"] call.prems(3) show ?case by (simp add: represents_def)
next
  case (call_null i s r)
  then show ?case using seen_error [of s a i WRONG_QUEUE_ARG "owner s"] aq_step.bad_argument [of i a r] represents_thread [of s a i] by simp
next
  case (trylock_fails i s p)
  then obtain j where j: "j < length (pcs s)" "in_critical (pcs s ! j)" by (auto simp: mutex_inv_def)
  then have "j \<noteq> i" "busy (view (pcs s ! j))" using trylock_fails critical_busy by auto
  with trylock_fails j show ?case
    using seen_error [of s a i CANT_LOCK "owner s"] aq_step.cannot_lock [of i a p j] represents_thread [of s a] by (auto split: qop.splits)
next
  case (push_aborts i s e)
  then show ?case using seen_refusal [of s a i "Push e"] by (simp add: represents_def shows_queue_def queue_is_full_def)
next
  case (pop_aborts i s w)
  then show ?case using seen_refusal [of s a i "Pop w"] by (simp add: represents_def shows_queue_def)
next
  case (try_push_full i s e)
  then show ?case using seen_refusal [of s a i "TryPush e"] by (simp add: represents_def shows_queue_def queue_is_full_def)
next
  case (try_pop_empty i s w)
  then show ?case using seen_refusal [of s a i "TryPop w"] by (simp add: represents_def shows_queue_def)
next
  case (push_stores i s p e q')
  then show ?case using seen_push by blast
next
  case (pop_takes i s p w q' out)
  then show ?case using seen_pop by blast
next
  case (signal i s c j)
  then have "i \<noteq> j" by (auto simp: sleeps_on_def)
  with signal show ?case by (simp add: represents_def view_same)
next
  case (set_aborted i s)
  then have "shows_queue (fst (queue_abort (the_queue s))) (a\<lparr>aq_aborted := True\<rparr>)"
    by (simp add: represents_def shows_queue_def queue_abort_def contents_def slot_def)
  from seen [OF _ this set_aborted.prems(3), of i AtBroadcastPop "owner s"] show ?case
    using set_aborted aq_step.aborts [of i a] represents_thread [of s a i] by simp
next
  case (unlock i s c)
  then have "aq_step a (a\<lparr>aq_errno := (if c = QUEUE_SUCCESS then aq_errno a else (aq_errno a)(i := c)), aq_threads := (aq_threads a)[i := Idle (Some c)]\<rparr>)"
    using aq_step.returns [of i a c] represents_thread [of s a i] by simp
  then show ?case using seen_error [of s a i c None] seen [of a i "Outside (Some c)" a "the_queue s" s None] unlock
    by (auto simp: leave_def represents_def split: if_splits)
qed (auto simp: represents_def view_same sleeps_on_def)

section \<open>The queue refines the abstract queue\<close>

interpretation atomic: simulation "\<lambda>s. \<exists>n es c. s = qinit n es c" qstep qsys_inv aq_step represents
  by unfold_locales (use queue_step_matched in \<open>simp add: qsys_inv_def\<close>)

lemma represents_init: "represents (qinit n es c) (aq_init n es c)"
  by (simp add: represents_def shows_queue_def qinit_def aq_init_def new_queue_contents) (simp add: new_queue_def)



end
