(* ===== verification/Queue_Clients.thy ===== *)
theory Queue_Clients
  imports Queue_Alone Queue_Atomic
begin

text \<open>
  Programs whose threads share a queue of \<^verbatim>\<open>hw09\<close>: a thread is a list of actions, the calls of the queue
  run by the steps of \<open>Queue_Threads\<close>, and thread 0 is \<^verbatim>\<open>main\<close>, which creates and joins the others.
  The program is \<^verbatim>\<open>tester_mult_thread.c\<close>.
\<close>

section \<open>Threads as lists of actions\<close>

text \<open>
  \<open>PrintGot\<close> prints the thread's buffer; \<open>Create\<close>, \<open>Join\<close> are the calls of the thread library, whose
  argument is the number of the thread.
\<close>

datatype client_action = Call qop | PrintGot | Create nat | Join nat | Say string | Sleep | Destroy | Return

record client =
  cl_sys :: qsys
  cl_acts :: "client_action list list"
  cl_buf :: "byte list list"
  cl_out :: "event list"
  cl_alive :: bool
  cl_exit :: "int option"

text \<open>What a step copies to the buffer of thread \<open>i\<close>.\<close>

definition popped :: "qsys \<Rightarrow> qsys \<Rightarrow> nat \<Rightarrow> byte list option" where
  "popped s t i = (case (pcs s ! i, pcs t ! i) of
      (AtTest p, AtSignal _) \<Rightarrow>
        if p = Pop True \<or> p = TryPop True
        then (case pop_commit (the_queue s) True of Done (_, out) \<Rightarrow> out | _ \<Rightarrow> None) else None
    | _ \<Rightarrow> None)"

definition new_buffers :: "qsys \<Rightarrow> qsys \<Rightarrow> byte list list \<Rightarrow> byte list list" where
  "new_buffers s t bufs = map (\<lambda>i. case popped s t i of Some b \<Rightarrow> b | None \<Rightarrow> bufs ! i) [0..<length bufs]"

definition got_line :: "byte list \<Rightarrow> event" where
  "got_line b = Stdout (''Got: '' @ show_int (to_int (int (le_value b))) @ [nl])"

definition outside :: "client \<Rightarrow> nat \<Rightarrow> bool" where
  "outside s i \<longleftrightarrow> (case pcs (cl_sys s) ! i of Outside _ \<Rightarrow> True | _ \<Rightarrow> False)"

definition finished :: "client \<Rightarrow> nat \<Rightarrow> bool" where
  "finished s i \<longleftrightarrow> cl_acts s ! i = [] \<and> outside s i"

text \<open>Thread \<open>i\<close> is about to do \<open>a\<close>, and \<open>rest\<close> afterwards.\<close>

definition next_act :: "client \<Rightarrow> nat \<Rightarrow> client_action \<Rightarrow> client_action list \<Rightarrow> bool" where
  "next_act s i a rest \<longleftrightarrow> cl_exit s = None \<and> i < length (cl_acts s) \<and> cl_acts s ! i = a # rest \<and> outside s i"

abbreviation proceed :: "nat \<Rightarrow> client_action list \<Rightarrow> client \<Rightarrow> client" where
  "proceed i rest s \<equiv> s\<lparr>cl_acts := (cl_acts s)[i := rest]\<rparr>"

text \<open>
  \<open>prog j\<close> is what thread \<open>j\<close> runs, \<open>shown j\<close> the number in the message when it cannot be created.
  Joining waits for the end of the thread; the end of \<^verbatim>\<open>main\<close> ends the process.
\<close>

inductive cstep :: "(nat \<Rightarrow> client_action list) \<Rightarrow> (nat \<Rightarrow> nat) \<Rightarrow> client \<Rightarrow> client \<Rightarrow> bool" for prog shown where
  c_call: "next_act s i (Call p) rest \<Longrightarrow>
    cstep prog shown s (proceed i rest (s\<lparr>cl_sys := (cl_sys s)\<lparr>pcs := (pcs (cl_sys s))[i := AtLock p]\<rparr>\<rparr>))"
| c_inside: "cl_exit s = None \<Longrightarrow> inside (cl_sys s) t \<Longrightarrow>
    cstep prog shown s (s\<lparr>cl_sys := t, cl_buf := new_buffers (cl_sys s) t (cl_buf s)\<rparr>)"
| c_got: "next_act s i PrintGot rest \<Longrightarrow>
    cstep prog shown s (proceed i rest (s\<lparr>cl_out := cl_out s @ [got_line (cl_buf s ! i)]\<rparr>))"
| c_create: "next_act s i (Create j) rest \<Longrightarrow>
    cstep prog shown s (s\<lparr>cl_acts := (cl_acts s)[i := rest, j := prog j]\<rparr>)"
| c_create_fails: "next_act s i (Create j) rest \<Longrightarrow> perrno \<noteq> 0 \<Longrightarrow>
    cstep prog shown s (s\<lparr>cl_out := cl_out s @ [Error perrno (''pthread_create('' @ show_nat (shown j) @ '')'')],
                          cl_exit := Some EXIT_FAILURE\<rparr>)"
| c_join: "next_act s i (Join j) rest \<Longrightarrow> finished s j \<Longrightarrow> cstep prog shown s (proceed i rest s)"
| c_say: "next_act s i (Say m) rest \<Longrightarrow>
    cstep prog shown s (proceed i rest (s\<lparr>cl_out := cl_out s @ [Stdout (m @ [nl])]\<rparr>))"
| c_sleep: "next_act s i Sleep rest \<Longrightarrow> cstep prog shown s (proceed i rest s)"
| c_destroy: "next_act s i Destroy rest \<Longrightarrow> cstep prog shown s (proceed i rest (s\<lparr>cl_alive := False\<rparr>))"
| c_return: "next_act s i Return rest \<Longrightarrow> cstep prog shown s (proceed i rest (s\<lparr>cl_exit := Some EXIT_SUCCESS\<rparr>))"

section \<open>tester\_mult\_thread.c\<close>

definition THREADS :: nat where "THREADS = 2"
definition QUEUE_SIZE :: nat where "QUEUE_SIZE = 4"

definition run_prod :: "client_action list" where
  "run_prod = map (\<lambda>v. Call (Push (le_bytes 4 v))) [1, 2, 3, 4] @ [Call (TryPush (le_bytes 4 0))]"

definition run_cons :: "client_action list" where
  "run_cons = concat (replicate (4 * 2 - 1) [Call (Pop True), PrintGot]) @ [Call (TryPop True), PrintGot, Call (TryPop True), PrintGot]"

text \<open>The producers are the threads 1 to \<open>2 * THREADS\<close>, the consumers the \<open>THREADS\<close> after them.\<close>

definition prods :: "nat list" where "prods = [1..<1 + THREADS * 2]"
definition conss :: "nat list" where "conss = [1 + THREADS * 2..<1 + THREADS * 2 + THREADS]"

definition mult_prog :: "nat \<Rightarrow> client_action list" where
  "mult_prog j = (if j \<in> set prods then run_prod else run_cons)"

definition mult_shown :: "nat \<Rightarrow> nat" where
  "mult_shown j = (if j \<in> set prods then j - 1 else j - (1 + THREADS * 2))"

text \<open>\<^verbatim>\<open>main\<close> after \<^verbatim>\<open>queue_create\<close>; \<^verbatim>\<open>queue_destroy\<close> begins with a call of \<^verbatim>\<open>queue_abort\<close>.\<close>

definition mult_main :: "client_action list" where
  "mult_main = map Create prods @ map Create conss @ [Sleep, Call Abort] @ map Join conss @ [Say ''Consumers joined!''] @
     map Join prods @ [Say ''Producers joined!'', Call Abort, Destroy, Return]"

definition mult_init :: client where
  "mult_init = \<lparr>cl_sys = qinit (1 + 3 * THREADS) 4 QUEUE_SIZE, cl_acts = mult_main # replicate (3 * THREADS) [],
     cl_buf = replicate (1 + 3 * THREADS) (replicate 4 0), cl_out = [], cl_alive = True, cl_exit = None\<rparr>"

abbreviation mult_step :: "client \<Rightarrow> client \<Rightarrow> bool" where
  "mult_step \<equiv> cstep mult_prog mult_shown"

section \<open>Well-formed programs\<close>

definition fits :: "nat \<Rightarrow> qop \<Rightarrow> bool" where
  "fits es p = (case p of Push e \<Rightarrow> length e = es | TryPush e \<Rightarrow> length e = es | _ \<Rightarrow> True)"

definition worker_ok :: "nat \<Rightarrow> client_action \<Rightarrow> bool" where
  "worker_ok es a = (case a of Call p \<Rightarrow> fits es p | PrintGot \<Rightarrow> True | _ \<Rightarrow> False)"

text \<open>Every thread that is created is joined, \<^verbatim>\<open>main\<close> ends by returning, and does so right after the queue is destroyed.\<close>

fun main_ok :: "nat \<Rightarrow> nat \<Rightarrow> client_action list \<Rightarrow> bool" where
  "main_ok es n [] = True"
| "main_ok es n (a # rest) =
     (main_ok es n rest \<and> (if rest = [] then a = Return else a \<noteq> Return) \<and>
      (case a of Create j \<Rightarrow> 1 \<le> j \<and> j < n \<and> Join j \<in> set rest \<and> Create j \<notin> set rest
       | Join j \<Rightarrow> 1 \<le> j \<and> j < n
       | Call p \<Rightarrow> fits es p
       | Destroy \<Rightarrow> rest = [Return]
       | PrintGot \<Rightarrow> False
       | _ \<Rightarrow> True))"

lemma mult_main_ok: "main_ok 4 7 mult_main"
  by (simp add: mult_main_def prods_def conss_def THREADS_def fits_def upt_rec)

lemma mult_prog_ok: "list_all (worker_ok 4) (mult_prog j)"
  by (simp add: mult_prog_def run_prod_def run_cons_def worker_ok_def fits_def numeral_eq_Suc)

section \<open>What the steps of the queue leave alone\<close>

lemma qstep_length: "qstep s t \<Longrightarrow> length (pcs t) = length (pcs s)"
  by (induction rule: qstep.induct) auto

lemma qstep_elem_size: "qstep s t \<Longrightarrow> q_elem_size (the_queue t) = q_elem_size (the_queue s)"
proof (induction rule: qstep.induct)
  case (push_stores i s p e q')
  then show ?case by (auto simp: push_commit_def split: if_splits outcome.splits)
next
  case (pop_takes i s p w q' out)
  then show ?case by (auto simp: pop_commit_def split: if_splits outcome.splits)
qed auto

lemma inside_outside:
  assumes "inside s t" "pcs s ! j = Outside r" "j < length (pcs s)"
  shows "pcs t ! j = Outside r"
proof -
  have "qstep s t" and moved: "\<exists>i < length (pcs s). (\<forall>r. pcs s ! i \<noteq> Outside r) \<and> pcs t ! i \<noteq> pcs s ! i"
    using assms(1) by (auto simp: inside_def)
  then show ?thesis using assms(2,3)
    by (induction rule: qstep.induct) (auto simp: nth_list_update sleeps_on_def split: if_splits)
qed

section \<open>The invariant of a client\<close>

definition shape_inv :: "nat \<Rightarrow> nat \<Rightarrow> client \<Rightarrow> bool" where
  "shape_inv es n s \<longleftrightarrow> length (pcs (cl_sys s)) = n \<and> length (cl_acts s) = n \<and> length (cl_buf s) = n \<and> 0 < n \<and>
     q_elem_size (the_queue (cl_sys s)) = es"

definition script_inv :: "nat \<Rightarrow> nat \<Rightarrow> client \<Rightarrow> bool" where
  "script_inv es n s \<longleftrightarrow> main_ok es n (cl_acts s ! 0) \<and> (\<forall>i. 1 \<le> i \<longrightarrow> i < n \<longrightarrow> list_all (worker_ok es) (cl_acts s ! i)) \<and>
     (cl_acts s ! 0 = [] \<longrightarrow> cl_exit s \<noteq> None)"

definition joined_inv :: "nat \<Rightarrow> client \<Rightarrow> bool" where
  "joined_inv n s \<longleftrightarrow> (\<forall>j. 1 \<le> j \<longrightarrow> j < n \<longrightarrow> Create j \<in> set (cl_acts s ! 0) \<or> Join j \<notin> set (cl_acts s ! 0) \<longrightarrow> finished s j)"

definition dead_inv :: "client \<Rightarrow> bool" where
  "dead_inv s \<longleftrightarrow> (\<not> cl_alive s \<longrightarrow> outside s 0 \<and> set (cl_acts s ! 0) \<subseteq> {Return})"

definition client_inv :: "nat \<Rightarrow> nat \<Rightarrow> client \<Rightarrow> bool" where
  "client_inv es n s \<longleftrightarrow> shape_inv es n s \<and> qsys_inv (cl_sys s) \<and> script_inv es n s \<and> joined_inv n s \<and> dead_inv s"

lemma next_actD: "next_act s i a rest \<Longrightarrow> cl_exit s = None \<and> i < length (cl_acts s) \<and> cl_acts s ! i = a # rest \<and> outside s i"
  by (simp add: next_act_def)

lemma worker_acts:
  assumes "next_act s i a rest" "script_inv es n s" "shape_inv es n s" "0 < i"
  shows "worker_ok es a" "list_all (worker_ok es) rest"
  using assms by (auto simp: next_act_def script_inv_def shape_inv_def dest!: spec [of _ i])

lemma main_acts:
  assumes "next_act s 0 a rest" "script_inv es n s"
  shows "main_ok es n (a # rest)"
  using assms by (auto simp: next_act_def script_inv_def)

lemma call_is_qstep:
  assumes "next_act s i (Call p) rest" "script_inv es n s" "shape_inv es n s"
  shows "qstep (cl_sys s) ((cl_sys s)\<lparr>pcs := (pcs (cl_sys s))[i := AtLock p]\<rparr>)"
proof -
  have "fits es p" using worker_acts [OF assms] main_acts [of s "Call p" rest es n] assms
    by (cases "i = 0") (auto simp: worker_ok_def)
  moreover obtain r where "pcs (cl_sys s) ! i = Outside r"
    using assms(1) by (auto simp: next_act_def outside_def split: qpc.splits)
  ultimately show ?thesis using assms qstep.call [of i "cl_sys s" r p]
    by (auto simp: next_act_def shape_inv_def fits_def)
qed

text \<open>Every step of a client is a step of the queue or leaves the queue alone.\<close>

lemma client_refines:
  assumes "cstep prog shown s t" "script_inv es n s" "shape_inv es n s"
  shows "qstep (cl_sys s) (cl_sys t) \<or> cl_sys t = cl_sys s"
  using assms
proof (cases rule: cstep.cases)
  case (c_call i p rest)
  then show ?thesis using call_is_qstep assms by simp
next
  case (c_inside t)
  then show ?thesis by (simp add: inside_def)
qed simp_all

lemma shape_step:
  assumes "cstep prog shown s t" "script_inv es n s" "shape_inv es n s"
  shows "shape_inv es n t"
proof -
  have "length (pcs (cl_sys t)) = n" "q_elem_size (the_queue (cl_sys t)) = es"
    using client_refines [OF assms] qstep_length [of "cl_sys s" "cl_sys t"] qstep_elem_size [of "cl_sys s" "cl_sys t"] assms(3)
    by (auto simp: shape_inv_def)
  with assms(1,3) show ?thesis by (cases rule: cstep.cases) (auto simp: shape_inv_def new_buffers_def)
qed

lemma script_step:
  assumes "cstep prog shown s t" "script_inv es n s" "shape_inv es n s" "\<And>j. list_all (worker_ok es) (prog j)"
  shows "script_inv es n t"
proof -
  have other: "script_inv es n (proceed i rest s')" if "next_act s i a rest" "cl_acts s' = cl_acts s" "cl_exit s' = cl_exit s" "a \<noteq> Return" for s' i a rest
  proof (cases "i = 0")
    case True
    then show ?thesis using that main_acts [of s a rest es n] assms(2,3)
      by (auto simp: script_inv_def shape_inv_def nth_list_update next_act_def split: if_splits)
  next
    case False
    then show ?thesis using that worker_acts(2) [OF that(1) assms(2,3)] assms(2,3)
      by (auto simp: script_inv_def shape_inv_def nth_list_update next_act_def)
  qed
  from assms(1) show ?thesis
  proof (cases rule: cstep.cases)
    case (c_create i j rest)
    then have i: "i = 0" using worker_acts(1) [OF c_create(2) assms(2,3)] by (cases "i = 0") (auto simp: worker_ok_def)
    with main_acts [of s "Create j" rest es n] c_create assms(2) have "main_ok es n (Create j # rest)" by simp
    with c_create i assms(2-4) show ?thesis
      by (auto simp: script_inv_def shape_inv_def nth_list_update next_act_def split: if_splits)
  next
    case (c_return i rest)
    then have i: "i = 0" using worker_acts(1) [OF c_return(2) assms(2,3)] by (cases "i = 0") (auto simp: worker_ok_def)
    with main_acts [of s Return rest es n] c_return assms(2,3) show ?thesis
      by (auto simp: script_inv_def shape_inv_def nth_list_update next_act_def)
  qed (use other assms(2) in \<open>auto simp: script_inv_def\<close>)
qed

lemma only_main:
  assumes "next_act s i a rest" "script_inv es n s" "shape_inv es n s" "\<not> worker_ok es a"
  shows "i = 0"
  using worker_acts(1) [OF assms(1-3)] assms(4) by (cases "i = 0") auto

lemma outside_simp [simp]:
  "outside (s\<lparr>cl_acts := a\<rparr>) j = outside s j" "outside (s\<lparr>cl_out := x\<rparr>) j = outside s j"
  "outside (s\<lparr>cl_alive := b\<rparr>) j = outside s j" "outside (s\<lparr>cl_exit := e\<rparr>) j = outside s j"
  by (simp_all add: outside_def)

lemma finished_stays:
  assumes "cstep prog shown s t" "finished s j" "j < length (cl_acts s)" "length (pcs (cl_sys s)) = length (cl_acts s)"
    and "\<And>i rest. next_act s i (Create j) rest \<Longrightarrow> t \<noteq> s\<lparr>cl_acts := (cl_acts s)[i := rest, j := prog j]\<rparr>"
  shows "finished t j"
  using assms(1)
proof (cases rule: cstep.cases)
  case (c_inside t)
  moreover obtain r where "pcs (cl_sys s) ! j = Outside r" using assms(2) by (auto simp: finished_def outside_def split: qpc.splits)
  ultimately show ?thesis using inside_outside [of "cl_sys s" t j r] assms(2-4) by (simp add: finished_def outside_def)
next
  case (c_create i k rest)
  then have "k \<noteq> j" using assms(5) by auto
  with c_create assms(2,3) show ?thesis by (auto simp: finished_def next_act_def nth_list_update)
qed (use assms(2,3) in \<open>auto simp: finished_def outside_def next_act_def nth_list_update\<close>)

lemma join_premise:
  assumes "cstep prog shown s t" "script_inv es n s" "shape_inv es n s" "1 \<le> j"
    and "Create j \<in> set (cl_acts t ! 0) \<or> Join j \<notin> set (cl_acts t ! 0)"
  shows "Create j \<in> set (cl_acts s ! 0) \<or> Join j \<notin> set (cl_acts s ! 0) \<or> finished s j"
  using assms(1)
proof (cases rule: cstep.cases)
  case (c_join i k rest)
  then have "i = 0" using only_main [OF c_join(2) assms(2,3)] by (simp add: worker_ok_def)
  with c_join assms show ?thesis by (cases "k = j") (auto simp: next_act_def shape_inv_def)
next
  case (c_create i k rest)
  then have "i = 0" using only_main [OF c_create(2) assms(2,3)] by (simp add: worker_ok_def)
  moreover have "1 \<le> k" using main_acts [of s "Create k" rest es n] c_create assms(2) calculation by simp
  ultimately show ?thesis using c_create assms by (auto simp: next_act_def shape_inv_def)
qed (use assms(3,4,5) in \<open>auto simp: next_act_def shape_inv_def nth_list_update split: if_splits\<close>)

lemma join_step:
  assumes "cstep prog shown s t" "script_inv es n s" "shape_inv es n s" "joined_inv n s"
  shows "joined_inv n t"
  unfolding joined_inv_def
proof (intro allI impI)
  fix j assume j: "1 \<le> j" "j < n" and t: "Create j \<in> set (cl_acts t ! 0) \<or> Join j \<notin> set (cl_acts t ! 0)"
  have fin: "finished s j" using join_premise [OF assms(1-3) j(1) t] assms(4) j by (auto simp: joined_inv_def)
  have not_created: "t \<noteq> s\<lparr>cl_acts := (cl_acts s)[i := rest, j := prog j]\<rparr>" if "next_act s i (Create j) rest" for i rest
  proof
    assume eq: "t = s\<lparr>cl_acts := (cl_acts s)[i := rest, j := prog j]\<rparr>"
    have "i = 0" using only_main [OF that assms(2,3)] by (simp add: worker_ok_def)
    with that main_acts [of s "Create j" rest es n] assms(2) have "Join j \<in> set rest" "Create j \<notin> set rest" by auto
    with eq t j \<open>i = 0\<close> assms(3) show False by (auto simp: shape_inv_def)
  qed
  show "finished t j" using finished_stays [OF assms(1) fin _ _ not_created] assms(3) j by (auto simp: shape_inv_def)
qed

lemma dead_step:
  assumes "cstep prog shown s t" "script_inv es n s" "shape_inv es n s" "dead_inv s"
  shows "dead_inv t"
  using assms(1)
proof (cases rule: cstep.cases)
  case (c_inside t')
  moreover have "outside t 0" if dead: "\<not> cl_alive s"
  proof -
    obtain r where "pcs (cl_sys s) ! 0 = Outside r" using dead assms(4) by (auto simp: dead_inv_def outside_def split: qpc.splits)
    then show ?thesis using inside_outside [of "cl_sys s" t' 0 r] c_inside assms(3) by (auto simp: outside_def shape_inv_def)
  qed
  ultimately show ?thesis using assms(4) by (simp add: dead_inv_def)
next
  case (c_destroy i rest)
  then have "i = 0" using only_main [OF c_destroy(2) assms(2,3)] by (simp add: worker_ok_def)
  with c_destroy main_acts [of s Destroy rest es n] assms(2,3) show ?thesis by (auto simp: dead_inv_def next_act_def shape_inv_def)
next
  case (c_create i k rest)
  then have "i = 0" using only_main [OF c_create(2) assms(2,3)] by (simp add: worker_ok_def)
  with c_create assms(4) show ?thesis by (auto simp: dead_inv_def next_act_def)
next
  case (c_call i p rest)
  with assms(3,4) show ?thesis
    by (cases "i = 0") (auto simp: dead_inv_def next_act_def outside_def shape_inv_def)
qed (use assms(3,4) in \<open>auto simp: dead_inv_def next_act_def nth_list_update shape_inv_def split: if_splits\<close>)

lemma client_step:
  assumes "cstep prog shown s t" "client_inv es n s" "\<And>j. list_all (worker_ok es) (prog j)"
  shows "client_inv es n t"
proof -
  have s: "shape_inv es n s" "qsys_inv (cl_sys s)" "script_inv es n s" "joined_inv n s" "dead_inv s"
    using assms(2) by (simp_all add: client_inv_def)
  have "qsys_inv (cl_sys t)" using client_refines [OF assms(1) s(3,1)] qs.inv_step [OF s(2)] s(2) by auto
  then show ?thesis
    using shape_step [OF assms(1) s(3,1)] script_step [OF assms(1) s(3,1) assms(3)] join_step [OF assms(1) s(3,1,4)]
      dead_step [OF assms(1) s(3,1,5)] by (simp add: client_inv_def)
qed

lemma mult_init_inv: "client_inv 4 7 mult_init"
proof -
  have "finished mult_init j" if "1 \<le> j" "j < 7" for j
    using that by (simp add: finished_def mult_init_def outside_def qinit_def THREADS_def nth_Cons')
  moreover have "mult_main \<noteq> []" by (simp add: mult_main_def)
  ultimately show ?thesis using mult_main_ok qinit_inv
    by (auto simp: client_inv_def shape_inv_def script_inv_def joined_inv_def dead_inv_def mult_init_def qinit_def THREADS_def new_queue_def nth_Cons')
qed

interpretation mult: invariant_system "\<lambda>s. s = mult_init" mult_step "client_inv 4 7"
  by unfold_locales (auto simp: mult_init_inv intro: client_step [OF _ _ mult_prog_ok])

text \<open>The program is a client of the queue, and through it of the abstract queue.\<close>

interpretation mult_queue: simulation "\<lambda>s. s = mult_init" mult_step "client_inv 4 7" qstep "\<lambda>s q. cl_sys s = q"
  by unfold_locales (use client_refines in \<open>fastforce simp: client_inv_def\<close>)

lemma mult_thread_atomic:
  assumes "reaches mult_step mult_init s"
  shows "\<exists>a. reaches aq_step (aq_init 7 4 4) a \<and> represents (cl_sys s) a"
proof -
  have init: "cl_sys mult_init = qinit 7 4 4" by (simp add: mult_init_def THREADS_def QUEUE_SIZE_def)
  have "reaches qstep (qinit 7 4 4) (cl_sys s)" using mult_queue.refines [OF refl init assms] by simp
  from atomic.refines [OF _ represents_init this] show ?thesis by blast
qed

section \<open>What is left to do\<close>

text \<open>The sum of a weight over the actions that are left, with those of the threads still to be created.\<close>

definition act_weight :: "(client_action \<Rightarrow> nat) \<Rightarrow> (nat \<Rightarrow> client_action list) \<Rightarrow> client_action \<Rightarrow> nat" where
  "act_weight f prog a = f a + (case a of Create j \<Rightarrow> sum_list (map f (prog j)) | _ \<Rightarrow> 0)"

definition total :: "(client_action \<Rightarrow> nat) \<Rightarrow> (nat \<Rightarrow> client_action list) \<Rightarrow> client_action list list \<Rightarrow> nat" where
  "total f prog xss = sum_list (map (\<lambda>as. sum_list (map (act_weight f prog) as)) xss)"

lemma sum_list_put: "i < length xs \<Longrightarrow> sum_list (xs[i := x]) + xs ! i = sum_list xs + (x :: nat)"
proof (induction xs arbitrary: i)
  case (Cons y ys)
  then show ?case by (cases i) auto
qed simp

lemma total_put: "i < length xss \<Longrightarrow>
    total f prog (xss[i := as]) + sum_list (map (act_weight f prog) (xss ! i)) = total f prog xss + sum_list (map (act_weight f prog) as)"
  using sum_list_put [of i "map (\<lambda>as. sum_list (map (act_weight f prog) as)) xss"] by (simp add: total_def map_update)

lemma total_proceed: "i < length xss \<Longrightarrow> xss ! i = a # rest \<Longrightarrow> total f prog xss = act_weight f prog a + total f prog (xss[i := rest])"
  using total_put [of i xss f prog rest] by simp

lemma weight_worker: "list_all (worker_ok es) as \<Longrightarrow> sum_list (map (act_weight f prog) as) = sum_list (map f as)"
proof (induction as)
  case (Cons a as)
  then show ?case by (cases a) (auto simp: act_weight_def worker_ok_def)
qed simp

text \<open>A step either takes an action of a thread, or only moves the queue, or is the exit after a failed creation.\<close>

definition printed :: "client \<Rightarrow> nat \<Rightarrow> client_action \<Rightarrow> event list" where
  "printed s i a = (case a of PrintGot \<Rightarrow> [got_line (cl_buf s ! i)] | Say m \<Rightarrow> [Stdout (m @ [nl])] | _ \<Rightarrow> [])"

definition takes :: "(client_action \<Rightarrow> nat) \<Rightarrow> (nat \<Rightarrow> client_action list) \<Rightarrow> client \<Rightarrow> client \<Rightarrow> bool" where
  "takes f prog s t \<longleftrightarrow> (\<exists>i a rest. next_act s i a rest \<and> total f prog (cl_acts s) = f a + total f prog (cl_acts t) \<and>
     cl_out t = cl_out s @ printed s i a \<and>
     pcs (cl_sys t) = (case a of Call p \<Rightarrow> (pcs (cl_sys s))[i := AtLock p] | _ \<Rightarrow> pcs (cl_sys s)))"

definition only_queue :: "client \<Rightarrow> client \<Rightarrow> bool" where
  "only_queue s t \<longleftrightarrow> cl_acts t = cl_acts s \<and> inside (cl_sys s) (cl_sys t) \<and> cl_out t = cl_out s \<and> cl_exit t = cl_exit s"

definition gives_up :: "client \<Rightarrow> client \<Rightarrow> bool" where
  "gives_up s t \<longleftrightarrow> cl_acts t = cl_acts s \<and> cl_exit s = None \<and> cl_exit t = Some EXIT_FAILURE \<and> cl_sys t = cl_sys s \<and>
     (\<exists>e m. cl_out t = cl_out s @ [Error e m])"

lemma takesI:
  assumes "next_act s i a rest" "\<And>j. a \<noteq> Create j" "cl_acts t = (cl_acts s)[i := rest]" "cl_out t = cl_out s @ printed s i a"
    and "pcs (cl_sys t) = (case a of Call p \<Rightarrow> (pcs (cl_sys s))[i := AtLock p] | _ \<Rightarrow> pcs (cl_sys s))"
  shows "takes f prog s t"
proof -
  have "act_weight f prog a = f a" using assms(2) by (cases a) (auto simp: act_weight_def)
  with assms total_proceed [of i "cl_acts s" a rest f prog] show ?thesis by (auto simp: takes_def next_act_def)
qed

lemma takes_create:
  assumes "next_act s i (Create j) rest" "t = s\<lparr>cl_acts := (cl_acts s)[i := rest, j := prog j]\<rparr>"
    and "client_inv es n s" "list_all (worker_ok es) (prog j)"
  shows "takes f prog s t"
proof -
  have inv: "script_inv es n s" "shape_inv es n s" "joined_inv n s" using assms(3) by (simp_all add: client_inv_def)
  have i: "i = 0" using only_main [OF assms(1) inv(1,2)] by (simp add: worker_ok_def)
  with main_acts [of s "Create j" rest es n] assms(1) inv(1) have j: "1 \<le> j" "j < n" by auto
  then have "cl_acts s ! j = []" using inv(3) assms(1) i by (auto simp: joined_inv_def finished_def next_act_def)
  moreover have "0 < n" "length (cl_acts s) = n" using inv(2) by (simp_all add: shape_inv_def)
  ultimately have "total f prog (cl_acts s) = f (Create j) + total f prog (cl_acts t)"
    using total_proceed [of 0 "cl_acts s" "Create j" rest f prog] total_put [of j "(cl_acts s)[0 := rest]" f prog "prog j"]
      weight_worker [OF assms(4)] assms(1,2) i j by (simp add: next_act_def act_weight_def)
  with assms(1,2) show ?thesis unfolding takes_def
    by (intro exI [of _ i] exI [of _ "Create j"] exI [of _ rest]) (simp add: printed_def)
qed

lemma cstep_kinds:
  assumes "cstep prog shown s t" "client_inv es n s" "\<And>j. list_all (worker_ok es) (prog j)"
  shows "takes f prog s t \<or> only_queue s t \<or> gives_up s t"
  using assms(1)
proof (cases rule: cstep.cases)
  case (c_create i j rest)
  then show ?thesis using takes_create [of s i j rest t prog es n f] assms(2,3) by blast
next
  case (c_inside t')
  then show ?thesis by (simp add: only_queue_def)
next
  case (c_create_fails i j rest perrno)
  then show ?thesis by (simp add: gives_up_def next_act_def)
qed (auto intro!: takesI simp: printed_def)

section \<open>After the abort every step brings the end nearer\<close>

lemma sum_rank_put: "i < length xs \<Longrightarrow> pc_rank x < pc_rank (xs ! i) \<Longrightarrow> sum_list (map pc_rank (xs[i := x])) < sum_list (map pc_rank xs)"
  using sum_list_put [of i "map pc_rank xs" "pc_rank x"] by (simp add: map_update)

lemma awake_broadcast: "(\<And>c. \<not> somebody_sleeps c s) \<Longrightarrow> broadcast c (pcs s) = pcs s"
  by (auto simp: broadcast_def somebody_sleeps_def in_set_conv_nth intro!: map_idI)

lemma awake_asleep:
  assumes "all_awake s" "ring_inv s" "i < length (pcs s)"
  shows "pcs s ! i \<noteq> Asleep p"
proof
  assume a: "pcs s ! i = Asleep p"
  have "\<not> sleeps_on c (pcs s ! i)" for c using assms(1,3) by (auto simp: all_awake_def somebody_sleeps_def)
  from this [of CondPushVar] this [of CondPopVar] a have "\<not> elem_ok (q_elem_size (the_queue s)) (pcs s ! i)"
    by (cases p) (auto simp: sleeps_on_def elem_ok_def)
  with assms(2,3) show False by (auto simp: ring_inv_def)
qed

lemma awake_rank:
  assumes "inside s t" "all_awake s" "ring_inv s"
  shows "sum_list (map pc_rank (pcs t)) < sum_list (map pc_rank (pcs s))"
proof -
  have sleepers: "\<not> somebody_sleeps c s" for c using assms(2) by (simp add: all_awake_def)
  have "qstep s t" and moved: "\<exists>i < length (pcs s). (\<forall>r. pcs s ! i \<noteq> Outside r) \<and> pcs t ! i \<noteq> pcs s ! i"
    using assms(1) by (auto simp: inside_def)
  then show ?thesis using assms(2,3) sleepers
  proof (induction rule: qstep.induct)
    case (spurious_wakeup i s p)
    then show ?case using awake_asleep [of s i p] by simp
  next
    case (signal i s c j)
    then show ?case by (auto simp: somebody_sleeps_def)
  next
    case (call i s r p)
    then show ?case by (auto simp: nth_list_update split: if_splits)
  next
    case (call_null i s r)
    then show ?case by (auto simp: nth_list_update split: if_splits)
  qed (auto simp: pc_rank_def all_awake_def awake_broadcast intro!: sum_rank_put split: if_splits qop.splits)
qed

definition client_rank :: "(nat \<Rightarrow> client_action list) \<Rightarrow> client \<Rightarrow> nat" where
  "client_rank prog s = sum_list (map pc_rank (pcs (cl_sys s))) + total (\<lambda>_. 6) prog (cl_acts s) + (if cl_exit s = None then 1 else 0)"

lemma rank_step:
  assumes "cstep prog shown s t" "client_inv es n s" "\<And>j. list_all (worker_ok es) (prog j)" "all_awake (cl_sys s)"
  shows "client_rank prog t < client_rank prog s"
proof -
  have inv: "shape_inv es n s" "ring_inv (cl_sys s)" using assms(2) by (simp_all add: client_inv_def qsys_inv_def)
  have ex: "(if cl_exit t = None then 1 else 0) \<le> (1 :: nat)" "cl_exit s = None" 
    using assms(1) by (auto elim!: cstep.cases simp: next_act_def)
  consider "takes (\<lambda>_. 6) prog s t" | "only_queue s t" | "gives_up s t" using cstep_kinds [OF assms(1-3)] by blast
  then show ?thesis
  proof cases
    case 1
    then obtain i a rest where a: "next_act s i a rest" "total (\<lambda>_. 6) prog (cl_acts s) = 6 + total (\<lambda>_. 6) prog (cl_acts t)"
        "pcs (cl_sys t) = (case a of Call p \<Rightarrow> (pcs (cl_sys s))[i := AtLock p] | _ \<Rightarrow> pcs (cl_sys s))"
      by (auto simp: takes_def)
    have "sum_list (map pc_rank (pcs (cl_sys t))) \<le> sum_list (map pc_rank (pcs (cl_sys s))) + 5"
    proof (cases a)
      case (Call p)
      then show ?thesis using a(1,3) inv(1) sum_list_put [of i "map pc_rank (pcs (cl_sys s))" 5]
        by (auto simp: next_act_def shape_inv_def map_update pc_rank_def)
    qed (use a(3) in simp_all)
    with a(2) ex show ?thesis by (auto simp: client_rank_def)
  next
    case 2
    then show ?thesis using awake_rank [of "cl_sys s" "cl_sys t"] assms(4) inv(2) by (simp add: only_queue_def client_rank_def)
  next
    case 3
    then show ?thesis by (simp add: gives_up_def client_rank_def)
  qed
qed

lemma pc_rank_le: "pc_rank pc \<le> 6"
  by (cases pc) (simp_all add: pc_rank_def)

lemma sum_rank_le: "sum_list (map pc_rank xs) \<le> 6 * length xs"
proof (induction xs)
  case (Cons x xs)
  then show ?case using pc_rank_le [of x] by simp
qed simp

lemma total_decreases:
  assumes "cstep prog shown s t" "client_inv es n s" "\<And>j. list_all (worker_ok es) (prog j)"
  shows "total f prog (cl_acts t) \<le> total f prog (cl_acts s)"
  using cstep_kinds [OF assms, of f] by (auto simp: takes_def only_queue_def gives_up_def)

section \<open>A client whose queue is aborted can always go on\<close>

lemma act_enabled: "next_act s i a rest \<Longrightarrow> (\<And>j. a = Join j \<Longrightarrow> finished s j) \<Longrightarrow> \<exists>t. cstep prog shown s t"
  by (cases a) (blast intro: cstep.intros)+

lemma awake_progress:
  assumes "client_inv es n s" "all_awake (cl_sys s)" "cl_exit s = None"
  shows "\<exists>t. cstep prog shown s t"
proof -
  have inv: "shape_inv es n s" "qsys_inv (cl_sys s)" "script_inv es n s" "joined_inv n s" using assms(1) by (simp_all add: client_inv_def)
  have qi: "mutex_inv (cl_sys s)" "ring_inv (cl_sys s)" using inv(2) by (simp_all add: qsys_inv_def)
  show ?thesis
  proof (cases "\<exists>i < n. \<not> outside s i")
    case True
    then obtain i where i: "i < n" "\<not> outside s i" by blast
    have len: "length (pcs (cl_sys s)) = n" using inv(1) by (simp add: shape_inv_def)
    have "\<exists>k < n. can_move (cl_sys s) k \<and> \<not> outside s k"
    proof (cases "owner (cl_sys s)")
      case None
      with i len qi(1) have "\<not> in_critical (pcs (cl_sys s) ! i)" by (auto simp: mutex_inv_def)
      moreover have "active (pcs (cl_sys s) ! i)"
        using i len awake_asleep [OF assms(2) qi(2), of i] by (auto simp: active_def outside_def split: qpc.splits)
      ultimately show ?thesis using waiting_thread_moves [of i "cl_sys s"] None i len qi(2) by auto
    next
      case (Some k)
      then have k: "k < n" "in_critical (pcs (cl_sys s) ! k)" using qi(1) len by (auto simp: mutex_inv_def)
      then have "\<not> outside s k" by (auto simp: outside_def split: qpc.splits)
      then show ?thesis using critical_moves [of k "cl_sys s"] k len qi(2) by auto
    qed
    then obtain t where "inside (cl_sys s) t" using len by (fastforce simp: can_move_def inside_def outside_def)
    from c_inside [OF assms(3) this] show ?thesis by blast
  next
    case False
    then have out: "outside s i" if "i < n" for i using that by blast
    show ?thesis
    proof (cases "\<exists>i. 1 \<le> i \<and> i < n \<and> cl_acts s ! i \<noteq> []")
      case True
      then obtain i a rest where i: "1 \<le> i" "i < n" "cl_acts s ! i = a # rest" by (auto simp: neq_Nil_conv)
      then have na: "next_act s i a rest" using out assms(3) inv(1) by (simp add: next_act_def shape_inv_def)
      show ?thesis using worker_acts(1) [OF na inv(3,1)] i(1) by (intro act_enabled [OF na]) (auto simp: worker_ok_def)
    next
      case False
      then have fin: "finished s j" if "1 \<le> j" "j < n" for j using that out by (auto simp: finished_def)
      obtain a rest where a: "cl_acts s ! 0 = a # rest" using inv(3) assms(3) by (auto simp: script_inv_def neq_Nil_conv)
      then have na: "next_act s 0 a rest" using out assms(3) inv(1) by (simp add: next_act_def shape_inv_def)
      then show ?thesis using main_acts [OF na inv(3)] fin by (intro act_enabled [OF na]) auto
    qed
  qed
qed

section \<open>The properties of tester\_mult\_thread\<close>

lemma mult_total: "reaches mult_step mult_init s \<Longrightarrow> total f mult_prog (cl_acts s) \<le> total f mult_prog (cl_acts mult_init)"
proof (induction rule: reaches.induct)
  case (reaches_step s t)
  then show ?case using total_decreases [OF reaches_step(2) mult.inv_reachable [OF refl reaches_step(1)] mult_prog_ok, of f] by simp
qed simp

lemma mult_work: "total (\<lambda>_. 6) mult_prog (cl_acts mult_init) = 450"
  by (simp add: mult_init_def mult_main_def total_def act_weight_def prods_def conss_def THREADS_def upt_rec mult_prog_def
      run_prod_def run_cons_def numeral_eq_Suc)

lemma mult_rank_le:
  assumes "reaches mult_step mult_init s"
  shows "client_rank mult_prog s \<le> 493"
proof -
  have "length (pcs (cl_sys s)) = 7" using mult.inv_reachable [OF refl assms] by (simp add: client_inv_def shape_inv_def)
  with mult_total [OF assms, of "\<lambda>_. 6"] sum_rank_le [of "pcs (cl_sys s)"] show ?thesis by (simp add: client_rank_def mult_work)
qed

lemma awake_client_step:
  assumes "mult_step s t" "client_inv 4 7 s" "all_awake (cl_sys s)"
  shows "all_awake (cl_sys t)"
  using client_refines [OF assms(1), of 4 7] assms(2,3) awake_step [of "cl_sys s" "cl_sys t"] by (auto simp: client_inv_def)

lemma mult_runs:
  "(mult_step ^^ k) s t \<Longrightarrow> client_inv 4 7 s \<Longrightarrow> all_awake (cl_sys s) \<Longrightarrow>
   client_inv 4 7 t \<and> all_awake (cl_sys t) \<and> k + client_rank mult_prog t \<le> client_rank mult_prog s"
proof (induction k arbitrary: t)
  case (Suc k)
  then obtain r where r: "(mult_step ^^ k) s r" "mult_step r t" by auto
  with Suc have IH: "client_inv 4 7 r" "all_awake (cl_sys r)" "k + client_rank mult_prog r \<le> client_rank mult_prog s" by auto
  from rank_step [OF r(2) IH(1) mult_prog_ok IH(2)] IH mult.inv_step [OF IH(1) r(2)] awake_client_step [OF r(2) IH(1,2)]
  show ?case by simp
qed simp

text \<open>
  C9: \<^verbatim>\<open>tester_mult_thread\<close> ends once \<^verbatim>\<open>main\<close> has called \<^verbatim>\<open>queue_abort\<close>: from then on, whatever the order in which the
  four producers, two consumers and \<^verbatim>\<open>main\<close> are scheduled, the program takes at most 493 more
  steps, and it stops only by returning from \<^verbatim>\<open>main\<close> (or because a thread could not be created).
\<close>

theorem mult_thread_ends:
  assumes "reaches mult_step mult_init s" "q_aborted (q_sync (the_queue (cl_sys s)))" "owner (cl_sys s) = None"
    and "(mult_step ^^ k) s t"
  shows "k \<le> 493 \<and> (cl_exit t = None \<longrightarrow> (\<exists>u. mult_step t u))"
proof -
  have inv: "client_inv 4 7 s" by (rule mult.inv_reachable [OF refl assms(1)])
  then have "all_awake (cl_sys s)" using assms(2,3) by (auto simp: client_inv_def qsys_inv_def all_awake_def abort_inv_def)
  from mult_runs [OF assms(4) inv this] mult_rank_le [OF assms(1)] awake_progress [of 4 7 t] show ?thesis by fastforce
qed

text \<open>A run in which \<^verbatim>\<open>main\<close> creates its threads and calls \<^verbatim>\<open>queue_abort\<close> before any of them has moved.\<close>

lemma creates_run:
  "cl_acts s ! 0 = map Create js @ rest \<Longrightarrow> 0 < length (cl_acts s) \<Longrightarrow> 0 \<notin> set js \<Longrightarrow> cl_exit s = None \<Longrightarrow> outside s 0 \<Longrightarrow>
   \<exists>t. reaches (cstep prog shown) s t \<and> cl_acts t ! 0 = rest \<and> length (cl_acts t) = length (cl_acts s) \<and>
     cl_sys t = cl_sys s \<and> cl_exit t = None"
proof (induction js arbitrary: s)
  case Nil
  then show ?case by (auto intro: reaches_refl)
next
  case (Cons j js)
  let ?s = "s\<lparr>cl_acts := (cl_acts s)[0 := map Create js @ rest, j := prog j]\<rparr>"
  have st: "cstep prog shown s ?s" using Cons.prems by (intro c_create) (auto simp: next_act_def)
  obtain t where "reaches (cstep prog shown) ?s t" "cl_acts t ! 0 = rest" "length (cl_acts t) = length (cl_acts s)"
      "cl_sys t = cl_sys s" "cl_exit t = None"
    using Cons.IH [of ?s] Cons.prems by auto
  with reaches_front [of "cstep prog shown", OF st] show ?case by blast
qed

lemma queue_run:
  "reaches inside q q' \<Longrightarrow> cl_sys s = q \<Longrightarrow> cl_exit s = None \<Longrightarrow>
   \<exists>t. reaches (cstep prog shown) s t \<and> cl_sys t = q' \<and> cl_exit t = None \<and> cl_acts t = cl_acts s"
proof (induction rule: reaches.induct)
  case reaches_refl
  then show ?case by (auto intro: reaches.reaches_refl)
next
  case (reaches_step r t)
  then obtain s' where "reaches (cstep prog shown) s s'" "cl_sys s' = r" "cl_exit s' = None" "cl_acts s' = cl_acts s" by blast
  with c_inside [of s' t prog shown] reaches_step.hyps(2) have
    "reaches (cstep prog shown) s (s'\<lparr>cl_sys := t, cl_buf := new_buffers (cl_sys s') t (cl_buf s')\<rparr>)"
    using reaches.reaches_step [of "cstep prog shown" s s'] by blast
  with \<open>cl_exit s' = None\<close> \<open>cl_acts s' = cl_acts s\<close> show ?case
    by (intro exI [of _ "s'\<lparr>cl_sys := t, cl_buf := new_buffers (cl_sys s') t (cl_buf s')\<rparr>"]) simp
qed

lemma abort_run:
  assumes "owner s = None" "i < length (pcs s)" "pcs s ! i = AtLock Abort" "\<And>c. \<not> somebody_sleeps c s"
  shows "reaches inside s \<lparr>the_queue = fst (queue_abort (the_queue s)), owner = None, pcs = (pcs s)[i := Outside (Some QUEUE_SUCCESS)]\<rparr>"
proof -
  have s: "s\<lparr>owner := w, pcs := x\<rparr> = \<lparr>the_queue = the_queue s, owner = w, pcs = x\<rparr>" for w x by simp
  have frame: "broadcast c ((pcs s)[i := x]) = (pcs s)[i := x]" if "\<And>d. \<not> sleeps_on d x" for c x
  proof (intro nth_equalityI)
    fix k assume k: "k < length (broadcast c ((pcs s)[i := x]))"
    then have "\<not> sleeps_on c ((pcs s)[i := x] ! k)" using that assms(4) [of c] by (cases "k = i") (auto simp: somebody_sleeps_def)
    with k show "broadcast c ((pcs s)[i := x]) ! k = (pcs s)[i := x] ! k" by simp
  qed simp
  let ?at = "\<lambda>q w x. \<lparr>the_queue = q, owner = w, pcs = (pcs s)[i := x]\<rparr>" and ?q = "fst (queue_abort (the_queue s))"
  have 1: "inside s (?at (the_queue s) (Some i) AtSetAborted)"
    using qstep.lock [OF assms(2,3,1)] assms(2,3) by (auto simp: inside_def s)
  have 2: "inside (?at (the_queue s) (Some i) AtSetAborted) (?at ?q (Some i) AtBroadcastPop)"
    using qstep.set_aborted [of i "?at (the_queue s) (Some i) AtSetAborted"] assms(2) by (auto simp: inside_def)
  have 3: "inside (?at ?q (Some i) AtBroadcastPop) (?at ?q (Some i) AtBroadcastPush)"
    using qstep.broadcast_pop [of i "?at ?q (Some i) AtBroadcastPop"] assms(2) by (auto simp: inside_def frame)
  have 4: "inside (?at ?q (Some i) AtBroadcastPush) (?at ?q (Some i) (AtUnlock QUEUE_SUCCESS))"
    using qstep.broadcast_push [of i "?at ?q (Some i) AtBroadcastPush"] assms(2) by (auto simp: inside_def frame)
  have 5: "inside (?at ?q (Some i) (AtUnlock QUEUE_SUCCESS)) (?at ?q None (Outside (Some QUEUE_SUCCESS)))"
    using qstep.unlock [of i "?at ?q (Some i) (AtUnlock QUEUE_SUCCESS)" QUEUE_SUCCESS] assms(2) by (auto simp: inside_def leave_def)
  have "reaches inside s (?at ?q None (Outside (Some QUEUE_SUCCESS)))"
    by (rule reaches_front [of inside, OF 1], rule reaches_front [of inside, OF 2], rule reaches_front [of inside, OF 3],
        rule reaches_front [of inside, OF 4], rule reaches_front [of inside, OF 5], rule reaches_refl)
  then show ?thesis .
qed

lemma mult_abort_reached:
  "\<exists>s. reaches mult_step mult_init s \<and> q_aborted (q_sync (the_queue (cl_sys s))) \<and> owner (cl_sys s) = None \<and>
    cl_exit s = None \<and> (\<forall>j. Create j \<notin> set (cl_acts s ! 0))"
proof -
  let ?rest = "map Join conss @ [Say ''Consumers joined!''] @ map Join prods @ [Say ''Producers joined!'', Call Abort, Destroy, Return]"
  have init: "outside mult_init 0" "cl_acts mult_init ! 0 = map Create (prods @ conss) @ [Sleep, Call Abort] @ ?rest"
      "0 < length (cl_acts mult_init)" "0 \<notin> set (prods @ conss)" "cl_exit mult_init = None"
    by (simp_all add: mult_init_def outside_def qinit_def mult_main_def prods_def conss_def THREADS_def)
  obtain a where a: "reaches mult_step mult_init a" "cl_acts a ! 0 = [Sleep, Call Abort] @ ?rest" "0 < length (cl_acts a)"
      "cl_sys a = cl_sys mult_init" "cl_exit a = None"
    using creates_run [OF init(2-5,1), of mult_prog mult_shown] init(3) by (metis (no_types))
  let ?b = "proceed 0 (Call Abort # ?rest) a"
  have b: "mult_step a ?b" using a init(1) by (intro c_sleep) (simp add: next_act_def outside_def)
  let ?c = "proceed 0 ?rest (?b\<lparr>cl_sys := (cl_sys ?b)\<lparr>pcs := (pcs (cl_sys ?b))[0 := AtLock Abort]\<rparr>\<rparr>)"
  have c: "mult_step ?b ?c" using a init(1) by (intro c_call) (simp add: next_act_def outside_def)
  have "reaches inside (cl_sys ?c) \<lparr>the_queue = fst (queue_abort (the_queue (cl_sys ?c))), owner = None, pcs = (pcs (cl_sys ?c))[0 := Outside (Some QUEUE_SUCCESS)]\<rparr>"
    by (rule abort_run) (auto simp: a(4) mult_init_def qinit_def THREADS_def somebody_sleeps_def nth_list_update)
  from queue_run [OF this refl, of mult_prog mult_shown] obtain d where
    d: "reaches mult_step ?c d" "q_aborted (q_sync (the_queue (cl_sys d)))" "owner (cl_sys d) = None" "cl_exit d = None"
      "cl_acts d = (cl_acts a)[0 := Call Abort # ?rest, 0 := ?rest]"
    using a(5) by (auto simp: a(4) mult_init_def qinit_def)
  have "reaches mult_step mult_init d"
    by (rule reaches_compose [of mult_step ?c d mult_init, OF d(1)], rule reaches_step [of mult_step mult_init ?b ?c],
        rule reaches_step [of mult_step mult_init a ?b]) (fact a(1), fact b, fact c)
  moreover have "Create j \<notin> set (cl_acts d ! 0)" for j using d(5) a(3) by auto
  ultimately show ?thesis using d by blast
qed

theorem mult_thread_ends_witness:
  "\<exists>s. reaches mult_step mult_init s \<and> q_aborted (q_sync (the_queue (cl_sys s))) \<and> (\<exists>u. mult_step s u)"
proof -
  obtain s where s: "reaches mult_step mult_init s" "q_aborted (q_sync (the_queue (cl_sys s)))" "owner (cl_sys s) = None" "cl_exit s = None"
    using mult_abort_reached by blast
  from mult_thread_ends [OF s(1-3), of 0 s] s show ?thesis by auto
qed

text \<open>The queue lives until \<^verbatim>\<open>main\<close> destroys it; \<^verbatim>\<open>main\<close> returns as its last action; every line to be printed is printed.\<close>

definition end_inv :: "client \<Rightarrow> bool" where
  "end_inv s \<longleftrightarrow> (cl_exit s = Some EXIT_SUCCESS \<longrightarrow> cl_acts s ! 0 = []) \<and> (cl_alive s \<longrightarrow> Destroy \<in> set (cl_acts s ! 0))"

definition line_weight :: "client_action \<Rightarrow> nat" where
  "line_weight a = (case a of PrintGot \<Rightarrow> 1 | Say _ \<Rightarrow> 1 | _ \<Rightarrow> 0)"

definition lines_inv :: "client \<Rightarrow> bool" where
  "lines_inv s \<longleftrightarrow> (cl_exit s \<noteq> Some EXIT_FAILURE \<longrightarrow> length (cl_out s) + total line_weight mult_prog (cl_acts s) = 20)"

lemma end_proceed:
  assumes "next_act s i a rest" "a \<noteq> Destroy" "a \<noteq> Return" "shape_inv es n s" "end_inv s"
    and "cl_acts t = (cl_acts s)[i := rest]" "cl_exit t = cl_exit s" "cl_alive t = cl_alive s"
  shows "end_inv t"
  using assms by (cases "i = 0") (auto simp: end_inv_def next_act_def shape_inv_def)

lemma end_step:
  assumes "cstep prog shown s t" "script_inv es n s" "shape_inv es n s" "end_inv s"
  shows "end_inv t"
  using assms(1)
proof (cases rule: cstep.cases)
  case (c_create i k rest)
  then have "i = 0" using only_main [OF c_create(2) assms(2,3)] by (simp add: worker_ok_def)
  moreover from this have "1 \<le> k" using main_acts [of s "Create k" rest es n] c_create assms(2) by simp
  ultimately show ?thesis using c_create assms(3,4) by (auto simp: end_inv_def next_act_def shape_inv_def)
next
  case (c_return i rest)
  then have "i = 0" using only_main [OF c_return(2) assms(2,3)] by (simp add: worker_ok_def)
  with c_return main_acts [of s Return rest es n] assms(2-4) show ?thesis
    by (auto simp: end_inv_def next_act_def shape_inv_def split: if_splits)
next
  case (c_destroy i rest)
  then have "i = 0" using only_main [OF c_destroy(2) assms(2,3)] by (simp add: worker_ok_def)
  with c_destroy assms(3,4) show ?thesis by (auto simp: end_inv_def next_act_def shape_inv_def)
next
  case (c_inside t')
  then show ?thesis using assms(4) by (simp add: end_inv_def)
next
  case (c_create_fails i j rest perrno)
  then show ?thesis using assms(4) by (simp add: end_inv_def)
qed (auto intro: end_proceed [OF _ _ _ assms(3,4)])

lemma lines_step:
  assumes "mult_step s t" "client_inv 4 7 s" "lines_inv s"
  shows "lines_inv t"
proof -
  have ex: "cl_exit s = None" using assms(1) by (auto elim!: cstep.cases simp: next_act_def)
  have "length (printed s i a) = line_weight a" for i a by (cases a) (auto simp: printed_def line_weight_def)
  then show ?thesis using cstep_kinds [OF assms(1,2) mult_prog_ok, of line_weight] assms(3) ex
    by (auto simp: lines_inv_def takes_def only_queue_def gives_up_def)
qed

definition mult_inv :: "client \<Rightarrow> bool" where
  "mult_inv s \<longleftrightarrow> client_inv 4 7 s \<and> end_inv s \<and> lines_inv s"

lemma mult_inv_init: "mult_inv mult_init"
proof -
  have "total line_weight mult_prog (cl_acts mult_init) = 20"
    by (simp add: mult_init_def mult_main_def total_def act_weight_def line_weight_def prods_def conss_def THREADS_def upt_rec
        mult_prog_def run_prod_def run_cons_def numeral_eq_Suc)
  then show ?thesis
    by (simp add: mult_inv_def mult_init_inv end_inv_def lines_inv_def) (simp add: mult_init_def mult_main_def)
qed

interpretation mult_end: invariant_system "\<lambda>s. s = mult_init" mult_step mult_inv
proof (unfold_locales, goal_cases)
  case (2 s t)
  then have inv: "client_inv 4 7 s" "script_inv 4 7 s" "shape_inv 4 7 s" by (auto simp: mult_inv_def client_inv_def)
  with 2 show ?case using mult.inv_step [OF inv(1)] end_step [OF 2(2) inv(2,3)] lines_step [OF 2(2) inv(1)] by (auto simp: mult_inv_def)
qed (simp add: mult_inv_init)


lemma no_create_step:
  assumes "cstep prog shown s t" "script_inv es n s" "shape_inv es n s" "\<And>j. Create j \<notin> set (cl_acts s ! 0)" "cl_exit s \<noteq> Some EXIT_FAILURE"
  shows "(\<forall>j. Create j \<notin> set (cl_acts t ! 0)) \<and> cl_exit t \<noteq> Some EXIT_FAILURE"
proof -
  have none: "\<not> next_act s i (Create j) rest" for i j rest
    using only_main [of s i "Create j" rest es n] assms(2,3) assms(4) [of j] by (auto simp: worker_ok_def next_act_def)
  from assms(1) show ?thesis
    by (cases rule: cstep.cases) (use none assms(3-5) in \<open>auto simp: next_act_def shape_inv_def nth_list_update split: if_splits\<close>)
qed

lemma mult_can_finish:
  assumes "client_inv 4 7 s" "all_awake (cl_sys s)" "\<And>j. Create j \<notin> set (cl_acts s ! 0)" "cl_exit s \<noteq> Some EXIT_FAILURE"
  shows "\<exists>t. reaches mult_step s t \<and> cl_exit t \<noteq> None \<and> cl_exit t \<noteq> Some EXIT_FAILURE"
  using assms
proof (induction "client_rank mult_prog s" arbitrary: s rule: less_induct)
  case less
  show ?case
  proof (cases "cl_exit s = None")
    case True
    then obtain t where t: "mult_step s t" using awake_progress [OF less.prems(1,2)] by blast
    have parts: "script_inv 4 7 s" "shape_inv 4 7 s" using less.prems(1) by (simp_all add: client_inv_def)
    have "\<exists>u. reaches mult_step t u \<and> cl_exit u \<noteq> None \<and> cl_exit u \<noteq> Some EXIT_FAILURE"
      using less.hyps [OF rank_step [OF t less.prems(1) mult_prog_ok less.prems(2)] mult.inv_step [OF less.prems(1) t]
          awake_client_step [OF t less.prems(1,2)]] no_create_step [OF t parts less.prems(3,4)] by blast
    with t show ?thesis using reaches_front [of mult_step s t] by blast
  qed (use less.prems in \<open>auto intro: reaches_refl\<close>)
qed

lemma exit_values: "reaches mult_step mult_init s \<Longrightarrow> cl_exit s \<in> {None, Some EXIT_SUCCESS, Some EXIT_FAILURE}"
proof (induction rule: reaches.induct)
  case reaches_refl
  show ?case by (simp add: mult_init_def)
next
  case (reaches_step s t)
  from reaches_step(2,3) show ?case by (cases rule: cstep.cases) auto
qed


end
