(* ===== verification/Memgrind_Tests.thy ===== *)
theory Memgrind_Tests
  imports Memgrind
begin

text \<open>
  The test programs of \<^verbatim>\<open>hw03\<close>, \<^verbatim>\<open>test_realloc.c\<close> and \<^verbatim>\<open>test_easy.c\<close>, run with \<^verbatim>\<open>libmemgrind\<close> in front of the
  allocator.  The allocator underneath may depend on the state of the heap; the first output of a
  program makes the C library allocate the buffer of \<^verbatim>\<open>stdout\<close>, with the interposed \<^verbatim>\<open>malloc\<close>
  (\<open>bufsize\<close> is \<open>None\<close> if \<^verbatim>\<open>stdout\<close> has no buffer).
\<close>

section \<open>Sequences of calls\<close>

type_synonym allocator = "memgrind \<Rightarrow> real_functions"

text \<open>The state of the library and whether the buffer was already requested.\<close>

type_synonym test_process = "memgrind \<times> bool"

definition then_call :: "event list \<times> 'a outcome \<Rightarrow> ('a \<Rightarrow> event list \<times> 'b outcome) \<Rightarrow> event list \<times> 'b outcome" where
  "then_call c f = (case c of
      (es, Done a) \<Rightarrow> (es @ fst (f a), snd (f a))
    | (es, Exit n) \<Rightarrow> (es, Exit n)
    | (es, Fault x) \<Rightarrow> (es, Fault x))"

definition print_str :: "allocator \<Rightarrow> size_t option \<Rightarrow> string \<Rightarrow> test_process \<Rightarrow> event list \<times> test_process outcome" where
  "print_str alloc bufsize t s =
     (case (s, bufsize) of
        ((m, False), Some n) \<Rightarrow> then_call (mg_malloc (alloc m) n m) (\<lambda>(m', _). ([Stdout t], Done (m', True)))
      | _ \<Rightarrow> ([Stdout t], Done s))"

definition call_calloc :: "allocator \<Rightarrow> size_t \<Rightarrow> size_t \<Rightarrow> test_process \<Rightarrow> event list \<times> (test_process \<times> size_t option) outcome" where
  "call_calloc alloc k n s = then_call (mg_calloc (alloc (fst s)) k n (fst s)) (\<lambda>(m, r). ([], Done ((m, snd s), r)))"

definition call_realloc :: "allocator \<Rightarrow> size_t option \<Rightarrow> size_t \<Rightarrow> test_process \<Rightarrow> event list \<times> (test_process \<times> size_t option) outcome" where
  "call_realloc alloc p n s = then_call (mg_realloc (alloc (fst s)) p n (fst s)) (\<lambda>(m, r). ([], Done ((m, snd s), r)))"

definition call_free :: "size_t option \<Rightarrow> test_process \<Rightarrow> event list \<times> test_process outcome" where
  "call_free p s = then_call (mg_free p (fst s)) (\<lambda>(m, _). ([], Done (m, snd s)))"

section \<open>test\_realloc.c\<close>

definition test_realloc_main :: "allocator \<Rightarrow> size_t option \<Rightarrow> test_process \<Rightarrow> event list \<times> (test_process \<times> int) outcome" where
  "test_realloc_main alloc buf s0 =
     then_call (call_realloc alloc None (4 * 4) s0) (\<lambda>(s1, my_ptr).
     if my_ptr = None then
       then_call (print_str alloc buf (''null realloc failed'' @ [nl]) s1) (\<lambda>s. ([], Done (s, EXIT_FAILURE)))
     else
     then_call (print_str alloc buf (''after first alloc: '' @ show_p my_ptr @ [nl]) s1) (\<lambda>s2.
     then_call (call_realloc alloc my_ptr (4096 * 4) s2) (\<lambda>(s3, tmp).
     then_call (print_str alloc buf (show_p tmp @ [nl]) s3) (\<lambda>s4.
     if tmp = None then
       then_call (print_str alloc buf (''realloc huge failed: '' @ show_p my_ptr @ [nl]) s4) (\<lambda>s5.
       then_call (call_free my_ptr s5) (\<lambda>s. ([], Done (s, EXIT_FAILURE))))
     else
     then_call (call_realloc alloc tmp 1 s4) (\<lambda>(s5, tmp1).
     then_call (print_str alloc buf (''After shrink: '' @ show_p tmp @ [nl]) s5) (\<lambda>s6.
     if tmp1 = None then
       then_call (print_str alloc buf (''realloc shrink failed: '' @ show_p tmp @ [nl]) s6) (\<lambda>s7.
       then_call (call_free tmp s7) (\<lambda>s. ([], Done (s, EXIT_FAILURE))))
     else
     then_call (print_str alloc buf (''Before last: '' @ show_p tmp1 @ [nl]) s6) (\<lambda>s7.
     then_call (call_free tmp1 s7) (\<lambda>s. ([], Done (s, EXIT_SUCCESS))))))))))"

section \<open>test\_easy.c\<close>

text \<open>The program goes on after a failed \<^verbatim>\<open>realloc\<close>: the pointer is then \<^verbatim>\<open>NULL\<close>.\<close>

definition test_easy_main :: "allocator \<Rightarrow> size_t option \<Rightarrow> test_process \<Rightarrow> event list \<times> (test_process \<times> int) outcome" where
  "test_easy_main alloc buf s0 =
     then_call (print_str alloc buf (''started easy'' @ [nl]) s0) (\<lambda>s1.
     then_call (call_calloc alloc 4 4 s1) (\<lambda>(s2, vals).
     if vals = None then
       then_call (print_str alloc buf (''calloc failed'' @ [nl]) s2) (\<lambda>s. ([], Done (s, EXIT_FAILURE)))
     else
     then_call (print_str alloc buf (''5'' @ [nl]) s2) (\<lambda>s3.
     then_call (call_realloc alloc vals (8 * 4) s3) (\<lambda>(s4, tmp).
     then_call (if tmp = None then then_call (print_str alloc buf (''realloc failed'' @ [nl]) s4) (call_free vals)
               else ([], Done s4)) (\<lambda>s5.
     if tmp = None then ([], Fault NullDeref)
     else
     then_call (print_str alloc buf (''10'' @ [nl]) s5) (\<lambda>s6.
     then_call (call_realloc alloc tmp (2048 * 4) s6) (\<lambda>(s7, tmp1).
     then_call (if tmp1 = None then then_call (print_str alloc buf (''realloc failed'' @ [nl]) s7) (call_free tmp)
               else ([], Done s7)) (\<lambda>s8.
     then_call (call_free tmp1 s8) (\<lambda>s9.
     then_call (print_str alloc buf (''free vals'' @ [nl]) s9) (\<lambda>s. ([], Done (s, EXIT_SUCCESS))))))))))))"

section \<open>What a call does to the heap\<close>

definition heap_inv :: "memgrind \<Rightarrow> bool" where
  "heap_inv m \<longleftrightarrow> \<not> libc_guard m \<and> (\<forall>a info. heap m a = Some info \<longrightarrow> check info = CANNARY_WORD)"

lemma lib_user [simp]: "user_to_lib (lib_to_user a) = a"
  by (simp add: user_to_lib_def lib_to_user_def)

lemma can_alloc_heap:
  "heap (fst (snd (can_alloc n m))) = heap m" "libc_guard (fst (snd (can_alloc n m))) = libc_guard m"
  by (simp_all add: can_alloc_def Let_def)

lemma new_block_heap:
  assumes "heap_inv m"
  shows "\<exists>es m' r. mg_malloc real n m = (es, Done (m', r)) \<and> heap_inv m' \<and>
      dom (heap m') = dom (heap m) \<union> user_to_lib ` set_option r \<and>
      (\<forall>u. r = Some u \<longrightarrow> (\<exists>k. real_malloc real k = Some (user_to_lib u)))"
    and "\<exists>es m' r. mg_calloc real k n m = (es, Done (m', r)) \<and> heap_inv m' \<and>
      dom (heap m') = dom (heap m) \<union> user_to_lib ` set_option r \<and>
      (\<forall>u. r = Some u \<longrightarrow> (\<exists>i j. real_calloc real i j = Some (user_to_lib u)))"
  using assms can_alloc_heap [of n "m\<lparr>libc_guard := True\<rparr>"]
  by (auto simp: mg_malloc_def mg_calloc_def enter_guard_def return_from_guarded_def count_alloc_def alloc_failed_def heap_inv_def
      initialise_service_block_def Let_def split: prod.splits option.splits if_splits)

lemma realloc_heap:
  assumes "heap_inv m" "user_to_lib u \<in> dom (heap m)"
  shows "\<exists>es m' r. mg_realloc real (Some u) n m = (es, Done (m', r)) \<and> heap_inv m' \<and>
    (r = None \<longrightarrow> dom (heap m') = dom (heap m)) \<and>
    (\<forall>v. r = Some v \<longrightarrow> dom (heap m') = insert (user_to_lib v) (dom (heap m) - {user_to_lib u}) \<and>
       (\<exists>k. real_realloc real (user_to_lib u) k = Some (user_to_lib v)))"
proof -
  obtain info where info: "heap m (user_to_lib u) = Some info" "check info = CANNARY_WORD"
    using assms by (auto simp: heap_inv_def)
  obtain e2 m2 g where c: "can_alloc n (m\<lparr>libc_guard := True\<rparr>) = (e2, m2, g)" by (metis prod_cases3)
  have m2: "heap m2 = heap m" "libc_guard m2" using can_alloc_heap [of n "m\<lparr>libc_guard := True\<rparr>"] c by auto
  have guard: "\<not> libc_guard m" using assms(1) by (simp add: heap_inv_def)
  show ?thesis
  proof (cases g)
    case False
    then show ?thesis using guard c m2 assms(1)
      by (simp add: mg_realloc_def enter_guard_def return_from_guarded_def heap_inv_def Let_def)
  next
    case True
    then show ?thesis using guard c m2 assms(1) info
      by (cases "real_realloc real (user_to_lib u) (n + SERVICE_LENGTH)")
        (auto simp: mg_realloc_def enter_guard_def return_from_guarded_def heap_inv_def check_service_validity_def
          alloc_failed_def Let_def)
  qed
qed

lemma free_heap:
  assumes "heap_inv m" "user_to_lib ` set_option p \<subseteq> dom (heap m)"
  shows "\<exists>es m'. mg_free p m = (es, Done (m', ())) \<and> heap_inv m' \<and> dom (heap m') = dom (heap m) - user_to_lib ` set_option p"
  using assms
  by (cases p) (auto simp: mg_free_def enter_guard_def return_from_guarded_def heap_inv_def check_service_validity_def Let_def)

section \<open>The heap of a test program\<close>

text \<open>The live blocks are the block of the program, if it has one, and the buffer of \<^verbatim>\<open>stdout\<close>, if it was allocated.\<close>

definition owns :: "size_t option \<Rightarrow> size_t option \<Rightarrow> test_process \<Rightarrow> bool" where
  "owns buf p s \<longleftrightarrow> heap_inv (fst s) \<and>
     (\<exists>b. dom (heap (fst s)) = set_option b \<union> user_to_lib ` set_option p \<and> set_option b \<inter> user_to_lib ` set_option p = {} \<and>
        (buf = None \<or> \<not> snd s \<longrightarrow> b = None))"

definition fresh_alloc :: "allocator \<Rightarrow> bool" where
  "fresh_alloc alloc \<longleftrightarrow> (\<forall>m. real_ok (alloc m) m)"

lemma fresh_realloc: "fresh_alloc alloc \<Longrightarrow> real_realloc (alloc m) p n = Some a \<Longrightarrow> a = p \<or> heap m a = None"
  unfolding fresh_alloc_def real_ok_def by metis

lemma print_owns:
  assumes "fresh_alloc alloc" "owns buf p s"
  shows "\<exists>es s'. print_str alloc buf t s = (es @ [Stdout t], Done s') \<and> owns buf p s'"
proof (cases "\<exists>m n. s = (m, False) \<and> buf = Some n")
  case True
  then obtain m n where s: "s = (m, False)" "buf = Some n" by blast
  have m: "heap_inv m" "dom (heap m) = user_to_lib ` set_option p" using assms(2) s by (auto simp: owns_def)
  obtain es m' r where r: "mg_malloc (alloc m) n m = (es, Done (m', r))" "heap_inv m'"
      "dom (heap m') = dom (heap m) \<union> user_to_lib ` set_option r" "\<forall>u. r = Some u \<longrightarrow> (\<exists>k. real_malloc (alloc m) k = Some (user_to_lib u))"
    using new_block_heap(1) [OF m(1), of "alloc m" n] by (elim exE conjE) (rule that)
  have "user_to_lib u \<notin> dom (heap m)" if "r = Some u" for u
    using r(4) that assms(1) by (auto simp: fresh_alloc_def real_ok_def)
  with r m s have "owns buf p (m', True)" by (auto simp: owns_def intro!: exI [of _ "map_option user_to_lib r"])
  with r(1) s show ?thesis by (simp add: print_str_def then_call_def)
next
  case False
  then have "print_str alloc buf t s = ([Stdout t], Done s)"
    by (cases s) (auto simp: print_str_def split: bool.splits option.splits)
  with assms(2) show ?thesis by auto
qed

lemma realloc_owns:
  assumes "fresh_alloc alloc" "owns buf p s"
  shows "\<exists>es s' r. call_realloc alloc p n s = (es, Done (s', r)) \<and> owns buf (if r = None then p else r) s'"
proof -
  obtain m f where s: "s = (m, f)" by (cases s)
  obtain b where b: "heap_inv m" "dom (heap m) = set_option b \<union> user_to_lib ` set_option p" "set_option b \<inter> user_to_lib ` set_option p = {}"
      "buf = None \<or> \<not> f \<longrightarrow> b = None" using assms(2) s by (auto simp: owns_def)
  show ?thesis
  proof (cases p)
    case None
    obtain es m' r where r: "mg_malloc (alloc m) n m = (es, Done (m', r))" "heap_inv m'"
        "dom (heap m') = dom (heap m) \<union> user_to_lib ` set_option r" "\<forall>u. r = Some u \<longrightarrow> (\<exists>k. real_malloc (alloc m) k = Some (user_to_lib u))"
      using new_block_heap(1) [OF b(1), of "alloc m" n] by (elim exE conjE) (rule that)
    have "user_to_lib u \<notin> dom (heap m)" if "r = Some u" for u
      using r(4) that assms(1) by (auto simp: fresh_alloc_def real_ok_def)
    with r b None s have "owns buf r (m', f)" by (auto simp: owns_def intro!: exI [of _ b])
    with r(1) None s show ?thesis by (auto simp: call_realloc_def mg_realloc_def then_call_def)
  next
    case (Some u)
    then have live: "user_to_lib u \<in> dom (heap m)" using b(2) by auto
    obtain es m' r where r: "mg_realloc (alloc m) (Some u) n m = (es, Done (m', r))" "heap_inv m'"
        "r = None \<longrightarrow> dom (heap m') = dom (heap m)"
        "\<forall>v. r = Some v \<longrightarrow> dom (heap m') = insert (user_to_lib v) (dom (heap m) - {user_to_lib u}) \<and>
           (\<exists>k. real_realloc (alloc m) (user_to_lib u) k = Some (user_to_lib v))"
      using realloc_heap [OF b(1) live, of "alloc m" n] by (elim exE conjE) (rule that)
    have fresh: "user_to_lib v = user_to_lib u \<or> user_to_lib v \<notin> dom (heap m)" if "r = Some v" for v
      using r(4) that fresh_realloc [OF assms(1)] by (metis domIff)
    have "owns buf (if r = None then p else r) (m', f)"
    proof (cases r)
      case None
      then show ?thesis using r b Some by (auto simp: owns_def intro!: exI [of _ b])
    next
      case (Some v)
      then show ?thesis using r(2,4) Some fresh [OF Some] b \<open>p = Some u\<close> by (auto simp: owns_def intro!: exI [of _ b])
    qed
    with r(1) Some s show ?thesis by (auto simp: call_realloc_def then_call_def)
  qed
qed

lemma calloc_owns:
  assumes "fresh_alloc alloc" "owns buf None s"
  shows "\<exists>es s' r. call_calloc alloc k n s = (es, Done (s', r)) \<and> owns buf r s'"
proof -
  obtain m f where s: "s = (m, f)" by (cases s)
  obtain b where b: "heap_inv m" "dom (heap m) = set_option b" "buf = None \<or> \<not> f \<longrightarrow> b = None" using assms(2) s by (auto simp: owns_def)
  obtain es m' r where r: "mg_calloc (alloc m) k n m = (es, Done (m', r))" "heap_inv m'"
      "dom (heap m') = dom (heap m) \<union> user_to_lib ` set_option r" "\<forall>u. r = Some u \<longrightarrow> (\<exists>i j. real_calloc (alloc m) i j = Some (user_to_lib u))"
    using new_block_heap(2) [OF b(1), of "alloc m" k n] by (elim exE conjE) (rule that)
  have "user_to_lib u \<notin> dom (heap m)" if "r = Some u" for u
    using r(4) that assms(1) by (auto simp: fresh_alloc_def real_ok_def)
  with r b have "owns buf r (m', f)" by (auto simp: owns_def intro!: exI [of _ b])
  with r(1) s show ?thesis by (auto simp: call_calloc_def then_call_def)
qed

lemma free_owns:
  assumes "owns buf p s"
  shows "\<exists>es s'. call_free p s = (es, Done s') \<and> owns buf None s'"
proof -
  obtain m f where s: "s = (m, f)" by (cases s)
  obtain b where b: "heap_inv m" "dom (heap m) = set_option b \<union> user_to_lib ` set_option p" "set_option b \<inter> user_to_lib ` set_option p = {}"
      "buf = None \<or> \<not> f \<longrightarrow> b = None" using assms s by (auto simp: owns_def)
  have live: "user_to_lib ` set_option p \<subseteq> dom (heap m)" using b(2) by auto
  obtain es m' where r: "mg_free p m = (es, Done (m', ()))" "heap_inv m'" "dom (heap m') = dom (heap m) - user_to_lib ` set_option p"
    using free_heap [OF b(1) live] by (elim exE conjE) (rule that)
  with b have "owns buf None (m', f)" by (auto simp: owns_def intro!: exI [of _ b])
  with r(1) s show ?thesis by (auto simp: call_free_def then_call_def)
qed

section \<open>The properties\<close>

text \<open>A computation that returns with a result of which \<open>Q\<close> holds; or, if \<open>F\<close>, dereferences a null pointer.\<close>

definition ends :: "bool \<Rightarrow> ('a \<Rightarrow> bool) \<Rightarrow> event list \<times> 'a outcome \<Rightarrow> bool" where
  "ends F Q c \<longleftrightarrow> (\<exists>es a. c = (es, Done a) \<and> Q a) \<or> F \<and> (\<exists>es. c = (es, Fault NullDeref))"

lemma ends_then: "ends False P c \<Longrightarrow> (\<And>a. P a \<Longrightarrow> ends F Q (f a)) \<Longrightarrow> ends F Q (then_call c f)"
  by (fastforce simp: ends_def then_call_def)

lemma ends_done: "Q a \<Longrightarrow> ends F Q (es, Done a)" and ends_fault: "ends True Q (es, Fault NullDeref)"
  by (simp_all add: ends_def)

lemma then_call_assoc: "then_call (then_call c f) g = then_call c (\<lambda>a. then_call (f a) g)"
  by (simp add: then_call_def split: prod.splits outcome.splits)

lemma then_call_done [simp]: "then_call ([], Done a) f = f a"
  by (simp add: then_call_def)

text \<open>The calls of a program that owns the block \<open>p\<close>.\<close>

lemma ends_print:
  assumes "fresh_alloc alloc" "owns buf p s" "\<And>s'. owns buf p s' \<Longrightarrow> ends F Q (f s')"
  shows "ends F Q (then_call (print_str alloc buf t s) f)"
  using print_owns [OF assms(1,2), of t] assms(3) by (intro ends_then [of "owns buf p"]) (auto simp: ends_def)

lemma ends_realloc:
  assumes "fresh_alloc alloc" "owns buf p s" "\<And>s'. owns buf p s' \<Longrightarrow> ends F Q (f (s', None))"
    and "\<And>s' v. owns buf (Some v) s' \<Longrightarrow> ends F Q (f (s', Some v))"
  shows "ends F Q (then_call (call_realloc alloc p n s) f)"
proof (rule ends_then)
  show "ends False (\<lambda>(s', r). owns buf (if r = None then p else r) s') (call_realloc alloc p n s)"
    using realloc_owns [OF assms(1,2), of n] by (auto simp: ends_def)
  show "ends F Q (f a)" if "case a of (s', r) \<Rightarrow> owns buf (if r = None then p else r) s'" for a
    using that assms(3,4) by (cases a; cases "snd a") auto
qed

lemma ends_calloc:
  assumes "fresh_alloc alloc" "owns buf None s" "\<And>s' r. owns buf r s' \<Longrightarrow> ends F Q (f (s', r))"
  shows "ends F Q (then_call (call_calloc alloc k n s) f)"
  using calloc_owns [OF assms(1,2), of k n] assms(3) by (intro ends_then [of "\<lambda>(s', r). owns buf r s'"]) (auto simp: ends_def)

lemma ends_free:
  assumes "owns buf p s" "\<And>s'. owns buf None s' \<Longrightarrow> ends F Q (f s')"
  shows "ends F Q (then_call (call_free p s) f)"
  using free_owns [OF assms(1)] assms(2) by (intro ends_then [of "owns buf None"]) (auto simp: ends_def)

lemmas ends_call = ends_print ends_realloc ends_calloc

text \<open>
  C20: \<^verbatim>\<open>test_realloc\<close> under \<^verbatim>\<open>libmemgrind\<close>: whatever the limits and however often the library or the allocator refuses a
  request, the program ends without a fault and has given back its own memory; only the buffer
  of \<^verbatim>\<open>stdout\<close> may still be allocated when the library writes its report.
\<close>

theorem test_realloc_clean:
  assumes "fresh_alloc alloc" "heap_inv m" "heap m = Map.empty"
  shows "ends False (\<lambda>(s, status). owns buf None s \<and> status \<in> {EXIT_SUCCESS, EXIT_FAILURE}) (test_realloc_main alloc buf (m, False))"
proof -
  have init: "owns buf None (m, False)" using assms by (simp add: owns_def)
  show ?thesis unfolding test_realloc_main_def
    by (insert assms(1) init, ((rule ends_call, assumption, assumption) | (rule ends_free, assumption) | (rule ends_done) | simp)+)
qed

text \<open>A system whose allocator always finds a fresh block at the end of the heap, up to the end of the address space.\<close>

definition first_free :: "memgrind \<Rightarrow> size_t option" where
  "first_free m = (if heap m 4096 = None then Some 4096 else if heap m 8192 = None then Some 8192 else None)"

definition demo_alloc :: allocator where
  "demo_alloc m = \<lparr>real_malloc = (\<lambda>_. first_free m), real_calloc = (\<lambda>_ _. first_free m), real_realloc = (\<lambda>_ _. first_free m)\<rparr>"

lemma demo_alloc_fresh: "fresh_alloc demo_alloc"
  by (auto simp: fresh_alloc_def real_ok_def demo_alloc_def first_free_def split: if_splits)

theorem test_realloc_clean_witness:
  "\<exists>es s status. test_realloc_main demo_alloc None (demo_memgrind, False) = (es, Done (s, status)) \<and> heap (fst s) = Map.empty"
proof -
  have "heap_inv demo_memgrind" "heap demo_memgrind = Map.empty" by (simp_all add: heap_inv_def demo_memgrind_def)
  from test_realloc_clean [OF demo_alloc_fresh this, of None] show ?thesis by (auto simp: ends_def owns_def)
qed

text \<open>
  \<^verbatim>\<open>test_easy\<close> either ends with its own memory given back, or dereferences a null pointer; the latter
  happens when the library or the allocator refuses its first \<^verbatim>\<open>realloc\<close>, because the program only
  reports that and goes on.
\<close>

theorem test_easy_verdict:
  assumes "fresh_alloc alloc" "heap_inv m" "heap m = Map.empty"
  shows "ends True (\<lambda>(s, status). owns buf None s \<and> status \<in> {EXIT_SUCCESS, EXIT_FAILURE}) (test_easy_main alloc buf (m, False))"
proof -
  have init: "owns buf None (m, False)" using assms by (simp add: owns_def)
  show ?thesis unfolding test_easy_main_def
    by (insert assms(1) init, ((rule ends_call, assumption, assumption) | (rule ends_free, assumption) | rule ends_done | rule ends_fault |
        simp add: then_call_assoc split del: if_split | rule conjI impI | (split if_split))+)
qed

theorem test_easy_crashes:
  "\<exists>es. test_easy_main demo_alloc None (demo_memgrind\<lparr>allocation_setting := \<lparr>memgrind_mem_max = 100, memgrind_alloc_max = 16, memgrind_alloc_count = 5\<rparr>\<rparr>, False) =
    (es, Fault NullDeref)"
  by (simp add: test_easy_main_def print_str_def call_calloc_def call_realloc_def call_free_def then_call_def mg_calloc_def mg_realloc_def mg_free_def
      enter_guard_def can_alloc_def return_from_guarded_def count_alloc_def demo_alloc_def first_free_def demo_memgrind_def zero_statistics_def
      initialise_service_block_def check_service_validity_def SERVICE_LENGTH_def lib_to_user_def user_to_lib_def Let_def)

end
