(* ===== verification/Environment.thy ===== *)
theory Environment
  imports C_Prelude
begin

text \<open>
  The environment demonstrations of \<^verbatim>\<open>ex03\<close>: \<^verbatim>\<open>env/setenv.c\<close>, \<^verbatim>\<open>env/putenv.c\<close>, \<^verbatim>\<open>printenv/printenv.c\<close>, and \<^verbatim>\<open>assert/assert.c\<close>.
  Strings live in a store at addresses, because \<^verbatim>\<open>putenv\<close> makes the environment share the caller's string and \<^verbatim>\<open>getenv\<close>
  returns a pointer into an entry; \<^verbatim>\<open>setenv\<close> copies.  The C library never frees a string of the
  environment.
\<close>

section \<open>The environment of the C library\<close>

text \<open>\<open>environ\<close> is the list of the addresses of the entries, texts of the form \<^verbatim>\<open>NAME=VALUE\<close>.\<close>

record env_state =
  store :: "nat \<Rightarrow> string"
  fresh :: nat
  environ :: "nat list"

definition clearenv :: "env_state \<Rightarrow> env_state" where
  "clearenv s = s\<lparr>environ := []\<rparr>"

definition entry_for :: "string \<Rightarrow> env_state \<Rightarrow> nat \<Rightarrow> bool" where
  "entry_for name s a \<longleftrightarrow> is_prefix (name @ ''='') (store s a)"

text \<open>A pointer into a string: its address and an offset.\<close>

definition getenv :: "string \<Rightarrow> env_state \<Rightarrow> (nat \<times> nat) option" where
  "getenv name s = map_option (\<lambda>a. (a, length name + 1)) (find (entry_for name s) (environ s))"

definition text_at :: "env_state \<Rightarrow> nat \<times> nat \<Rightarrow> string" where
  "text_at s p = drop (snd p) (store s (fst p))"

text \<open>A new string in the store, and an entry put in the place of the first one with the same name.\<close>

definition new_string :: "string \<Rightarrow> env_state \<Rightarrow> nat \<times> env_state" where
  "new_string t s = (fresh s, s\<lparr>store := (store s)(fresh s := t), fresh := Suc (fresh s)\<rparr>)"

fun put_entry :: "(nat \<Rightarrow> bool) \<Rightarrow> nat \<Rightarrow> nat list \<Rightarrow> nat list" where
  "put_entry P a [] = [a]"
| "put_entry P a (x # xs) = (if P x then a # xs else x # put_entry P a xs)"

definition putenv :: "string \<Rightarrow> nat \<Rightarrow> env_state \<Rightarrow> env_state" where
  "putenv name a s = s\<lparr>environ := put_entry (entry_for name s) a (environ s)\<rparr>"

definition setenv :: "string \<Rightarrow> string \<Rightarrow> bool \<Rightarrow> env_state \<Rightarrow> env_state" where
  "setenv name val overwrite s =
     (if getenv name s \<noteq> None \<and> \<not> overwrite then s
      else let (a, s') = new_string (name @ ''='' @ val) s in s'\<lparr>environ := put_entry (entry_for name s) a (environ s)\<rparr>)"

section \<open>The programs\<close>

text \<open>\<open>fails k\<close> is the error number of the \<open>k\<close>-th call that can fail, if it does.\<close>

definition ENV_VAR :: string where "ENV_VAR = ''KEYSER_SOZE''"

definition kint :: string where
  "kint = ''Roger '' @ [CHR 0xE2, CHR 0x80, CHR 0x9C] @ ''Verbal'' @ [CHR 0xE2, CHR 0x80, CHR 0x9D] @ '' Kint''"

definition assignment :: "env_state \<Rightarrow> nat \<times> nat \<Rightarrow> event" where
  "assignment s p = Stdout (ENV_VAR @ '' = '' @ text_at s p @ [nl])"

definition die :: "event list \<Rightarrow> int \<Rightarrow> string \<Rightarrow> event list \<times> int" where
  "die es e m = (es @ [Error e m], EXIT_FAILURE)"

definition setenv_main :: "(nat \<Rightarrow> int option) \<Rightarrow> env_state \<Rightarrow> event list \<times> int" where
  "setenv_main fails s0 =
     (case fails 0 of Some e \<Rightarrow> die [] e ''clearenv'' | None \<Rightarrow>
      let s1 = clearenv s0 in
      case fails 1 of Some e \<Rightarrow> die [] e (''setenv '' @ ENV_VAR) | None \<Rightarrow>
      let s2 = setenv ENV_VAR ''Dean Keaton'' True s1 in
      case getenv ENV_VAR s2 of None \<Rightarrow> die [] 0 (''getenv '' @ ENV_VAR) | Some v2 \<Rightarrow>
      let out2 = [Stdout (''initial setup:'' @ [nl]), assignment s2 v2];
          (out3, s3) = (case fails 2 of Some e \<Rightarrow> (out2 @ [Error e (''setenv '' @ ENV_VAR @ '' (expected)'')], s2)
                        | None \<Rightarrow> (out2, setenv ENV_VAR kint False s2)) in
      case getenv ENV_VAR s3 of None \<Rightarrow> die out3 0 (''getenv '' @ ENV_VAR) | Some v3 \<Rightarrow>
      case fails 3 of Some e \<Rightarrow> die out3 e (''setenv '' @ ENV_VAR @ '' (overwrite)'') | None \<Rightarrow>
      let s4 = setenv ENV_VAR kint True s3;
          out4 = out3 @ [Stdout (''after setenv() without overwrite:'' @ [nl]), assignment s4 v3] in
      case getenv ENV_VAR s4 of None \<Rightarrow> die out4 0 (''getenv '' @ ENV_VAR) | Some v4 \<Rightarrow>
      (out4 @ [Stdout (''after setenv() with overwrite:'' @ [nl]), assignment s4 v4], EXIT_SUCCESS))"

text \<open>\<^verbatim>\<open>snprintf(env_entry, 1024, "%s=%s", ENV_VAR, v)\<close> into the string at \<open>a\<close>.\<close>

definition write_entry :: "nat \<Rightarrow> string \<Rightarrow> env_state \<Rightarrow> env_state" where
  "write_entry a v s = s\<lparr>store := (store s)(a := take 1023 (ENV_VAR @ ''='' @ v))\<rparr>"

definition putenv_main :: "(nat \<Rightarrow> int option) \<Rightarrow> env_state \<Rightarrow> event list \<times> int" where
  "putenv_main fails s0 =
     (case fails 0 of Some e \<Rightarrow> die [] e ''clearenv'' | None \<Rightarrow>
      let s1 = clearenv s0 in
      case fails 1 of Some e \<Rightarrow> die [] e ''cannot allocate memory'' | None \<Rightarrow>
      let (a, s2) = new_string [] s1; s3 = write_entry a ''Dean Keaton'' s2 in
      case fails 2 of Some e \<Rightarrow> die [] e ''putenv'' | None \<Rightarrow>
      let s4 = putenv ENV_VAR a s3 in
      case getenv ENV_VAR s4 of None \<Rightarrow> die [] 0 (''getenv '' @ ENV_VAR) | Some v4 \<Rightarrow>
      let out4 = [Stdout (''after initial setup:'' @ [nl]), assignment s4 v4];
          s5 = write_entry a kint s4 in
      case getenv ENV_VAR s5 of None \<Rightarrow> die out4 0 (''getenv '' @ ENV_VAR) | Some v5 \<Rightarrow>
      (out4 @ [Stdout (''after modifying the string in memory:'' @ [nl]), assignment s5 v5], EXIT_SUCCESS))"

text \<open>\<^verbatim>\<open>printenv\<close> walks over the array of addresses it got as an argument, which \<^verbatim>\<open>clearenv\<close> does not touch.\<close>

definition printenv_main :: "int option \<Rightarrow> env_state \<Rightarrow> event list \<times> int" where
  "printenv_main fails s =
     (case fails of Some e \<Rightarrow> die [] e ''clearenv''
      | None \<Rightarrow> (let env = environ s; s1 = clearenv s in (map (\<lambda>a. Stdout (store s1 a @ [nl])) env, EXIT_SUCCESS)))"

definition assert_main :: "bool \<Rightarrow> event list \<times> int outcome" where
  "assert_main ndebug =
     (let i = 2; j = (0 :: int)
      in if \<not> ndebug \<and> j = 0 then ([], Fault AssertFailed)
         else if j = 0 then ([], Fault DivByZero)
         else ([Stdout (show_int i @ '' / '' @ show_int j @ '' = '' @ show_int (c_div i j) @ [nl])], Done EXIT_SUCCESS))"

section \<open>The laws of the environment\<close>

text \<open>Every entry is an allocated string; names have no equals sign.\<close>

definition env_ok :: "env_state \<Rightarrow> bool" where
  "env_ok s \<longleftrightarrow> list_all (\<lambda>a. a < fresh s) (environ s)"

definition lookup :: "string \<Rightarrow> env_state \<Rightarrow> string option" where
  "lookup name s = map_option (text_at s) (getenv name s)"

lemma prefix_assignment:
  assumes "CHR ''='' \<notin> set n" "CHR ''='' \<notin> set m"
  shows "is_prefix (n @ ''='') (m @ ''='' @ v) \<longleftrightarrow> n = m"
proof
  assume "is_prefix (n @ ''='') (m @ ''='' @ v)"
  then obtain z where z: "m @ CHR ''='' # v = n @ CHR ''='' # z" by (auto simp: is_prefix_iff)
  have "takeWhile (\<lambda>c. c \<noteq> CHR ''='') (m @ CHR ''='' # v) = m" "takeWhile (\<lambda>c. c \<noteq> CHR ''='') (n @ CHR ''='' # z) = n"
    using assms by (auto simp: takeWhile_append2 takeWhile_tail)
  with z show "n = m" by simp
qed (auto simp: is_prefix_iff)

lemma find_put:
  assumes "P a"
  shows "find P (put_entry P a xs) = Some a"
  using assms by (induction xs) auto

lemma find_put_other:
  assumes "\<not> Q a" "\<And>x. x \<in> set xs \<Longrightarrow> P x \<Longrightarrow> \<not> Q x"
  shows "find Q (put_entry P a xs) = find Q xs"
  using assms by (induction xs) auto

lemma find_cong_set: "(\<And>x. x \<in> set xs \<Longrightarrow> P x = Q x) \<Longrightarrow> find P xs = find Q xs"
  by (induction xs) auto

lemma set_put: "set (put_entry P a xs) \<subseteq> insert a (set xs)"
  by (induction xs) auto

lemma put_entry_cong: "(\<And>x. x \<in> set xs \<Longrightarrow> P x = Q x) \<Longrightarrow> put_entry P a xs = put_entry Q a xs"
  by (induction xs) auto

lemma prefix_unique:
  assumes "is_prefix (n @ ''='') w" "is_prefix (m @ ''='') w" "CHR ''='' \<notin> set n" "CHR ''='' \<notin> set m"
  shows "n = m"
proof -
  obtain z where "w = m @ ''='' @ z" using assms(2) by (auto simp: is_prefix_iff)
  with assms prefix_assignment [of n m z] show ?thesis by simp
qed

text \<open>The state after a copy was put into the environment.\<close>

definition with_entry :: "string \<Rightarrow> string \<Rightarrow> env_state \<Rightarrow> env_state" where
  "with_entry n v s = s\<lparr>store := (store s)(fresh s := n @ ''='' @ v), fresh := Suc (fresh s),
     environ := put_entry (entry_for n s) (fresh s) (environ s)\<rparr>"

lemma setenv_eq: "setenv n v ow s = (if getenv n s \<noteq> None \<and> \<not> ow then s else with_entry n v s)"
  by (simp add: setenv_def new_string_def with_entry_def)

lemma with_entry_frame:
  "fst p < fresh s \<Longrightarrow> text_at (with_entry n v s) p = text_at s p"
  "text_at (with_entry n v s) (fresh s, length n + 1) = v"
  "env_ok s \<Longrightarrow> env_ok (with_entry n v s)"
  by (auto simp: text_at_def with_entry_def env_ok_def list_all_iff less_Suc_eq dest: set_put [THEN subsetD])

lemma entry_frame: "env_ok s \<Longrightarrow> x \<in> set (environ s) \<Longrightarrow> entry_for k (with_entry n v s) x = entry_for k s x"
  by (auto simp: entry_for_def with_entry_def env_ok_def list_all_iff)

lemma getenv_with_entry:
  assumes "env_ok s"
  shows "getenv n (with_entry n v s) = Some (fresh s, length n + 1)"
proof -
  have "environ (with_entry n v s) = put_entry (entry_for n (with_entry n v s)) (fresh s) (environ s)"
    using entry_frame [OF assms, of _ n n v] by (simp add: with_entry_def cong: put_entry_cong)
  moreover have "entry_for n (with_entry n v s) (fresh s)" by (simp add: entry_for_def with_entry_def is_prefix_iff)
  ultimately show ?thesis by (simp add: getenv_def find_put)
qed

lemma getenv_other:
  assumes "env_ok s" "CHR ''='' \<notin> set n" "CHR ''='' \<notin> set m" "m \<noteq> n"
  shows "getenv m (with_entry n v s) = getenv m s"
proof -
  let ?t = "with_entry n v s"
  have "\<not> entry_for m ?t (fresh s)" using prefix_assignment [of m n v] assms by (simp add: entry_for_def with_entry_def)
  moreover have "\<not> entry_for m ?t x" if "x \<in> set (environ s)" "entry_for n s x" for x
    using entry_frame [OF assms(1) that(1)] that(2) prefix_unique [of n "store s x" m] assms by (auto simp: entry_for_def)
  ultimately have "find (entry_for m ?t) (put_entry (entry_for n s) (fresh s) (environ s)) = find (entry_for m ?t) (environ s)"
    by (rule find_put_other)
  also have "\<dots> = find (entry_for m s) (environ s)" using entry_frame [OF assms(1)] by (intro find_cong_set)
  finally show ?thesis by (simp add: getenv_def with_entry_def)
qed

lemma getenv_allocated: "env_ok s \<Longrightarrow> getenv n s = Some p \<Longrightarrow> fst p < fresh s"
  by (auto simp: getenv_def env_ok_def list_all_iff find_Some_iff)

text \<open>
  The environment behaves like a map from names to values: \<^verbatim>\<open>setenv\<close> changes exactly the variable named, and that only
  if it may overwrite or the variable is new; strings handed out before keep their contents.
\<close>

theorem setenv_laws:
  assumes "env_ok s" "CHR ''='' \<notin> set n" "CHR ''='' \<notin> set m"
  shows "env_ok (setenv n v ow s) \<and>
    lookup m (setenv n v ow s) = (if m = n \<and> (ow \<or> lookup n s = None) then Some v else lookup m s) \<and>
    (getenv m s = Some p \<longrightarrow> text_at (setenv n v ow s) p = text_at s p)"
proof -
  have keep: "text_at (with_entry n v s) p = text_at s p" if "getenv m s = Some p" for p
    using with_entry_frame(1) getenv_allocated [OF assms(1) that] by simp
  have "lookup m (with_entry n v s) = (if m = n then Some v else lookup m s)"
  proof (cases "m = n")
    case True
    then show ?thesis using getenv_with_entry [OF assms(1), of n v] with_entry_frame(2) [of n v s] by (simp add: lookup_def)
  next
    case False
    then show ?thesis using getenv_other [OF assms False, of v] keep by (cases "getenv m s") (auto simp: lookup_def)
  qed
  then show ?thesis using assms(1) keep with_entry_frame(3) [OF assms(1)] by (auto simp: setenv_eq lookup_def)
qed

definition demo_env :: env_state where
  "demo_env = \<lparr>store = (\<lambda>a. if a = 0 then ''HOME=/root'' else ''X=1''), fresh = 2, environ = [0, 1]\<rparr>"

lemma demo_env_ok: "env_ok demo_env"
  by (simp add: env_ok_def demo_env_def)

theorem setenv_laws_witness: "lookup ''X'' (setenv ''X'' ''2'' True demo_env) = Some ''2'' \<and> lookup ''HOME'' (setenv ''X'' ''2'' True demo_env) = Some ''/root''"
proof -
  have "lookup ''HOME'' demo_env = Some ''/root''"
    by (simp add: lookup_def getenv_def entry_for_def demo_env_def text_at_def)
  then show ?thesis using setenv_laws [OF demo_env_ok, of "''X''" "''X''" "''2''" True] setenv_laws [OF demo_env_ok, of "''X''" "''HOME''" "''2''" True]
    by simp
qed

lemma clear_ok [simp]: "env_ok (clearenv s)" "getenv n (clearenv s) = None" "fresh (clearenv s) = fresh s"
  by (simp_all add: env_ok_def clearenv_def getenv_def)

text \<open>
  What \<^verbatim>\<open>setenv\<close> and \<^verbatim>\<open>putenv\<close> print when nothing fails, whatever the environment was: a value that may
  not be overwritten stays; the pointer obtained before the overwriting call still shows the old
  value after it; and changing the string that was given to \<^verbatim>\<open>putenv\<close> changes the environment.
\<close>

theorem setenv_main_output:
  "setenv_main (\<lambda>_. None) s0 =
     ([Stdout (''initial setup:'' @ [nl]), Stdout (''KEYSER_SOZE = Dean Keaton'' @ [nl]),
       Stdout (''after setenv() without overwrite:'' @ [nl]), Stdout (''KEYSER_SOZE = Dean Keaton'' @ [nl]),
       Stdout (''after setenv() with overwrite:'' @ [nl]), Stdout (''KEYSER_SOZE = '' @ kint @ [nl])], EXIT_SUCCESS)"
proof -
  let ?s1 = "clearenv s0" let ?s2 = "with_entry ENV_VAR ''Dean Keaton'' ?s1" let ?s4 = "with_entry ENV_VAR kint ?s2"
  let ?v2 = "(fresh s0, length ENV_VAR + 1)" and ?v4 = "(Suc (fresh s0), length ENV_VAR + 1)"
  have g2: "getenv ENV_VAR ?s2 = Some ?v2" using getenv_with_entry [of ?s1 ENV_VAR] by simp
  have f2: "fresh ?s2 = Suc (fresh s0)" by (simp add: with_entry_def)
  have g4: "getenv ENV_VAR ?s4 = Some ?v4" using getenv_with_entry [of ?s2 ENV_VAR] with_entry_frame(3) f2 by simp
  have v2: "text_at ?s2 ?v2 = ''Dean Keaton''" using with_entry_frame(2) [of ENV_VAR "''Dean Keaton''" ?s1] by simp
  have "text_at ?s4 ?v2 = ''Dean Keaton''" "text_at ?s4 ?v4 = kint"
    using with_entry_frame(1) [of ?v2 ?s2 ENV_VAR kint] with_entry_frame(2) [of ENV_VAR kint ?s2] f2 v2 by simp_all
  with g2 g4 v2 show ?thesis by (simp add: setenv_main_def setenv_eq assignment_def ENV_VAR_def Let_def)
qed

theorem putenv_main_output:
  "putenv_main (\<lambda>_. None) s0 =
     ([Stdout (''after initial setup:'' @ [nl]), Stdout (''KEYSER_SOZE = Dean Keaton'' @ [nl]),
       Stdout (''after modifying the string in memory:'' @ [nl]), Stdout (''KEYSER_SOZE = '' @ kint @ [nl])], EXIT_SUCCESS)"
  by (simp add: putenv_main_def clearenv_def new_string_def write_entry_def putenv_def getenv_def entry_for_def assignment_def text_at_def
      ENV_VAR_def kint_def Let_def)

text \<open>\<^verbatim>\<open>printenv\<close> prints the whole environment although it clears it first; the division of \<^verbatim>\<open>assert\<close> is never printed.\<close>

theorem printenv_prints_all: "printenv_main None s = (map (\<lambda>a. Stdout (store s a @ [nl])) (environ s), EXIT_SUCCESS)"
  by (simp add: printenv_main_def clearenv_def)

theorem assert_stops: "fst (assert_main ndebug) = [] \<and> snd (assert_main ndebug) = Fault (if ndebug then DivByZero else AssertFailed)"
  by (simp add: assert_main_def)

end
