(* ===== verification/Processes.thy ===== *)
theory Processes
  imports C_Prelude
begin

text \<open>
  Small programs about processes: \<^verbatim>\<open>ex05/vidlicky\<close> (a fork, with and without waiting for the child), \<^verbatim>\<open>ex05/spooky\<close> (a command line
  built from input), \<^verbatim>\<open>ex06/abort\<close> (a handler for \<^verbatim>\<open>SIGABRT\<close>) and \<^verbatim>\<open>ex13/mmap0\<close> (a child that writes to the null page).
\<close>

section \<open>vidlicky.c\<close>

text \<open>
  Parent and child after a successful \<^verbatim>\<open>fork\<close>.  \<open>parent_ended\<close> decides what \<^verbatim>\<open>getppid\<close> tells the child: an orphan
  is adopted by the process \<open>reaper\<close>.
\<close>

datatype fork_pc = Running | Ended

record forked =
  parent_pc :: fork_pc
  child_pc :: fork_pc
  fork_out :: "event list"

definition parent_line :: "int \<Rightarrow> int \<Rightarrow> event" where
  "parent_line own_pid pid = Stdout (''(parent)'' @ [CHR 0x09] @ show_int own_pid @ [CHR 0x09] @ show_int pid @ [nl])"

definition child_line :: "int \<Rightarrow> int \<Rightarrow> event" where
  "child_line ppid own_pid = Stdout (''(child) '' @ [CHR 0x09] @ show_int ppid @ [CHR 0x09] @ show_int own_pid @ [nl])"

text \<open>\<open>waits\<close> is \<^verbatim>\<open>ENABLE_WAIT\<close>: then the parent goes on only after the child has ended.\<close>

inductive fork_step :: "bool \<Rightarrow> int \<Rightarrow> int \<Rightarrow> int \<Rightarrow> forked \<Rightarrow> forked \<Rightarrow> bool" for waits ppid cpid reaper where
  parent: "parent_pc s = Running \<Longrightarrow> (waits \<longrightarrow> child_pc s = Ended) \<Longrightarrow>
    fork_step waits ppid cpid reaper s (s\<lparr>parent_pc := Ended, fork_out := fork_out s @ [parent_line ppid cpid]\<rparr>)"
| child: "child_pc s = Running \<Longrightarrow>
    fork_step waits ppid cpid reaper s (s\<lparr>child_pc := Ended,
      fork_out := fork_out s @ [child_line (if parent_pc s = Ended then reaper else ppid) cpid]\<rparr>)"

definition forked_init :: forked where
  "forked_init = \<lparr>parent_pc = Running, child_pc = Running, fork_out = []\<rparr>"

text \<open>\<^verbatim>\<open>main\<close>: a failed \<^verbatim>\<open>fork\<close> ends it, otherwise two processes run.\<close>

definition vidlicky_main :: "int + int \<Rightarrow> (event list \<times> int) + forked" where
  "vidlicky_main fork_result = (case fork_result of
      Inl e \<Rightarrow> Inl ([Error e ''fork''], EXIT_FAILURE)
    | Inr pid \<Rightarrow> Inr forked_init)"

definition fork_inv :: "bool \<Rightarrow> int \<Rightarrow> int \<Rightarrow> int \<Rightarrow> forked \<Rightarrow> bool" where
  "fork_inv waits ppid cpid reaper s \<longleftrightarrow> fork_out s \<in> (case (parent_pc s, child_pc s) of
      (Running, Running) \<Rightarrow> {[]}
    | (Running, Ended) \<Rightarrow> {[child_line ppid cpid]}
    | (Ended, Running) \<Rightarrow> if waits then {} else {[parent_line ppid cpid]}
    | (Ended, Ended) \<Rightarrow> insert [child_line ppid cpid, parent_line ppid cpid]
        (if waits then {} else {[parent_line ppid cpid, child_line reaper cpid]}))"

interpretation vid: invariant_system "\<lambda>s. s = forked_init" "fork_step waits ppid cpid reaper" "fork_inv waits ppid cpid reaper"
  for waits ppid cpid reaper
proof (unfold_locales, goal_cases)
  case (2 s t)
  from 2(2,1) show ?case
    by (cases rule: fork_step.cases) (auto simp: fork_inv_def split: fork_pc.splits if_splits)
qed (simp add: fork_inv_def forked_init_def)

text \<open>
  \<^verbatim>\<open>vidlicky\<close> built with \<^verbatim>\<open>ENABLE_WAIT\<close> prints the line of the child, with the true number of its parent, and then the line of the
  parent; built without it, it may also print them in the other order, and then the child names the process that adopted it.
\<close>

theorem vidlicky_order:
  assumes "reaches (fork_step waits ppid cpid reaper) forked_init s" "\<And>t. \<not> fork_step waits ppid cpid reaper s t"
  shows "fork_out s = [child_line ppid cpid, parent_line ppid cpid] \<or>
    \<not> waits \<and> fork_out s = [parent_line ppid cpid, child_line reaper cpid]"
proof -
  have inv: "fork_inv waits ppid cpid reaper s" by (rule vid.inv_reachable [OF refl assms(1)])
  have "child_pc s = Ended" using assms(2) fork_step.child [of s] by (cases "child_pc s") blast+
  moreover from this have "parent_pc s = Ended" using assms(2) fork_step.parent [of s] by (cases "parent_pc s") blast+
  ultimately show ?thesis using inv by (auto simp: fork_inv_def split: if_splits)
qed

theorem vidlicky_order_witness:
  "\<exists>s. reaches (fork_step True 10 11 1) forked_init s \<and> fork_out s = [child_line 10 11, parent_line 10 11]"
proof -
  let ?st = "fork_step True 10 11 1"
  let ?a = "forked_init\<lparr>child_pc := Ended, fork_out := [child_line 10 11]\<rparr>"
  let ?b = "?a\<lparr>parent_pc := Ended, fork_out := [child_line 10 11, parent_line 10 11]\<rparr>"
  have a: "?st forked_init ?a" using fork_step.child [of forked_init True 10 11 1] by (simp add: forked_init_def)
  have b: "?st ?a ?b" using fork_step.parent [of ?a True 10 11 1] by (simp add: forked_init_def)
  have r: "reaches ?st forked_init ?b"
    by (rule reaches_step [of ?st _ ?a], rule reaches_step [of ?st _ forked_init], rule reaches_refl) (fact a, fact b)
  have "\<not> ?st ?b t" for t by (auto elim: fork_step.cases simp: forked_init_def)
  from vidlicky_order [OF r this] r show ?thesis by auto
qed

section \<open>spooky.c\<close>

definition BUFFER :: nat where "BUFFER = 1024"

text \<open>
  \<^verbatim>\<open>scanf("%[^\n]", date)\<close> stores the input up to the newline with a NUL behind it; at an empty line or the
  end of the input it stores nothing.
\<close>

definition scan_line :: "string \<Rightarrow> string \<Rightarrow> string outcome" where
  "scan_line old stdin_text =
     (let l = takeWhile (\<lambda>c. c \<noteq> nl) stdin_text
      in if l = [] then Done old
         else if length l + 1 > BUFFER then Fault BufferOverflow
         else Done (l @ [nul] @ drop (length l + 1) old))"

definition date_command :: "string \<Rightarrow> string" where
  "date_command date = ''date -d '' @ [CHR 0x27] @ cstr date @ [CHR 0x27]"

text \<open>\<open>junk\<close> is what the uninitialised buffer \<^verbatim>\<open>date\<close> holds; the result is the command given to \<^verbatim>\<open>system\<close>.\<close>

definition spooky_main :: "string \<Rightarrow> string \<Rightarrow> event list \<times> (string \<times> int) outcome" where
  "spooky_main junk stdin_text =
     ([Stdout ''> ''],
      (case scan_line junk stdin_text of
         Done date \<Rightarrow>
           if nul \<notin> set date then Fault OutOfBounds
           else if length (date_command date) + 1 > BUFFER then Fault BufferOverflow
           else Done (date_command date, EXIT_SUCCESS)
       | Exit c \<Rightarrow> Exit c
       | Fault f \<Rightarrow> Fault f))"

text \<open>The shell reads a single-quoted word up to the next single quote: the word and the text behind it.\<close>

definition single_quoted :: "string \<Rightarrow> string \<times> string" where
  "single_quoted t = (takeWhile (\<lambda>c. c \<noteq> CHR 0x27) t, drop 1 (dropWhile (\<lambda>c. c \<noteq> CHR 0x27) t))"

lemma cstr_stop: "nul \<notin> set l \<Longrightarrow> cstr (l @ nul # r) = l"
  by (auto simp: cstr_def takeWhile_append2 takeWhile_tail)

lemma spooky_line:
  assumes "length junk = BUFFER" "l \<noteq> []" "nul \<notin> set l" "nl \<notin> set l"
  shows "snd (spooky_main junk (l @ nl # tail)) =
    (if length l \<le> 1013 then Done (''date -d '' @ [CHR 0x27] @ l @ [CHR 0x27], EXIT_SUCCESS) else Fault BufferOverflow)"
proof -
  have "takeWhile (\<lambda>c. c \<noteq> nl) (l @ nl # tail) = l" using assms(4) by (auto simp: takeWhile_append2 takeWhile_tail)
  then show ?thesis using assms by (auto simp: spooky_main_def scan_line_def date_command_def cstr_stop BUFFER_def)
qed

text \<open>
  \<^verbatim>\<open>spooky\<close> executes \<^verbatim>\<open>date -d\<close> with the whole line as its argument exactly for lines of at most 1013 characters without a
  single quote: a longer one overflows a buffer, and what follows the first quote is read by the shell as commands.
\<close>

theorem spooky_commands:
  assumes "length junk = BUFFER" "l \<noteq> []" "nul \<notin> set l" "nl \<notin> set l"
  shows "if length l \<le> 1013
    then \<exists>cmd. snd (spooky_main junk (l @ nl # tail)) = Done (''date -d '' @ [CHR 0x27] @ cmd, EXIT_SUCCESS) \<and>
      (single_quoted cmd = (l, []) \<longleftrightarrow> CHR 0x27 \<notin> set l) \<and>
      (\<forall>a b. l = a @ CHR 0x27 # b \<longrightarrow> CHR 0x27 \<notin> set a \<longrightarrow> single_quoted cmd = (a, b @ [CHR 0x27]))
    else snd (spooky_main junk (l @ nl # tail)) = Fault BufferOverflow"
proof (cases "length l \<le> 1013")
  case True
  have sq: "single_quoted (a @ CHR 0x27 # b) = (a, b)" if "CHR 0x27 \<notin> set a" for a b
    using that by (induction a) (auto simp: single_quoted_def)
  have "single_quoted (l @ [CHR 0x27]) \<noteq> (l, [])" if q: "CHR 0x27 \<in> set l"
  proof -
    obtain a b where "l = a @ CHR 0x27 # b" "CHR 0x27 \<notin> set a" using split_list_first [OF q] by auto
    then show ?thesis using sq [of a "b @ [CHR 0x27]"] by simp
  qed
  then show ?thesis using True spooky_line [OF assms, of tail] sq [of l "[]"] sq by auto
next
  case False
  then show ?thesis using spooky_line [OF assms, of tail] by simp
qed

theorem spooky_commands_witness:
  "\<exists>cmd. snd (spooky_main (replicate BUFFER nul) ([CHR ''x'', CHR 0x27, CHR '';'', CHR ''w''] @ nl # [])) =
     Done (''date -d '' @ [CHR 0x27] @ cmd, EXIT_SUCCESS) \<and> single_quoted cmd = (''x'', [CHR '';'', CHR ''w'', CHR 0x27])"
proof -
  let ?l = "[CHR ''x'', CHR 0x27, CHR '';'', CHR ''w'']"
  have "nul \<notin> set ?l" "nl \<notin> set ?l" by (simp_all add: nul_def nl_def)
  then obtain cmd where "snd (spooky_main (replicate BUFFER nul) (?l @ nl # [])) = Done (''date -d '' @ [CHR 0x27] @ cmd, EXIT_SUCCESS)"
      and all: "\<forall>a b. ?l = a @ CHR 0x27 # b \<longrightarrow> CHR 0x27 \<notin> set a \<longrightarrow> single_quoted cmd = (a, b @ [CHR 0x27])"
    using spooky_commands [of "replicate BUFFER nul" ?l "[]"] by auto
  moreover have "single_quoted cmd = (''x'', '';w'' @ [CHR 0x27])" using all [rule_format, of "''x''" "'';w''"] by simp
  ultimately show ?thesis by (intro exI [of _ cmd]) simp
qed

section \<open>abort.c\<close>

text \<open>
  The process as far as \<^verbatim>\<open>SIGABRT\<close> is concerned: whether the signal is blocked (inherited), pending, and has
  the handler; \<open>killed\<close> once the default action was taken.
\<close>

record abrt =
  abrt_blocked :: bool
  abrt_pending :: bool
  abrt_handler :: bool
  abrt_killed :: bool
  abrt_err :: "event list"

definition sigabrt_ignore :: event where
  "sigabrt_ignore = Stderr (''SIGABRT caught, ignoring'' @ [nl])"

definition take_abrt :: "abrt \<Rightarrow> abrt" where
  "take_abrt s = (if abrt_killed s then s
     else if abrt_handler s then s\<lparr>abrt_err := abrt_err s @ [sigabrt_ignore]\<rparr> else s\<lparr>abrt_killed := True\<rparr>)"

definition raise_abrt :: "abrt \<Rightarrow> abrt" where
  "raise_abrt s = (if abrt_killed s then s else if abrt_blocked s then s\<lparr>abrt_pending := True\<rparr> else take_abrt s)"

definition unblock :: "abrt \<Rightarrow> abrt" where
  "unblock s = (let s' = s\<lparr>abrt_blocked := False, abrt_pending := False\<rparr> in if abrt_pending s then take_abrt s' else s')"

text \<open>\<^verbatim>\<open>abort()\<close>: unblock the signal and raise it; if that returns, restore the default action and raise it again.\<close>

definition abort_call :: "abrt \<Rightarrow> abrt" where
  "abort_call s = raise_abrt ((raise_abrt (unblock s))\<lparr>abrt_handler := False\<rparr>)"

text \<open>
  The result: the text that reaches standard output (\<open>line_buffered\<close>: it is a terminal; otherwise \<^verbatim>\<open>abort\<close> does not write the
  buffer), what was written to standard error, and the exit status, or \<open>None\<close> when killed by the signal.
\<close>

definition abort_main :: "int option \<Rightarrow> bool \<Rightarrow> abrt \<Rightarrow> string \<times> event list \<times> int option" where
  "abort_main sigaction_fails line_buffered s0 =
     (case sigaction_fails of
        Some e \<Rightarrow> ([], [Error e ''cannot setup handler for ABRT''], Some EXIT_FAILURE)
      | None \<Rightarrow>
          let s1 = s0\<lparr>abrt_handler := True\<rparr>;
              out1 = ''1: raise(SIGABRT)'' @ [nl]; s2 = raise_abrt s1;
              out2 = out1 @ ''2: abort()'' @ [nl]; s3 = abort_call s2
          in if abrt_killed s3 then (if line_buffered then out2 else [], abrt_err s3, None)
             else (out2 @ ''Still alive? Huh.'' @ [nl], abrt_err s3, Some EXIT_SUCCESS))"

text \<open>
  The handler of \<^verbatim>\<open>abort\<close> cannot save the process: it runs exactly twice, whether the signal was blocked or not, the process is
  then killed by the signal, and unless standard output is a terminal none of its lines is ever written.
\<close>

theorem abort_kills:
  assumes "\<not> abrt_killed s" "\<not> abrt_pending s" "abrt_err s = []"
  shows "abort_main None line_buffered s =
    (if line_buffered then ''1: raise(SIGABRT)'' @ [nl] @ ''2: abort()'' @ [nl] else [], [sigabrt_ignore, sigabrt_ignore], None)"
  using assms by (cases "abrt_blocked s") (auto simp: abort_main_def abort_call_def raise_abrt_def unblock_def take_abrt_def Let_def)

theorem abort_kills_witness:
  "abort_main None False \<lparr>abrt_blocked = True, abrt_pending = False, abrt_handler = False, abrt_killed = False, abrt_err = []\<rparr> =
     ([], [sigabrt_ignore, sigabrt_ignore], None)"
  using abort_kills [of "\<lparr>abrt_blocked = True, abrt_pending = False, abrt_handler = False, abrt_killed = False, abrt_err = []\<rparr>" False] by simp

section \<open>mmap0.c\<close>

text \<open>The wait status of Linux: the signal in the low seven bits, the exit status in the next byte.\<close>

definition WTERMSIG :: "int \<Rightarrow> int" where "WTERMSIG status = status mod 128"
definition WIFEXITED :: "int \<Rightarrow> bool" where "WIFEXITED status \<longleftrightarrow> WTERMSIG status = 0"
definition WIFSIGNALED :: "int \<Rightarrow> bool" where "WIFSIGNALED status \<longleftrightarrow> 0 < WTERMSIG status \<and> WTERMSIG status < 127"
definition WEXITSTATUS :: "int \<Rightarrow> int" where "WEXITSTATUS status = (status div 256) mod 256"
definition SIGSEGV :: int where "SIGSEGV = 11"

datatype fate = Exited int | Killed int

definition wait_status :: "fate \<Rightarrow> int" where
  "wait_status f = (case f of Exited c \<Rightarrow> (c mod 256) * 256 | Killed n \<Rightarrow> n)"

text \<open>
  What the child does: \<open>silent\<close> is the result of the redirections of a build with \<^verbatim>\<open>SILENT\<close> (\<open>Some\<close> for a failing call); writing
  to the null page kills it unless the page is mapped.  A \<^verbatim>\<open>printf\<close> of the null pointer then prints
  the text \<open>shown\<close>, the string stored there or the library's \<^verbatim>\<open>(null)\<close>.
\<close>

definition null_child :: "(int \<times> string) option \<Rightarrow> bool \<Rightarrow> string \<Rightarrow> event list \<times> fate" where
  "null_child redirect_fails mapped shown =
     (case redirect_fails of
        Some (e, m) \<Rightarrow> ([Error e m], Exited EXIT_FAILURE)
      | None \<Rightarrow> if \<not> mapped then ([], Killed SIGSEGV) else ([Stdout (shown @ [nl])], Exited EXIT_SUCCESS))"

definition report_child :: "int \<Rightarrow> event" where
  "report_child status =
     (if WIFSIGNALED status \<and> WTERMSIG status = SIGSEGV then Stdout (''child process died with SIGSEGV'' @ [nl])
      else if \<not> WIFEXITED status \<or> WEXITSTATUS status \<noteq> 0
        then Stdout (''child process terminated with error status '' @ show_int status @ [nl])
      else Stdout (''child process finished successfully'' @ [nl]))"

text \<open>\<open>sys\<close>: the result of \<^verbatim>\<open>fork\<close> and of \<^verbatim>\<open>waitpid\<close>, error numbers or nothing.\<close>

definition test_null :: "int + int \<Rightarrow> int option \<Rightarrow> event list \<times> fate \<Rightarrow> event list \<times> int option" where
  "test_null fork_result wait_fails child =
     (case fork_result of
        Inl e \<Rightarrow> ([Error e ''fork''], Some EXIT_FAILURE)
      | Inr pid \<Rightarrow>
          (case wait_fails of
             Some e \<Rightarrow> (fst child @ [Error e (''wait '' @ show_int pid)], Some EXIT_FAILURE)
           | None \<Rightarrow> (fst child @ [report_child (wait_status (snd child))], None)))"

text \<open>\<^verbatim>\<open>main\<close>: the test, a mapping of the null page that the system may refuse, and the test again.\<close>

definition mmap0_main :: "(int + int) \<times> int option \<Rightarrow> (int + int) \<times> int option \<Rightarrow> (int \<times> string) option \<Rightarrow> int option \<Rightarrow> string \<Rightarrow> event list \<times> int" where
  "mmap0_main sys1 sys2 redirect_fails mmap_fails shown =
     (case test_null (fst sys1) (snd sys1) (null_child redirect_fails False shown) of
        (out1, Some c) \<Rightarrow> (out1, c)
      | (out1, None) \<Rightarrow>
          (case mmap_fails of
             Some e \<Rightarrow> (out1 @ [Error e ''mmap''], EXIT_FAILURE)
           | None \<Rightarrow>
               (case test_null (fst sys2) (snd sys2) (null_child redirect_fails True shown) of
                  (out2, Some c) \<Rightarrow> (out1 @ out2, c)
                | (out2, None) \<Rightarrow> (out1 @ out2, EXIT_SUCCESS))))"

text \<open>
  The report of \<^verbatim>\<open>test_null\<close> is right for every way a child can end: killed by a segmentation fault, killed by
  another signal or with a status other than 0, or successful.
\<close>

theorem report_child_correct:
  "0 < n \<Longrightarrow> n < 127 \<Longrightarrow> report_child (wait_status (Killed n)) =
     Stdout (if n = SIGSEGV then ''child process died with SIGSEGV'' @ [nl]
             else ''child process terminated with error status '' @ show_int n @ [nl])"
  and "report_child (wait_status (Exited c)) =
     Stdout (if c mod 256 = 0 then ''child process finished successfully'' @ [nl]
             else ''child process terminated with error status '' @ show_int (c mod 256 * 256) @ [nl])"
  by (auto simp: report_child_def wait_status_def WIFSIGNALED_def WTERMSIG_def WIFEXITED_def WEXITSTATUS_def SIGSEGV_def)

theorem mmap0_outcome:
  "mmap0_main (Inr p, None) (Inr q, None) None mmap_fails shown =
     (Stdout (''child process died with SIGSEGV'' @ [nl]) #
        (case mmap_fails of Some e \<Rightarrow> [Error e ''mmap'']
         | None \<Rightarrow> [Stdout (shown @ [nl]), Stdout (''child process finished successfully'' @ [nl])]),
      if mmap_fails = None then EXIT_SUCCESS else EXIT_FAILURE)"
  by (auto simp: mmap0_main_def test_null_def null_child_def report_child_def wait_status_def WIFSIGNALED_def WTERMSIG_def WIFEXITED_def
      WEXITSTATUS_def SIGSEGV_def EXIT_SUCCESS_def split: option.splits)

end
