(* ===== verification/Thread_Ids.thy ===== *)
theory Thread_Ids
  imports C_Prelude
begin

text \<open>
  \<^verbatim>\<open>ex08/threads/threads.c\<close> and \<^verbatim>\<open>ex08/gettid/gettid.c\<close>: threads that print their numbers while \<^verbatim>\<open>main\<close> creates, joins (or not) and
  ends.  Each line is tagged with the thread that prints it (\<open>None\<close>: \<^verbatim>\<open>main\<close>).  Joining an existing thread
  does not fail.
\<close>

section \<open>The threads\<close>

record ids =
  the_pid :: int
  tid_of :: "nat option \<Rightarrow> int"
  self_of :: "nat option \<Rightarrow> nat"
  on_glibc :: bool

text \<open>The lines of \<^verbatim>\<open>thread_run\<close> and the first lines of \<^verbatim>\<open>main\<close>, which differ in the label.\<close>

definition id_lines :: "ids \<Rightarrow> string \<Rightarrow> nat option \<Rightarrow> string list" where
  "id_lines env label who =
     [label @ ''tid='' @ show_int (tid_of env who), label @ ''pid='' @ show_int (the_pid env)] @
     (if on_glibc env then [label @ ''ptd='' @ show_nat (self_of env who)] else [])"

definition thread_run :: "ids \<Rightarrow> nat \<Rightarrow> string list" where
  "thread_run env i = id_lines env ''(thread) '' (Some i)"

definition main_lines :: "ids \<Rightarrow> string list" where
  "main_lines env = id_lines env ''(main)   '' None"

section \<open>main and its threads\<close>

text \<open>What \<^verbatim>\<open>main\<close> prints after creating, after joining and at the end; \<open>joins\<close> is \<^verbatim>\<open>ENABLE_JOIN\<close>.\<close>

record creator =
  how_many :: nat
  joins :: bool
  say_created :: "string option"
  say_joined :: "string option"
  say_end :: "string option"

datatype crowd_pc = Creating nat | Joining nat | Ending | Left int

record crowd =
  main_at :: crowd_pc
  progress :: "nat list"
  crowd_out :: "(nat option \<times> string) list"
  crowd_err :: "event list"

definition say :: "string option \<Rightarrow> (nat option \<times> string) list" where
  "say t = (case t of None \<Rightarrow> [] | Some x \<Rightarrow> [(None, x)])"

inductive crowd_step :: "ids \<Rightarrow> creator \<Rightarrow> crowd \<Rightarrow> crowd \<Rightarrow> bool" for env p where
  create: "main_at s = Creating i \<Longrightarrow> i < how_many p \<Longrightarrow>
    crowd_step env p s (s\<lparr>main_at := Creating (Suc i), progress := progress s @ [0]\<rparr>)"
| create_fails: "main_at s = Creating i \<Longrightarrow> i < how_many p \<Longrightarrow> perrno \<noteq> 0 \<Longrightarrow>
    crowd_step env p s (s\<lparr>main_at := Left EXIT_FAILURE, crowd_err := crowd_err s @ [Error perrno ''pthread_create'']\<rparr>)"
| created: "main_at s = Creating (how_many p) \<Longrightarrow>
    crowd_step env p s (s\<lparr>main_at := (if joins p then Joining 0 else Ending), crowd_out := crowd_out s @ say (say_created p)\<rparr>)"
| join: "main_at s = Joining i \<Longrightarrow> i < how_many p \<Longrightarrow> progress s ! i = length (thread_run env i) \<Longrightarrow>
    crowd_step env p s (s\<lparr>main_at := Joining (Suc i)\<rparr>)"
| joined: "main_at s = Joining (how_many p) \<Longrightarrow>
    crowd_step env p s (s\<lparr>main_at := Ending, crowd_out := crowd_out s @ say (say_joined p)\<rparr>)"
| ending: "main_at s = Ending \<Longrightarrow>
    crowd_step env p s (s\<lparr>main_at := Left EXIT_SUCCESS, crowd_out := crowd_out s @ say (say_end p)\<rparr>)"
| thread: "i < length (progress s) \<Longrightarrow> progress s ! i < length (thread_run env i) \<Longrightarrow> (\<And>c. main_at s \<noteq> Left c) \<Longrightarrow>
    crowd_step env p s (s\<lparr>progress := (progress s)[i := Suc (progress s ! i)],
      crowd_out := crowd_out s @ [(Some i, thread_run env i ! (progress s ! i))]\<rparr>)"

definition crowd_init :: "ids \<Rightarrow> crowd" where
  "crowd_init env = \<lparr>main_at = Creating 0, progress = [], crowd_out = map (Pair None) (main_lines env), crowd_err = []\<rparr>"

text \<open>\<^verbatim>\<open>threads.c\<close>: the argument, the memory for the thread numbers, and the loops.\<close>

definition threads_main :: "int option \<Rightarrow> bool \<Rightarrow> ids \<Rightarrow> string list \<Rightarrow> (event list \<times> int) + (creator \<times> crowd)" where
  "threads_main malloc_fails enable_join env args =
     (case args of
        [a] \<Rightarrow>
          (let (v, ptr, _) = strtol 10 a; thread_num = to_int v
           in if ptr = a \<or> ptr \<noteq> [] \<or> thread_num \<le> 0 then Inl ([Stderr (''Expected positive number!'' @ [nl])], EXIT_FAILURE)
              else case malloc_fails of
                Some e \<Rightarrow> Inl (map (\<lambda>l. Stdout (l @ [nl])) (main_lines env) @ [Error e ''malloc''], EXIT_FAILURE)
              | None \<Rightarrow> Inr (\<lparr>how_many = nat thread_num, joins = enable_join, say_created = None,
                              say_joined = Some ''Threads joined'', say_end = Some ''Main thread ending!''\<rparr>, crowd_init env))
      | _ \<Rightarrow> Inl ([Stderr (''Wrong amount of program arguments!'' @ [nl])], EXIT_FAILURE))"

text \<open>\<^verbatim>\<open>gettid.c\<close>: one thread, always joined.\<close>

definition gettid_main :: "ids \<Rightarrow> creator \<times> crowd" where
  "gettid_main env = (\<lparr>how_many = 1, joins = True, say_created = Some ''thread created'',
     say_joined = Some ''thread joined'', say_end = None\<rparr>, crowd_init env)"

section \<open>The lines of every thread\<close>

definition lines_of :: "nat \<Rightarrow> crowd \<Rightarrow> string list" where
  "lines_of i s = map snd (filter (\<lambda>l. fst l = Some i) (crowd_out s))"

definition crowd_inv :: "ids \<Rightarrow> creator \<Rightarrow> crowd \<Rightarrow> bool" where
  "crowd_inv env p s \<longleftrightarrow>
     (\<forall>i. lines_of i s = (if i < length (progress s) then take (progress s ! i) (thread_run env i) else [])) \<and>
     (\<forall>i < length (progress s). progress s ! i \<le> length (thread_run env i)) \<and>
     (case main_at s of Creating i \<Rightarrow> length (progress s) = i \<and> i \<le> how_many p
      | Joining k \<Rightarrow> length (progress s) = how_many p \<and> k \<le> how_many p \<and> joins p \<and> (\<forall>i < k. progress s ! i = length (thread_run env i))
      | Ending \<Rightarrow> length (progress s) = how_many p \<and> (joins p \<longrightarrow> (\<forall>i < how_many p. progress s ! i = length (thread_run env i)))
      | Left c \<Rightarrow> c = EXIT_SUCCESS \<longrightarrow> length (progress s) = how_many p \<and> (joins p \<longrightarrow> (\<forall>i < how_many p. progress s ! i = length (thread_run env i))))"

lemma lines_say [simp]: "filter (\<lambda>l. fst l = Some i) (say t) = []"
  by (simp add: say_def split: option.splits)

lemma lines_main [simp]: "filter (\<lambda>l. fst l = Some i) (map (Pair None) xs) = []"
  by (induction xs) auto

interpretation crowds: invariant_system "\<lambda>s. s = crowd_init env" "crowd_step env p" "crowd_inv env p" for env p
proof (unfold_locales, goal_cases)
  case (1 s)
  then show ?case by (simp add: crowd_inv_def crowd_init_def lines_of_def)
next
  case (2 s t)
  from 2(2,1) show ?case
  proof (cases rule: crowd_step.cases)
    case (thread i)
    then show ?thesis using 2(1)
      by (auto simp: crowd_inv_def lines_of_def nth_list_update take_Suc_conv_app_nth split: crowd_pc.splits)
  qed (auto simp: crowd_inv_def lines_of_def nth_append less_Suc_eq split: crowd_pc.splits if_splits)
qed

text \<open>
  Whatever the scheduling, every thread prints a prefix of its lines, in order; and in a program that joins its threads (\<^verbatim>\<open>gettid\<close>, and
  \<^verbatim>\<open>threads\<close> built with \<^verbatim>\<open>ENABLE_JOIN\<close>) every thread has printed all of them when \<^verbatim>\<open>main\<close> returns.
\<close>

theorem threads_complete:
  assumes "reaches (crowd_step env p) (crowd_init env) s"
  shows "(\<exists>k. lines_of i s = take k (thread_run env i)) \<and>
    (joins p \<longrightarrow> main_at s = Left EXIT_SUCCESS \<longrightarrow> i < how_many p \<longrightarrow> lines_of i s = thread_run env i)"
proof -
  have inv: "crowd_inv env p s" by (rule crowds.inv_reachable [OF refl assms])
  have "\<exists>k. lines_of i s = take k (thread_run env i)"
    using inv by (cases "i < length (progress s)") (auto simp: crowd_inv_def intro: exI [of _ 0])
  then show ?thesis using inv by (auto simp: crowd_inv_def)
qed

definition demo_ids :: ids where
  "demo_ids = \<lparr>the_pid = 10, tid_of = (\<lambda>w. case w of None \<Rightarrow> 10 | Some i \<Rightarrow> 11 + int i), self_of = (\<lambda>_. 0), on_glibc = False\<rparr>"

lemma demo_lines: "thread_run demo_ids i = [''(thread) tid='' @ show_int (11 + int i), ''(thread) pid='' @ show_int 10]"
  by (simp add: thread_run_def id_lines_def demo_ids_def)

theorem threads_complete_witness:
  "\<exists>s. reaches (crowd_step demo_ids (fst (gettid_main demo_ids))) (crowd_init demo_ids) s \<and> main_at s = Left EXIT_SUCCESS \<and>
     lines_of 0 s = thread_run demo_ids 0"
proof -
  let ?p = "fst (gettid_main demo_ids)" and ?m = "map (Pair None) (main_lines demo_ids)"
  let ?st = "crowd_step demo_ids ?p" and ?l = "thread_run demo_ids 0"
  let ?c = "\<lambda>a pr out. \<lparr>main_at = a, progress = pr, crowd_out = ?m @ out, crowd_err = []\<rparr>"
  let ?u = "(Some 0, ?l ! 0)" and ?v = "(Some 0, ?l ! 1)" and ?t = "(None :: nat option, ''thread created'')" and ?j = "(None :: nat option, ''thread joined'')"
  have p: "how_many ?p = 1" "joins ?p" "say_created ?p = Some ''thread created''" "say_joined ?p = Some ''thread joined''" "say_end ?p = None"
    by (simp_all add: gettid_main_def)
  have 0: "reaches ?st (crowd_init demo_ids) (?c (Creating 0) [] [])"
    using reaches_refl [of ?st "crowd_init demo_ids"] by (simp add: crowd_init_def)
  have 1: "reaches ?st (crowd_init demo_ids) (?c (Creating 1) [0] [])"
    using reaches_step [OF 0 crowd_step.create [of _ 0]] p by simp
  have 2: "reaches ?st (crowd_init demo_ids) (?c (Creating 1) [1] [?u])"
    using reaches_step [OF 1 crowd_step.thread [of 0]] by (simp add: demo_lines)
  have 3: "reaches ?st (crowd_init demo_ids) (?c (Creating 1) [2] [?u, ?v])"
    using reaches_step [OF 2 crowd_step.thread [of 0]] by (simp add: demo_lines numeral_2_eq_2)
  have 4: "reaches ?st (crowd_init demo_ids) (?c (Joining 0) [2] [?u, ?v, ?t])"
    using reaches_step [OF 3 crowd_step.created] p by (simp add: say_def)
  have 5: "reaches ?st (crowd_init demo_ids) (?c (Joining 1) [2] [?u, ?v, ?t])"
    using reaches_step [OF 4 crowd_step.join [of _ 0]] p by (simp add: demo_lines)
  have 6: "reaches ?st (crowd_init demo_ids) (?c Ending [2] [?u, ?v, ?t, ?j])"
    using reaches_step [OF 5 crowd_step.joined] p by (simp add: say_def)
  have 7: "reaches ?st (crowd_init demo_ids) (?c (Left EXIT_SUCCESS) [2] [?u, ?v, ?t, ?j])"
    using reaches_step [OF 6 crowd_step.ending] p by (simp add: say_def)
  from threads_complete [OF 7, of 0] 7 p show ?thesis by auto
qed

text \<open>Without joining, \<^verbatim>\<open>main\<close> may end the process before any thread has printed anything.\<close>

lemma unjoined_silent:
  assumes "\<not> joins p"
  shows "\<exists>s. reaches (crowd_step env p) (crowd_init env) s \<and> main_at s = Left EXIT_SUCCESS \<and> (\<forall>i. lines_of i s = [])"
proof -
  have create: "reaches (crowd_step env p) (crowd_init env) ((crowd_init env)\<lparr>main_at := Creating n, progress := replicate n 0\<rparr>)"
    if "n \<le> how_many p" for n
    using that
  proof (induction n)
    case 0
    show ?case using reaches_refl [of "crowd_step env p" "crowd_init env"] by (simp add: crowd_init_def)
  next
    case (Suc n)
    then show ?case using reaches_step [OF Suc.IH crowd_step.create [of _ n]] by (simp add: replicate_append_same)
  qed
  let ?a = "(crowd_init env)\<lparr>main_at := Creating (how_many p), progress := replicate (how_many p) 0\<rparr>"
  let ?b = "?a\<lparr>main_at := Ending, crowd_out := crowd_out ?a @ say (say_created p)\<rparr>"
  let ?c = "?b\<lparr>main_at := Left EXIT_SUCCESS, crowd_out := crowd_out ?b @ say (say_end p)\<rparr>"
  have "crowd_step env p ?a ?b" using crowd_step.created [of ?a p env] assms by simp
  moreover have "crowd_step env p ?b ?c" using crowd_step.ending [of ?b env p] by simp
  ultimately have "reaches (crowd_step env p) (crowd_init env) ?c"
    using reaches_step [OF reaches_step [OF create [OF order.refl]]] by blast
  then show ?thesis by (intro exI [of _ ?c]) (simp add: lines_of_def crowd_init_def)
qed

text \<open>An argument beyond the range of \<^verbatim>\<open>int\<close> is cut down to its low 32 bits: \<open>2 ^ 32 + 1\<close> starts one thread.\<close>

lemma threads_truncates: "map_sum id (how_many \<circ> fst) (threads_main None True env [''4294967297'']) = Inr 1"
  by (simp add: threads_main_def strtol_def strto_scan_def take_sign_def skip_0x_def is_space_def is_digit_def digit_val_def digits_value_def
      LONG_MAX_def LONG_MIN_def to_int_def)

end
