(* ===== verification/Library_Calls.thy ===== *)
theory Library_Calls
  imports C_Prelude "HOL-Library.Multiset"
begin

text \<open>
  Programs that mostly call a library: \<^verbatim>\<open>ex02/rtmath\<close> (a function of a library chosen at run time), \<^verbatim>\<open>ex02/datetime\<close> (a replacement of
  \<^verbatim>\<open>localtime\<close>), \<^verbatim>\<open>ex04/argsort\<close> and \<^verbatim>\<open>ex04/hello\<close>.  The libraries are parameters.
\<close>

section \<open>rtmath.c\<close>

text \<open>
  The dynamic loader, with its error messages, and the input and output of floating-point numbers (of a type \<open>'d\<close>): \<open>scan_double\<close>
  is \<^verbatim>\<open>scanf("%lf")\<close>, \<open>None\<close> unless it converts a number; \<open>show_double\<close> is \<^verbatim>\<open>%lf\<close>.
\<close>

record ('h, 'd) loader =
  dlopen :: "string \<Rightarrow> 'h option"
  dlsym :: "'h \<Rightarrow> string \<Rightarrow> ('d \<Rightarrow> 'd) option"
  dlerror_open :: "string \<Rightarrow> string"
  dlerror_sym :: "'h \<Rightarrow> string \<Rightarrow> string"
  scan_double :: "string \<Rightarrow> 'd option"
  show_double :: "'d \<Rightarrow> string"

datatype 'h lib_event = Opened 'h | Closed 'h

definition rtmath_help :: "string \<Rightarrow> event" where
  "rtmath_help argv0 = Stdout (''usage: '' @ argv0 @ '' LIBRARY [FUNCTION]'' @ [nl, nl] @
     ''Opens the given math library and symbol (log10 by default)'' @ [nl] @
     ''then asks for a number and returns the output.'' @ [nl, nl] @
     ''You can locate math libraries on your system by running'' @ [nl] @
     ''    locate libm.so'' @ [nl])"

text \<open>The events, what happened to the library, and the status; both \<^verbatim>\<open>goto\<close> labels are followed.\<close>

definition rtmath_main :: "('h, 'd) loader \<Rightarrow> string \<Rightarrow> string list \<Rightarrow> string \<Rightarrow> event list \<times> 'h lib_event list \<times> int" where
  "rtmath_main ld argv0 args stdin_text =
     (if length args < 1 \<or> length args > 2 then ([rtmath_help argv0], [], EXIT_FAILURE)
      else let libname = args ! 0; symbol = (if length args = 2 then args ! 1 else ''log10'')
      in case dlopen ld libname of
           None \<Rightarrow> ([Stderr (argv0 @ '': dlopen: '' @ dlerror_open ld libname @ [nl])], [], EXIT_FAILURE)
         | Some h \<Rightarrow>
             (case dlsym ld h symbol of
                None \<Rightarrow> ([Stderr (argv0 @ '': dlsym: '' @ dlerror_sym ld h symbol @ [nl])], [Opened h, Closed h], EXIT_FAILURE)
              | Some f \<Rightarrow>
                  (case scan_double ld stdin_text of
                     None \<Rightarrow> ([Stdout (symbol @ ''> ''), Stderr (''invalid input'' @ [nl])], [Opened h, Closed h], EXIT_FAILURE)
                   | Some input \<Rightarrow>
                       ([Stdout (symbol @ ''> ''),
                         Stdout (symbol @ ''('' @ show_double ld input @ '') = '' @ show_double ld (f input) @ [nl])],
                        [Opened h, Closed h], EXIT_SUCCESS))))"

text \<open>
  \<^verbatim>\<open>rtmath\<close> closes a library exactly when it opened it, whatever goes wrong, and succeeds exactly if the library opens, has the
  function and the input is a number; then it prints the value of the function.
\<close>

theorem rtmath_resources:
  assumes "1 \<le> length args" "length args \<le> 2"
  shows "case rtmath_main ld argv0 args stdin_text of (es, libs, status) \<Rightarrow>
    libs = (case dlopen ld (args ! 0) of None \<Rightarrow> [] | Some h \<Rightarrow> [Opened h, Closed h]) \<and>
    (status = EXIT_SUCCESS \<longleftrightarrow> (\<exists>h f x. dlopen ld (args ! 0) = Some h \<and>
       dlsym ld h (if length args = 2 then args ! 1 else ''log10'') = Some f \<and> scan_double ld stdin_text = Some x \<and>
       (\<exists>sym. last es = Stdout (sym @ ''('' @ show_double ld x @ '') = '' @ show_double ld (f x) @ [nl]))))"
  using assms by (auto simp: rtmath_main_def Let_def split: option.splits)

definition demo_loader :: "(unit, nat) loader" where
  "demo_loader = \<lparr>dlopen = (\<lambda>n. if n = ''libm.so'' then Some () else None), dlsym = (\<lambda>_ s. if s = ''log10'' then Some (\<lambda>x. x div 10) else None),
     dlerror_open = (\<lambda>_. ''no such file''), dlerror_sym = (\<lambda>_ _. ''undefined symbol''),
     scan_double = (\<lambda>t. if t = [] then None else Some (length t)), show_double = show_nat\<rparr>"

theorem rtmath_resources_witness:
  "snd (rtmath_main demo_loader ''rtmath'' [''libm.so''] ''100'') = ([Opened (), Closed ()], EXIT_SUCCESS)"
  using rtmath_resources [of "[''libm.so'']" demo_loader "''rtmath''" "''100''"]
  by (auto simp: rtmath_main_def demo_loader_def)

section \<open>loctime.c\<close>

text \<open>The replacement returns a number of seconds where the caller expects an address; the reentrant one returns \<^verbatim>\<open>NULL\<close>.\<close>

definition BIG_NUM :: int where "BIG_NUM = 1000000"

definition localtime :: "int \<Rightarrow> size_t" where
  "localtime now = word_of_int (now - BIG_NUM)"

definition localtime_r :: "int \<Rightarrow> size_t" where
  "localtime_r timer = 0"

definition date_main :: int where "date_main = EXIT_SUCCESS"

section \<open>argsort.c\<close>

text \<open>An argument is its address and its text.\<close>

type_synonym argument = "nat \<times> string"

definition print_argv :: "argument list \<Rightarrow> event list" where
  "print_argv argv = map (\<lambda>a. Stdout (snd a @ '' '')) argv @ [Stdout [nl]]"

text \<open>
  The function given to \<^verbatim>\<open>qsort\<close> gets the addresses of two elements of \<^verbatim>\<open>argv\<close> and reads, as if they were texts, the bytes of the
  pointers stored there, up to the first zero byte; in the locale of the program they compare byte by byte.
\<close>

definition pointer_bytes :: "nat \<Rightarrow> nat list" where
  "pointer_bytes a = takeWhile (\<lambda>b. b \<noteq> 0) (map (\<lambda>k. a div 256 ^ k mod 256) [0..<8])"

fun strcoll :: "nat list \<Rightarrow> nat list \<Rightarrow> int" where
  "strcoll [] [] = 0"
| "strcoll [] (y # ys) = - 1"
| "strcoll (x # xs) [] = 1"
| "strcoll (x # xs) (y # ys) = (if x < y then - 1 else if y < x then 1 else strcoll xs ys)"

definition compare :: "argument \<Rightarrow> argument \<Rightarrow> int" where
  "compare p1 p2 = strcoll (pointer_bytes (fst p2)) (pointer_bytes (fst p1))"

definition argsort_main :: "((argument \<Rightarrow> argument \<Rightarrow> int) \<Rightarrow> argument list \<Rightarrow> argument list) \<Rightarrow> argument list \<Rightarrow> event list \<times> int" where
  "argsort_main qsort argv = (print_argv argv @ print_argv (qsort compare argv), EXIT_SUCCESS)"

text \<open>The contract of \<^verbatim>\<open>qsort\<close>: it rearranges the elements into an order that the function accepts.\<close>

definition qsort_ok :: "((argument \<Rightarrow> argument \<Rightarrow> int) \<Rightarrow> argument list \<Rightarrow> argument list) \<Rightarrow> argument list \<Rightarrow> bool" where
  "qsort_ok qsort argv \<longleftrightarrow> mset (qsort compare argv) = mset argv \<and> sorted_wrt (\<lambda>p q. compare p q \<le> 0) (qsort compare argv)"

lemma strcoll_antisym: "strcoll xs ys = - strcoll ys xs"
  by (induction xs ys rule: strcoll.induct) auto

lemma strcoll_zero: "strcoll xs ys = 0 \<longleftrightarrow> xs = ys"
  by (induction xs ys rule: strcoll.induct) auto

text \<open>
  \<^verbatim>\<open>argsort\<close> prints its arguments twice, the second time rearranged, but not by their texts: of two arguments whose addresses
  differ in their (non-zero) bytes, the one whose address bytes are larger comes first, whatever they say.
\<close>

theorem argsort_by_address:
  assumes "qsort_ok qsort argv"
  shows "\<exists>sorted. argsort_main qsort argv = (print_argv argv @ print_argv sorted, EXIT_SUCCESS) \<and> mset sorted = mset argv \<and>
    (\<forall>i j. i < j \<longrightarrow> j < length sorted \<longrightarrow>
       strcoll (pointer_bytes (fst (sorted ! i))) (pointer_bytes (fst (sorted ! j))) \<ge> 0)"
proof -
  have "strcoll (pointer_bytes (fst (qsort compare argv ! i))) (pointer_bytes (fst (qsort compare argv ! j))) \<ge> 0"
    if "i < j" "j < length (qsort compare argv)" for i j
    using assms that strcoll_antisym [of "pointer_bytes (fst (qsort compare argv ! i))" "pointer_bytes (fst (qsort compare argv ! j))"]
    by (auto simp: qsort_ok_def sorted_wrt_iff_nth_less compare_def)
  then show ?thesis using assms by (intro exI [of _ "qsort compare argv"]) (auto simp: argsort_main_def qsort_ok_def)
qed

theorem argsort_by_address_witness:
  "\<exists>sorted. argsort_main (\<lambda>_. rev) [(16, ''a''), (17, ''b'')] = (print_argv [(16, ''a''), (17, ''b'')] @ print_argv sorted, EXIT_SUCCESS) \<and>
     mset sorted = mset [(16, ''a''), (17, ''b'')]"
proof -
  have "qsort_ok (\<lambda>_. rev) [(16, ''a''), (17, ''b'')]"
    by (simp add: qsort_ok_def compare_def pointer_bytes_def upt_rec)
  from argsort_by_address [OF this] show ?thesis by blast
qed

section \<open>hello.c\<close>

text \<open>The calls of the locale library, \<open>None\<close> for success, and the translation it finds.\<close>

definition hello_main :: "int option \<Rightarrow> int option \<Rightarrow> (string \<Rightarrow> string) \<Rightarrow> event list \<times> int" where
  "hello_main setlocale_fails domain_fails gettext =
     (case setlocale_fails of
        Some e \<Rightarrow> ([Error e ''cannot set locale''], EXIT_FAILURE)
      | None \<Rightarrow>
          (case domain_fails of
             Some e \<Rightarrow> ([Error e ''locale domain setup failed''], EXIT_FAILURE)
           | None \<Rightarrow> ([Stdout (gettext ''Hello, world.'' @ [nl])], EXIT_SUCCESS)))"

end
