(* ===== verification/Unfinished.thy ===== *)
theory Unfinished
  imports Getopt
begin

text \<open>
  The two programs of the repository that do not compile: \<^verbatim>\<open>ex11/flock/flock.c\<close> has a blank inside an identifier (the last operand of the
  mode given to \<^verbatim>\<open>open\<close>) and \<^verbatim>\<open>ex12/nettime/nettime.c\<close> a stray \<^verbatim>\<open>if\<close> in front of a conditional expression.  They are modelled
  with these two slips removed: the mode, which only matters for a new file, is no part of the
  model, and the conditional expression is read without the \<^verbatim>\<open>if\<close>.
\<close>

section \<open>flock.c\<close>

datatype lock_opt = read_lock | write_lock | nonblock_lock

record flock_options =
  write_err :: bool
  unlock_exec :: bool
  lock_type :: lock_opt

definition flock_option :: "flock_options \<Rightarrow> opt_event \<Rightarrow> int + flock_options" where
  "flock_option o1 e =
     (case e of
        Opt ch arg \<Rightarrow>
          if ch = CHR ''v'' then Inr (o1\<lparr>write_err := True\<rparr>)
          else if ch = CHR ''r'' then Inr (o1\<lparr>lock_type := read_lock\<rparr>)
          else if ch = CHR ''w'' then Inr (o1\<lparr>lock_type := write_lock\<rparr>)
          else if ch = CHR ''n'' then Inr (o1\<lparr>lock_type := nonblock_lock\<rparr>)
          else if ch = CHR ''o'' then Inr (o1\<lparr>unlock_exec := True\<rparr>)
          else Inl EXIT_FAILURE
      | BadOpt \<Rightarrow> Inl EXIT_FAILURE)"

text \<open>The flags of \<^verbatim>\<open>open\<close> that matter: reading, writing, may_create, closing at \<^verbatim>\<open>exec\<close>.\<close>

record open_flags =
  for_reading :: bool
  for_writing :: bool
  may_create :: bool
  cloexec :: bool

definition flags_for :: "flock_options \<Rightarrow> open_flags" where
  "flags_for opts = (case lock_type opts of
      read_lock \<Rightarrow> \<lparr>for_reading = True, for_writing = False, may_create = False, cloexec = unlock_exec opts\<rparr>
    | write_lock \<Rightarrow> \<lparr>for_reading = False, for_writing = True, may_create = True, cloexec = unlock_exec opts\<rparr>
    | nonblock_lock \<Rightarrow> \<lparr>for_reading = True, for_writing = True, may_create = False, cloexec = unlock_exec opts\<rparr>)"

text \<open>
  Record locks of POSIX: \<open>others\<close> are the locks that other processes hold on the file (\<open>True\<close>: a write lock).  The values of the enumeration
  are those of \<^verbatim>\<open>F_RDLCK\<close>, \<^verbatim>\<open>F_WRLCK\<close> and \<^verbatim>\<open>F_UNLCK\<close>: \<open>nonblock_lock\<close> releases.  The result is an error number or the lock then held.
\<close>

definition EAGAIN :: int where "EAGAIN = 11"
definition EBADF_lock :: int where "EBADF_lock = 9"
definition EFAULT :: int where "EFAULT = 14"

definition setlk :: "bool list \<Rightarrow> open_flags \<Rightarrow> lock_opt \<Rightarrow> int + bool option" where
  "setlk others flags t = (case t of
      read_lock \<Rightarrow> if \<not> for_reading flags then Inl EBADF_lock else if True \<in> set others then Inl EAGAIN else Inr (Some False)
    | write_lock \<Rightarrow> if \<not> for_writing flags then Inl EBADF_lock else if others \<noteq> [] then Inl EAGAIN else Inr (Some True)
    | nonblock_lock \<Rightarrow> Inr None)"

record flock_env =
  open_fails :: "string \<Rightarrow> open_flags \<Rightarrow> int option"
  other_locks :: "string \<Rightarrow> bool list"
  exec_fails :: "string \<Rightarrow> int option"

text \<open>\<open>Runs\<close>: the program executed in place of this one, its arguments, and the lock still held then.\<close>

datatype flock_result = Runs string "string list" "bool option" | Quits "event list" int | Crashes fault

definition locker :: "flock_env \<Rightarrow> flock_options \<Rightarrow> string list \<Rightarrow> flock_result" where
  "locker env opts args =
     (case args of
        [] \<Rightarrow> Quits [Error EFAULT ''open((null))''] 1
      | file # _ \<Rightarrow>
          let flags = flags_for opts in
          (case open_fails env file flags of
             Some e \<Rightarrow> Quits [Error e (''open('' @ file @ '')'')] 1
           | None \<Rightarrow>
               (case setlk (other_locks env file) flags (lock_type opts) of
                  Inl e \<Rightarrow> Quits [Error e ''fnctl''] 1
                | Inr held \<Rightarrow>
                    if length args < 2 then Crashes OutOfBounds
                    else if length args = 2 then Quits [Error EFAULT ''execvp''] EXIT_FAILURE
                    else (case exec_fails env (args ! 2) of
                            Some e \<Rightarrow> Quits [Error e ''execvp''] EXIT_FAILURE
                          | None \<Rightarrow> Runs (args ! 2) (drop 2 args) (if cloexec flags then None else held)))))"

definition flock_main :: "flock_env \<Rightarrow> string list \<Rightarrow> flock_result" where
  "flock_main env args =
     (let (es, operands) = getopt_all ''vrwno'' None args
      in case run_opts flock_option \<lparr>write_err = False, unlock_exec = False, lock_type = write_lock\<rparr> es of
           Inl code \<Rightarrow> Quits [Stderr ''Wrong arguments!''] code
         | Inr opts \<Rightarrow> locker env opts operands)"

text \<open>
  What a program started by \<^verbatim>\<open>flock\<close> may rely on: with \<^verbatim>\<open>-r\<close> there was no writer, with \<^verbatim>\<open>-w\<close> (the default) nobody else held a lock,
  and it holds the lock unless \<^verbatim>\<open>-o\<close> was given; with \<^verbatim>\<open>-n\<close> it runs without any lock, whoever holds the file.
  The program is the third operand, not the second one.
\<close>

theorem flock_locks:
  assumes "locker env opts args = Runs prog argv held"
  shows "prog = args ! 2 \<and> argv = drop 2 args \<and>
    (case lock_type opts of
       read_lock \<Rightarrow> True \<notin> set (other_locks env (args ! 0)) \<and> held = (if unlock_exec opts then None else Some False)
     | write_lock \<Rightarrow> other_locks env (args ! 0) = [] \<and> held = (if unlock_exec opts then None else Some True)
     | nonblock_lock \<Rightarrow> held = None)"
  using assms
  by (cases "lock_type opts")
    (auto simp: locker_def setlk_def flags_for_def Let_def split: list.splits option.splits sum.splits if_splits)

definition demo_flock :: flock_env where
  "demo_flock = \<lparr>open_fails = (\<lambda>_ _. None), other_locks = (\<lambda>_. [True]), exec_fails = (\<lambda>_. None)\<rparr>"

theorem flock_locks_witness:
  "locker demo_flock \<lparr>write_err = False, unlock_exec = False, lock_type = nonblock_lock\<rparr> [''f'', ''sleep'', ''ls''] = Runs ''ls'' [''ls''] None"
proof -
  have "locker demo_flock \<lparr>write_err = False, unlock_exec = False, lock_type = nonblock_lock\<rparr> [''f'', ''sleep'', ''ls''] = Runs ''ls'' [''ls''] None"
    by (simp add: locker_def setlk_def flags_for_def demo_flock_def)
  with flock_locks [OF this] show ?thesis by simp
qed

text \<open>A file that somebody else has locked is never waited for: the program gives up.\<close>

lemma flock_does_not_wait:
  assumes "others \<noteq> []" "for_writing flags"
  shows "setlk others flags write_lock = Inl EAGAIN"
  using assms by (simp add: setlk_def)

section \<open>nettime.c\<close>

text \<open>
  The addresses that \<^verbatim>\<open>getaddrinfo\<close> found, each with the socket number or the failure of \<^verbatim>\<open>socket\<close> and the success of \<^verbatim>\<open>connect\<close>.
  After the connection the list is freed, and every path then accesses its current element: that is a
  fault unless the freed block still happens to hold it.
\<close>

datatype nettime_result = Returned int | UsesFreed | Alarmed | Blocked

text \<open>
  The other side: the results of the two calls of \<^verbatim>\<open>sendto\<close> and of \<^verbatim>\<open>recvfrom\<close> (\<open>None\<close>: nothing arrives), and what \<^verbatim>\<open>ctime\<close>
  makes of the bytes in \<^verbatim>\<open>recv_time\<close>.  Over UDP an alarm ends the wait.
\<close>

record nettime_peer =
  np_null_sent :: int
  np_null_got :: "int option"
  np_sent :: int
  np_got :: "int option"
  np_ctime :: string

definition no_answer :: "bool \<Rightarrow> nettime_result" where
  "no_answer tcp_mode = (if tcp_mode then Blocked else Alarmed)"

definition exchange :: "bool \<Rightarrow> nettime_peer \<Rightarrow> event list \<times> nettime_result" where
  "exchange tcp_mode p =
     (if \<not> tcp_mode \<and> np_null_sent p \<noteq> 0 then ([Stderr (''Error sending null packet'' @ [nl])], Returned 1)
      else case np_null_got p of
        None \<Rightarrow> ([], no_answer tcp_mode)
      | Some k0 \<Rightarrow>
          if k0 = - 1 then ([Stderr (''Error receiving null packet'' @ [nl])], Returned 1)
          else if np_sent p \<noteq> 8 then ([Stderr (''Error sending time packet'' @ [nl])], Returned 1)
          else case np_got p of
            None \<Rightarrow> ([], no_answer tcp_mode)
          | Some k \<Rightarrow>
              if k = - 1 then ([Stderr (''Error receiving time packet'' @ [nl])], Returned 1)
              else ([Stdout (''Time: '' @ np_ctime p)], Returned 0))"

fun connect_loop :: "(int option \<times> bool) list \<Rightarrow> int list \<Rightarrow> int list \<times> int option" where
  "connect_loop [] open_fds = (open_fds, None)"
| "connect_loop ((sfd, connects) # rest) open_fds =
     (case sfd of
        None \<Rightarrow> connect_loop rest open_fds
      | Some fd \<Rightarrow> if connects then (open_fds @ [fd], Some fd) else connect_loop rest (open_fds @ [fd]))"

text \<open>The socket is closed only after a complete exchange.\<close>

definition big_ugly_blob ::
    "string + (int option \<times> bool) list \<Rightarrow> bool \<Rightarrow> nettime_peer \<Rightarrow> bool \<Rightarrow> event list \<times> int list \<times> nettime_result" where
  "big_ugly_blob resolved still_there peer tcp_mode =
     (case resolved of
        Inl e \<Rightarrow> ([Stderr (''getaddrinfo: '' @ e @ [nl])], [], Returned 1)
      | Inr addrs \<Rightarrow>
          (case connect_loop addrs [] of
             (fds, None) \<Rightarrow> ([Stderr (''Wasn'' @ [CHR 0x27] @ ''t able to bind'' @ [nl])], fds, Returned 1)
           | (fds, Some sfd) \<Rightarrow>
               if \<not> still_there then ([], fds, UsesFreed)
               else let (es, r) = exchange tcp_mode peer in (es, if r = Returned 0 then remove1 sfd fds else fds, r)))"

text \<open>\<^verbatim>\<open>main\<close>: the output, and either the exit status or what else ended the program or keeps it waiting.\<close>

definition nettime_main ::
    "(string \<Rightarrow> bool \<Rightarrow> string + (int option \<times> bool) list) \<Rightarrow> bool \<Rightarrow> nettime_peer \<Rightarrow> string list \<Rightarrow> event list \<times> nettime_result" where
  "nettime_main resolve still_there peer args =
     (if length args \<noteq> 2 then ([Stderr (''Wrong amount of args'' @ [nl])], Returned EXIT_FAILURE)
      else let tcp_mode = (args ! 0 = ''-t''); out = (if tcp_mode then [Stdout (''got tcp'' @ [nl])] else [])
      in case big_ugly_blob (resolve (args ! 1) tcp_mode) still_there peer tcp_mode of
           (es, _, Returned _) \<Rightarrow> (out @ es, Returned EXIT_SUCCESS)
         | (es, _, r) \<Rightarrow> (out @ es, r))"

lemma connect_loop_fds: "connect_loop addrs fds = (fds', r) \<Longrightarrow> length fds' = length fds + length (filter (\<lambda>(s, _). s \<noteq> None) (takeWhile (\<lambda>(s, c). s = None \<or> \<not> c) addrs)) + (if r = None then 0 else 1)"
  by (induction addrs fds rule: connect_loop.induct) (auto split: option.splits if_splits)

lemma exchange_result:
  "exchange tcp_mode p = (es, r) \<Longrightarrow>
     r = Returned 1 \<and> (\<exists>m. es = [Stderr m]) \<or> r = Returned 0 \<and> es = [Stdout (''Time: '' @ np_ctime p)] \<and> np_sent p = 8 \<or>
     r = no_answer tcp_mode \<and> (np_null_got p = None \<or> np_got p = None)"
  by (auto simp: exchange_def split: option.splits if_splits)

lemma blob_result:
  assumes "big_ugly_blob resolved still_there p tcp_mode = (es, fds, r)"
  shows "r = Returned 1 \<and> (\<exists>m. es = [Stderr m]) \<or> r = Returned 0 \<and> es = [Stdout (''Time: '' @ np_ctime p)] \<and> np_sent p = 8 \<and> still_there \<or>
    r = no_answer tcp_mode \<and> (np_null_got p = None \<or> np_got p = None) \<or>
    r = UsesFreed \<and> \<not> still_there \<and> (\<exists>addrs fds sfd. resolved = Inr addrs \<and> connect_loop addrs [] = (fds, Some sfd))"
  using assms exchange_result [of tcp_mode p] by (auto simp: big_ugly_blob_def split: sum.splits option.splits prod.splits if_splits)

text \<open>
  \<^verbatim>\<open>nettime\<close> accesses freed memory as soon as it gets a connection.  Should the freed block still hold the
  address, a time is printed exactly if all four transfers succeed; every failure is printed and
  forgotten, the exit status is success for any two arguments unless the program is stopped.
\<close>

theorem nettime_verdict:
  "case nettime_main resolve still_there peer args of
     (es, Returned status) \<Rightarrow> (status = EXIT_SUCCESS \<longleftrightarrow> length args = 2) \<and>
       ((\<exists>m. last es = Stderr m) \<or> last es = Stdout (''Time: '' @ np_ctime peer) \<and> np_sent peer = 8 \<and> still_there)
   | (es, UsesFreed) \<Rightarrow> \<not> still_there \<and>
       (\<exists>addrs fds sfd. resolve (args ! 1) (args ! 0 = ''-t'') = Inr addrs \<and> connect_loop addrs [] = (fds, Some sfd))
   | (es, Alarmed) \<Rightarrow> args ! 0 \<noteq> ''-t'' \<and> (np_null_got peer = None \<or> np_got peer = None)
   | (es, Blocked) \<Rightarrow> args ! 0 = ''-t'' \<and> (np_null_got peer = None \<or> np_got peer = None)"
proof -
  obtain es fds r where b: "big_ugly_blob (resolve (args ! 1) (args ! 0 = ''-t'')) still_there peer (args ! 0 = ''-t'') = (es, fds, r)"
    by (metis prod_cases3)
  let ?out = "if args ! 0 = ''-t'' then [Stdout (''got tcp'' @ [nl])] else []"
  have m: "nettime_main resolve still_there peer args =
      (if length args \<noteq> 2 then ([Stderr (''Wrong amount of args'' @ [nl])], Returned EXIT_FAILURE)
       else (?out @ es, case r of Returned _ \<Rightarrow> Returned EXIT_SUCCESS | _ \<Rightarrow> r))"
    unfolding nettime_main_def Let_def b by (cases r) simp_all
  show ?thesis
  proof (cases "length args = 2")
    case True
    from blob_result [OF b] show ?thesis unfolding m by (elim disjE conjE exE) (simp_all add: True no_answer_def)
  qed (simp add: m)
qed

end
