(* ===== verification/Id_Memory.thy ===== *)
theory Id_Memory
  imports Id
begin

text \<open>
  \<^verbatim>\<open>hw05\<close>: the memory of the program \<^verbatim>\<open>id\<close>.  The two functions that collect the data, \<^verbatim>\<open>get_process_info\<close> and
  \<^verbatim>\<open>get_user_info\<close>, are followed once more along the same branches as in \<^verbatim>\<open>Id\<close>, this time for the blocks they
  allocate and free; both readings have the same outcome.
\<close>

section \<open>Blocks\<close>

text \<open>
  The copy of the name of the group, the array of the group ids, the array of their data and the copies of
  the names in it.  The other names belong to the C library.
\<close>

datatype id_block = GroupName | GroupsIds | GroupsData | GroupsName nat

datatype id_mem = Alloc id_block | Free id_block

text \<open>The heap after a sequence of calls; \<open>None\<close> after a \<^verbatim>\<open>free\<close> of a block that is not allocated.\<close>

fun run_mem :: "id_block set \<Rightarrow> id_mem list \<Rightarrow> id_block set option" where
  "run_mem live [] = Some live"
| "run_mem live (Alloc b # tr) = (if b \<in> live then None else run_mem (insert b live) tr)"
| "run_mem live (Free b # tr) = (if b \<in> live then run_mem (live - {b}) tr else None)"

text \<open>\<^verbatim>\<open>strdup\<close> that succeeded, and \<^verbatim>\<open>free\<close> of a name: nothing happens for \<^verbatim>\<open>NULL\<close>.\<close>

definition dup_name :: "id_block \<Rightarrow> name_id \<Rightarrow> id_mem list" where
  "dup_name b d = (if ni_name d = None then [] else [Alloc b])"

definition free_name :: "id_block \<Rightarrow> name_id \<Rightarrow> id_mem list" where
  "free_name b d = (if ni_name d = None then [] else [Free b])"

fun dup_names :: "nat \<Rightarrow> name_id list \<Rightarrow> id_mem list" where
  "dup_names i [] = []"
| "dup_names i (d # ds) = dup_name (GroupsName i) d @ dup_names (Suc i) ds"

fun free_names :: "nat \<Rightarrow> name_id list \<Rightarrow> id_mem list" where
  "free_names i [] = []"
| "free_names i (d # ds) = free_name (GroupsName i) d @ free_names (Suc i) ds"

definition free_memory :: "id_data \<Rightarrow> nat \<Rightarrow> id_mem list" where
  "free_memory data len =
     free_name GroupName (group_data data) @ free_names 0 (take len (groups_data data)) @ [Free GroupsData]"

section \<open>The two functions\<close>

text \<open>
  The array after the loop over the group ids, which \<^verbatim>\<open>calloc\<close> filled with zeros, and whether the loop went
  through: it stops at a group that is not known.
\<close>

definition zero_name_id :: name_id where "zero_name_id = \<lparr>ni_real = 0, ni_effective = 0, ni_name = None\<rparr>"

fun fill_groups :: "id_env \<Rightarrow> nat \<Rightarrow> gid_t list \<Rightarrow> name_id list \<times> bool" where
  "fill_groups env i [] = ([], True)"
| "fill_groups env i (g # gs) =
     (case ie_grgid env g of
        None \<Rightarrow> (replicate (length (g # gs)) zero_name_id, False)
      | Some n \<Rightarrow>
          (case fill_groups env (Suc i) gs of (ds, through) \<Rightarrow>
             (\<lparr>ni_real = g, ni_effective = g, ni_name = (if ie_strdup_groups env i then Some n else None)\<rparr> # ds, through)))"

definition process_memory :: "id_env \<Rightarrow> program_options \<Rightarrow> id_mem list \<times> unit outcome" where
  "process_memory env options =
     (case ie_resuid env of
        Inl e \<Rightarrow> ([], Exit EXIT_FAILURE)
      | Inr (ruid, euid) \<Rightarrow>
      let ud = \<lparr>ni_real = ruid, ni_effective = euid, ni_name = map_option (\<lambda>(_, _, n). n) (ie_pwuid env ruid)\<rparr> in
      case ie_resgid env of
        Inl e \<Rightarrow> ([], Exit EXIT_FAILURE)
      | Inr (rgid, egid) \<Rightarrow>
      if ie_grgid env rgid \<noteq> None \<and> \<not> ie_strdup_group env then ([], Exit EXIT_FAILURE)
      else let gd = \<lparr>ni_real = rgid, ni_effective = egid, ni_name = ie_grgid env rgid\<rparr>; tr = dup_name GroupName gd in
      if \<not> ie_calloc_ids env then (tr @ free_name GroupName gd, Exit EXIT_FAILURE)
      else let tr = tr @ [Alloc GroupsIds] in
      case ie_getgroups env of
        Inl e \<Rightarrow> (tr @ Free GroupsIds # free_name GroupName gd, Exit EXIT_FAILURE)
      | Inr ids \<Rightarrow>
          (let ids' = (if egid \<in> set ids then ids else ids @ [egid])
           in if \<not> ie_calloc_data env then (tr @ Free GroupsIds # free_name GroupName gd, Exit EXIT_FAILURE)
              else case fill_groups env 0 ids' of (gs, through) \<Rightarrow>
                (let tr = tr @ Alloc GroupsData # dup_names 0 gs; data = \<lparr>user_data = ud, group_data = gd, groups_data = gs\<rparr>
                 in if \<not> through then (tr, Fault NullDeref)
                    else case print_data env data options of
                      Exit c \<Rightarrow> (tr @ [Free GroupsIds], Exit c)
                    | Fault f \<Rightarrow> (tr @ [Free GroupsIds], Fault f)
                    | Done out \<Rightarrow> (tr @ Free GroupsIds # free_memory data (length ids'), Done ()))))"

definition user_memory :: "id_env \<Rightarrow> string \<Rightarrow> program_options \<Rightarrow> id_mem list \<times> unit outcome" where
  "user_memory env user_name options =
     (case find_user env user_name of
        Inl msg \<Rightarrow> ([], Exit EXIT_FAILURE)
      | Inr (uid, gid, pw_name) \<Rightarrow>
      let ud = \<lparr>ni_real = uid, ni_effective = uid, ni_name = Some pw_name\<rparr> in
      case ie_grgid env gid of
        None \<Rightarrow> ([], Exit EXIT_FAILURE)
      | Some gr_name \<Rightarrow>
      let gd = \<lparr>ni_real = gid, ni_effective = gid, ni_name = (if ie_strdup_group env then Some gr_name else None)\<rparr>;
          ids = ie_grouplist env pw_name gid; tr = dup_name GroupName gd in
      if \<not> ie_calloc_ids env then (tr @ free_name GroupName gd, Exit EXIT_FAILURE)
      else let tr = tr @ [Alloc GroupsIds] in
      if ie_list_changed env then (tr @ free_name GroupName gd @ [Free GroupsIds], Exit EXIT_FAILURE)
      else if \<not> ie_calloc_data env then (tr @ Free GroupsIds # free_name GroupName gd, Exit EXIT_FAILURE)
      else case fill_groups env 0 ids of (gs, through) \<Rightarrow>
        (let tr = tr @ Alloc GroupsData # dup_names 0 gs; data = \<lparr>user_data = ud, group_data = gd, groups_data = gs\<rparr>
         in if \<not> through then (tr @ free_memory data (length ids) @ [Free GroupsIds], Exit EXIT_FAILURE)
            else case print_data env data options of
              Exit c \<Rightarrow> (tr @ [Free GroupsIds], Exit c)
            | Fault f \<Rightarrow> (tr @ [Free GroupsIds], Fault f)
            | Done out \<Rightarrow> (tr @ Free GroupsIds # free_memory data (length ids), Done ())))"

section \<open>Both readings have the same outcome\<close>

lemma fill_groups_user: "user_groups env i ids = (case fill_groups env i ids of (gs, through) \<Rightarrow> if through then Some gs else None)"
  by (induction env i ids rule: fill_groups.induct) (auto split: option.splits prod.splits)

lemma fill_groups_process:
  "process_groups env i ids = (case fill_groups env i ids of (gs, through) \<Rightarrow> if through then Done gs else Fault NullDeref)"
  by (induction env i ids rule: fill_groups.induct) (auto split: option.splits prod.splits)

lemma fill_groups_length: "length (fst (fill_groups env i ids)) = length ids"
  by (induction env i ids rule: fill_groups.induct) (auto split: option.splits prod.splits)

lemma process_memory_outcome: "snd (process_memory env options) = snd (get_process_info env options)"
  by (simp add: process_memory_def get_process_info_def fill_groups_process Let_def split: sum.split prod.split outcome.split)

lemma user_memory_outcome: "snd (user_memory env user_name options) = snd (get_user_info env user_name options)"
  by (simp add: user_memory_def get_user_info_def fill_groups_user Let_def split: sum.split prod.split outcome.split option.split)

section \<open>The names are freed once each\<close>

lemma run_mem_append: "run_mem live (tr @ tr') = Option.bind (run_mem live tr) (\<lambda>live'. run_mem live' tr')"
  by (induction live tr rule: run_mem.induct) auto

fun name_blocks :: "nat \<Rightarrow> name_id list \<Rightarrow> id_block set" where
  "name_blocks i [] = {}"
| "name_blocks i (d # ds) = (if ni_name d = None then {} else {GroupsName i}) \<union> name_blocks (Suc i) ds"

lemma name_blocks_ge: "b \<in> name_blocks i ds \<Longrightarrow> \<exists>k \<ge> i. b = GroupsName k"
  by (induction i ds rule: name_blocks.induct) (auto split: if_splits dest: Suc_leD)

lemma name_blocks_fresh [simp]:
  "GroupsName i \<notin> name_blocks (Suc i) ds" "GroupName \<notin> name_blocks i ds" "GroupsIds \<notin> name_blocks i ds" "GroupsData \<notin> name_blocks i ds"
  using name_blocks_ge by fastforce+

lemma run_dup_names: "live \<inter> name_blocks i ds = {} \<Longrightarrow> run_mem live (dup_names i ds) = Some (live \<union> name_blocks i ds)"
  by (induction i ds arbitrary: live rule: dup_names.induct) (auto simp: dup_name_def run_mem_append)

lemma run_free_names: "name_blocks i ds \<subseteq> live \<Longrightarrow> run_mem live (free_names i ds) = Some (live - name_blocks i ds)"
proof (induction i ds arbitrary: live rule: free_names.induct)
  case (2 i d ds)
  show ?case
  proof (cases "ni_name d")
    case None
    then show ?thesis using 2 by (simp add: free_name_def)
  next
    case (Some n)
    then have "name_blocks (Suc i) ds \<subseteq> live - {GroupsName i}" "GroupsName i \<in> live" using 2(2) by auto
    then have "run_mem live (free_names i (d # ds)) = Some (live - {GroupsName i} - name_blocks (Suc i) ds)"
      using 2(1) Some by (simp add: free_name_def)
    also have "live - {GroupsName i} - name_blocks (Suc i) ds = live - name_blocks i (d # ds)" using Some by auto
    finally show ?thesis .
  qed
qed simp

definition group_blocks :: "name_id \<Rightarrow> id_block set" where
  "group_blocks d = (if ni_name d = None then {} else {GroupName})"

lemma run_names:
  "GroupName \<notin> live \<Longrightarrow> run_mem live (dup_name GroupName d) = Some (live \<union> group_blocks d)"
  "group_blocks d \<subseteq> live \<Longrightarrow> run_mem live (free_name GroupName d) = Some (live - group_blocks d)"
  by (auto simp: dup_name_def free_name_def group_blocks_def)

lemma group_blocks_other [simp]: "GroupsIds \<notin> group_blocks d" "GroupsData \<notin> group_blocks d" "GroupsName i \<notin> group_blocks d"
  "group_blocks d \<inter> name_blocks i ds = {}" "name_blocks i ds \<inter> group_blocks d = {}"
  by (auto simp: group_blocks_def)

section \<open>Everything is freed\<close>

lemma run_collected:
  "run_mem {} ((dup_name GroupName gd @ [Alloc GroupsIds]) @ Alloc GroupsData # dup_names 0 gs) =
     Some ({GroupsIds, GroupsData} \<union> group_blocks gd \<union> name_blocks 0 gs)"
proof -
  have "run_mem (insert GroupsData (insert GroupsIds (group_blocks gd))) (dup_names 0 gs) =
      Some (insert GroupsData (insert GroupsIds (group_blocks gd)) \<union> name_blocks 0 gs)"
    by (rule run_dup_names) simp
  then show ?thesis by (simp add: run_mem_append run_names insert_commute)
qed

lemma run_free_memory:
  assumes "length gs = len" "live \<subseteq> {GroupsIds}"
  shows "run_mem (insert GroupsData live \<union> group_blocks gd \<union> name_blocks 0 gs)
      (free_memory \<lparr>user_data = ud, group_data = gd, groups_data = gs\<rparr> len) = Some live"
proof -
  let ?all = "insert GroupsData live \<union> group_blocks gd \<union> name_blocks 0 gs"
  have 1: "run_mem ?all (free_name GroupName gd) = Some (?all - group_blocks gd)" by (rule run_names(2)) auto
  have 2: "run_mem (?all - group_blocks gd) (free_names 0 gs) = Some (?all - group_blocks gd - name_blocks 0 gs)"
    by (rule run_free_names) (use group_blocks_other(5) [of 0 gs gd] in blast)
  have 3: "?all - group_blocks gd - name_blocks 0 gs - {GroupsData} = live" "GroupsData \<in> ?all - group_blocks gd - name_blocks 0 gs"
    using assms(2) by (auto simp: group_blocks_def)
  show ?thesis using 1 2 3 assms(1) by (simp add: free_memory_def run_mem_append)
qed

text \<open>No block is freed that is not allocated, and unless the program crashes everything has been freed.\<close>

definition clean :: "id_mem list \<times> unit outcome \<Rightarrow> bool" where
  "clean x \<longleftrightarrow> (case run_mem {} (fst x) of
     None \<Rightarrow> False
   | Some live \<Rightarrow> (case snd x of Fault _ \<Rightarrow> True | _ \<Rightarrow> live = {}))"

lemma clean_early:
  "clean ([], r)"
  "clean (dup_name GroupName gd @ free_name GroupName gd, r)"
  "clean ((dup_name GroupName gd @ [Alloc GroupsIds]) @ Free GroupsIds # free_name GroupName gd, r)"
  "clean ((dup_name GroupName gd @ [Alloc GroupsIds]) @ free_name GroupName gd @ [Free GroupsIds], r)"
  by (auto simp: clean_def dup_name_def free_name_def split: outcome.split)

lemma clean_append:
  "run_mem {} tr = Some live \<Longrightarrow>
     clean (tr @ tr', r) \<longleftrightarrow> (case run_mem live tr' of None \<Rightarrow> False | Some l \<Rightarrow> (case r of Fault _ \<Rightarrow> True | _ \<Rightarrow> l = {}))"
  unfolding clean_def fst_conv snd_conv by (simp add: run_mem_append)

lemma clean_fault:
  "clean ((dup_name GroupName gd @ [Alloc GroupsIds]) @ Alloc GroupsData # dup_names 0 gs, Fault f)"
  "clean (((dup_name GroupName gd @ [Alloc GroupsIds]) @ Alloc GroupsData # dup_names 0 gs) @ [Free GroupsIds], Fault f)"
  unfolding clean_append [OF run_collected] by (simp_all add: clean_def run_collected del: append_assoc)

lemma clean_end:
  assumes "length gs = len"
  shows "clean (((dup_name GroupName gd @ [Alloc GroupsIds]) @ Alloc GroupsData # dup_names 0 gs) @
      Free GroupsIds # free_memory \<lparr>user_data = ud, group_data = gd, groups_data = gs\<rparr> len, r)"
    and "clean (((dup_name GroupName gd @ [Alloc GroupsIds]) @ Alloc GroupsData # dup_names 0 gs) @
      free_memory \<lparr>user_data = ud, group_data = gd, groups_data = gs\<rparr> len @ [Free GroupsIds], r)"
proof -
  have "{GroupsIds, GroupsData} \<union> group_blocks gd \<union> name_blocks 0 gs - {GroupsIds} = insert GroupsData {} \<union> group_blocks gd \<union> name_blocks 0 gs"
    using group_blocks_other(1) [of gd] name_blocks_fresh(3) [of 0 gs] by blast
  with run_free_memory [OF assms, of "{}" gd ud]
  have "run_mem ({GroupsIds, GroupsData} \<union> group_blocks gd \<union> name_blocks 0 gs)
      (Free GroupsIds # free_memory \<lparr>user_data = ud, group_data = gd, groups_data = gs\<rparr> len) = Some {}" by simp
  then show "clean (((dup_name GroupName gd @ [Alloc GroupsIds]) @ Alloc GroupsData # dup_names 0 gs) @
      Free GroupsIds # free_memory \<lparr>user_data = ud, group_data = gd, groups_data = gs\<rparr> len, r)"
    unfolding clean_append [OF run_collected] by (simp split: outcome.split)
  have "run_mem ({GroupsIds, GroupsData} \<union> group_blocks gd \<union> name_blocks 0 gs)
      (free_memory \<lparr>user_data = ud, group_data = gd, groups_data = gs\<rparr> len @ [Free GroupsIds]) = Some {}"
    using run_free_memory [OF assms, of "{GroupsIds}" gd ud] by (simp add: run_mem_append insert_commute)
  then show "clean (((dup_name GroupName gd @ [Alloc GroupsIds]) @ Alloc GroupsData # dup_names 0 gs) @
      free_memory \<lparr>user_data = ud, group_data = gd, groups_data = gs\<rparr> len @ [Free GroupsIds], r)"
    unfolding clean_append [OF run_collected] by (simp split: outcome.split)
qed

lemma print_data_no_exit: "print_data env data options \<noteq> Exit c"
  by (simp add: print_data_def Let_def)

text \<open>
  C22: \<^verbatim>\<open>id\<close> gives back its memory.  On every path of \<^verbatim>\<open>get_process_info\<close> and of \<^verbatim>\<open>get_user_info\<close>, whatever call fails, no
  block is freed twice or without having been allocated, and unless the function crashes everything it
  allocated has been freed when it returns or exits; both functions end as in the model of their output.
\<close>

theorem id_frees_everything:
  "clean (process_memory env options) \<and> snd (process_memory env options) = snd (get_process_info env options) \<and>
   clean (user_memory env user_name options) \<and> snd (user_memory env user_name options) = snd (get_user_info env user_name options)"
proof (intro conjI process_memory_outcome user_memory_outcome)
  have len: "length gs = length ids" if "fill_groups env 0 ids = (gs, t)" for gs t ids
    using fill_groups_length [of env 0 ids] that by simp
  show "clean (process_memory env options)"
    unfolding process_memory_def Let_def
    by (auto simp only: clean_early clean_fault clean_end len print_data_no_exit split: sum.split prod.split if_split outcome.split)
  show "clean (user_memory env user_name options)"
    unfolding user_memory_def Let_def
    by (auto simp only: clean_early clean_fault clean_end len print_data_no_exit split: sum.split prod.split if_split outcome.split option.split)
qed

end
