(* ===== verification/Spec2Isabelle.thy ===== *)
theory Spec2Isabelle
  imports Crc32 Guess Memgrind Id Siglogd Ptgrep Queue_Threads Linked_List Primes Sqrt Power_Threads File_Copy Drop_Priv Tasks Seq
    Numbers Tls Syscount Signals Digest Mmap Options Filters Pipes Network Races File_Tree Stopwatch Werecat Wwc
    Fences Notice Queue_Clients Memgrind_Tests Environment Processes Thread_Ids Library_Calls Unfinished Id_Memory
begin

text \<open>
  \<^bold>\<open>A verification library for POSIX\_C.\<close>  The repository holds homework programs (\<^verbatim>\<open>hw01\<close> to \<^verbatim>\<open>hw09\<close>) and exercise
  programs (\<^verbatim>\<open>ex01\<close> to \<^verbatim>\<open>ex13\<close>) of a course on POSIX programming in C.  The programs do not call each other;
  what they share is the C library, and the homework programs are libraries with clients of
  their own.  Each program is modelled by one theory (or two), all on the model of C in
  \<^verbatim>\<open>C_Prelude\<close>.

  \<^bold>\<open>Conventions.\<close>  A function of the source is a HOL function with its name (a prefix where several programs
  have the same name).  Structures are records, enumerations datatypes.  What a program writes is
  a list of events (\<^verbatim>\<open>stdout\<close>, \<^verbatim>\<open>stderr\<close>, \<^verbatim>\<open>error\<close>, \<^verbatim>\<open>syslog\<close>).  An \<open>outcome\<close> is \<open>Done\<close> with a value, \<open>Exit\<close> with a status, or a
  \<open>Fault\<close> (null pointer, access out of bounds, overflow, failed assertion).  Answers of the system
  (reads, writes, allocations, account databases, dynamic libraries, fork) are parameters: a
  record or function whose values the theorems quantify over.  Integers are machine words
  or integers with the wrap-around written out where the code can reach it.

  \<^bold>\<open>The library.\<close>
  \<^item> \<^verbatim>\<open>C_Prelude\<close>: integers, strings, \<^verbatim>\<open>strtol\<close>, \<^verbatim>\<open>strtoull\<close>, \<^verbatim>\<open>%d\<close>, \<^verbatim>\<open>getline\<close>, events, outcomes, and the locale
    \<open>invariant_system\<close> for invariants of step relations and \<open>simulation\<close> for a system that refines another.
  \<^item> \<^verbatim>\<open>Getopt\<close>: GNU \<^verbatim>\<open>getopt\<close> and \<^verbatim>\<open>getopt_long\<close> with permutation and abbreviations, the option loop
    \<open>run_opts\<close>, and the locale \<open>switches\<close> of programs whose options are independent.
  \<^item> \<^verbatim>\<open>Fifo_Spec\<close>: the abstract first-in first-out queue as locales, interpreted by the ring buffer of
    \<^verbatim>\<open>Queue_Lib\<close> and by the linked list of \<^verbatim>\<open>Linked_List\<close>.

  \<^bold>\<open>The homework programs.\<close>
  \<^item> \<^verbatim>\<open>Crc32\<close> (\<^verbatim>\<open>hw01\<close>: \<^verbatim>\<open>crc.c\<close>, \<^verbatim>\<open>get_crc.c\<close>, \<^verbatim>\<open>crc32sum.c\<close>, \<^verbatim>\<open>crc32check.c\<close>): the bit-level routine computes the reference
    CRC-32 for any partition of the input into reads; what \<^verbatim>\<open>crc32sum\<close> writes \<^verbatim>\<open>crc32check\<close> accepts; one changed
    byte is always detected.
  \<^item> \<^verbatim>\<open>Guess\<close> (\<^verbatim>\<open>hw02\<close>: \<^verbatim>\<open>guess.c\<close>, \<^verbatim>\<open>utils.c\<close>, the three libraries): the interface of a strategy is the locale
    \<open>strategy\<close>, interpreted by the binary, linear and oracle libraries; any mix of them plays to an end;
    the binary one wins in 7 guesses; resources are released on every path but one.
  \<^item> \<^verbatim>\<open>Memgrind\<close> (\<^verbatim>\<open>hw03\<close>: \<^verbatim>\<open>libmemgrind.c\<close>, \<^verbatim>\<open>utils.c\<close>, \<^verbatim>\<open>syslog_parser.c\<close>): the interposed allocator on a heap of headers; its
    books balance with the live blocks from loading to the final report, and the limits hold, except
    through \<^verbatim>\<open>calloc\<close>.
  \<^item> \<^verbatim>\<open>Id\<close> (\<^verbatim>\<open>hw05\<close>: \<^verbatim>\<open>id.c\<close>, \<^verbatim>\<open>utils.c\<close>): the whole program over account databases; what it prints in every mode; the
    order of options is irrelevant; a group without an entry crashes it.  \<^verbatim>\<open>Id_Memory\<close> follows the allocations of the same functions: all is freed.
  \<^item> \<^verbatim>\<open>Siglogd\<close> (\<^verbatim>\<open>hw06\<close>): set-up, handlers and the suspend loop over a sequence of deliveries; each signal is
    counted once.
  \<^item> \<^verbatim>\<open>Ptgrep\<close> (\<^verbatim>\<open>hw08\<close>): the search of a thread and the program.  The inner loop runs on fuel, because it does
    not end when the output is not a terminal; on a terminal any fuel above the longest line is
    enough.  The locale \<open>finder\<close> is interpreted by \<^verbatim>\<open>strstr\<close> and \<^verbatim>\<open>strcasestr\<close>.
  \<^item> \<^verbatim>\<open>Queue_Lib\<close> and \<^verbatim>\<open>Queue_Threads\<close> (\<^verbatim>\<open>hw09\<close>: \<^verbatim>\<open>queue.c\<close>): the ring buffer on bytes, constructor and destructor with
    their resources, and the blocking operations of any number of threads as the step relation
    \<open>qstep\<close>: mutual exclusion, exact waiting counters, no lost wakeup, no deadlock, abort.
  \<^item> \<^verbatim>\<open>Queue_Atomic\<close>: the contract of the queue towards its threads, an abstract queue whose calls take effect in one
    step between call and return; \<open>qstep\<close> refines it, and so does every program over the queue.
  \<^item> \<^verbatim>\<open>Queue_Alone\<close> and \<^verbatim>\<open>Queue_Clients\<close> (\<^verbatim>\<open>hw09\<close>: the three test programs): what a call does when its thread is alone, shown to agree with
    \<open>qstep\<close>; programs whose threads are lists of actions composed with \<open>qstep\<close>: the invariants of the
    queue carry over, and once the queue is aborted the program ends within a bounded number of
    steps, whatever the scheduling.
  \<^item> \<^verbatim>\<open>Memgrind_Tests\<close> (\<^verbatim>\<open>hw03\<close>: the two test programs): which blocks they hold after every call of the interposed allocator.

  \<^bold>\<open>The exercise programs.\<close>
  \<^item> \<^verbatim>\<open>Numbers\<close> (\<^verbatim>\<open>ex01/fact\<close>, \<^verbatim>\<open>ex01/bytes\<close>, \<^verbatim>\<open>ex02/dynamic+static\<close>, \<^verbatim>\<open>ex02/dynlink\<close>, \<^verbatim>\<open>ex03/perf\<close>): factorials, combinations and
    Fibonacci numbers on signed machine integers; for exactly which arguments they are right.
  \<^item> \<^verbatim>\<open>Filters\<close> (\<^verbatim>\<open>ex02/strings\<close>): the rotation of filter libraries; the locale \<open>char_filter\<close> is interpreted by the
    three libraries.
  \<^item> \<^verbatim>\<open>Options\<close> (\<^verbatim>\<open>ex03/getopt\<close>, \<^verbatim>\<open>ex03/log\<close>, \<^verbatim>\<open>ex05/getent\<close>, \<^verbatim>\<open>ex11/eject\<close>): programs that are mostly a loop over \<^verbatim>\<open>getopt\<close>.
  \<^item> \<^verbatim>\<open>Seq\<close> (\<^verbatim>\<open>ex03/seq\<close>): the progression printed; when it does not end or overflows.  The loop runs on fuel,
    and the number of integers from FIRST to LAST plus two is enough.
  \<^item> \<^verbatim>\<open>Wwc\<close> (\<^verbatim>\<open>ex04/wwc\<close>): bytes and characters of a text; the locale \<open>charset\<close> is interpreted by UTF-8 and by
    single-byte encodings; which streams stay open.
  \<^item> \<^verbatim>\<open>Drop_Priv\<close> and \<^verbatim>\<open>Tasks\<close> (\<^verbatim>\<open>ex05\<close>): dropping privileges on the documented \<^verbatim>\<open>setuid\<close> semantics; the growing
    array and the program that waits for its children.
  \<^item> \<^verbatim>\<open>Signals\<close>, \<^verbatim>\<open>Syscount\<close>, \<^verbatim>\<open>Fences\<close> (\<^verbatim>\<open>ex06\<close>, \<^verbatim>\<open>ex10/fsfence\<close>): which waiting loop loses signals; the calculator driven by
    signals; counting system calls with \<^verbatim>\<open>ptrace\<close>; programs that are executed behind a filter of system
    calls or with an alarm.
  \<^item> \<^verbatim>\<open>Tls\<close>, \<^verbatim>\<open>Stopwatch\<close> (\<^verbatim>\<open>ex08\<close>): the kinds of storage of a thread as a step relation; stopwatches that do not
    disturb each other; the keys of threads.
  \<^item> \<^verbatim>\<open>Linked_List\<close>, \<^verbatim>\<open>Primes\<close>, \<^verbatim>\<open>Sqrt\<close>, \<^verbatim>\<open>Power_Threads\<close>, \<^verbatim>\<open>Races\<close> (\<^verbatim>\<open>ex09\<close>): the list on an explicit heap (its destructor
    runs on fuel, one more than the number of elements is enough) and five threaded programs as
    step relations, with their invariants and with the runs in which they hang or mix up data.
  \<^item> \<^verbatim>\<open>File_Copy\<close> and \<^verbatim>\<open>Werecat\<close> (\<^verbatim>\<open>ex10/cat\<close>, \<^verbatim>\<open>ex10/copy\<close>, \<^verbatim>\<open>ex11/werecat\<close>): whatever the sizes of the transfers, what arrives is
    a prefix of the source, and success means all of it.
  \<^item> \<^verbatim>\<open>Pipes\<close> and \<^verbatim>\<open>File_Tree\<close> (\<^verbatim>\<open>ex10/pipe\<close>, \<^verbatim>\<open>ex10/pipes\<close>, \<^verbatim>\<open>ex10/size\<close>, \<^verbatim>\<open>ex10/ftw\<close>): two processes and a pipe as a step relation
    that ends with all data delivered; descriptor tables; sums over a directory tree.
  \<^item> \<^verbatim>\<open>Digest\<close> (\<^verbatim>\<open>ex11/shattr\<close>): the digest of what is read, over the routines of OpenSSL as a parameter.
  \<^item> \<^verbatim>\<open>Network\<close> (\<^verbatim>\<open>ex12\<close>): the set-up and the poll loop of \<^verbatim>\<open>roftpd\<close>, whose inner loop runs on fuel and does not end for any;
    the addresses of a host.
  \<^item> \<^verbatim>\<open>Mmap\<close> and \<^verbatim>\<open>Notice\<close> (\<^verbatim>\<open>ex13\<close>): a mapped file filled with numbers, the shared counter, a notice in shared
    memory.
  \<^item> \<^verbatim>\<open>Environment\<close> (\<^verbatim>\<open>ex03/env\<close>, \<^verbatim>\<open>ex03/printenv\<close>, \<^verbatim>\<open>ex03/assert\<close>): the environment as addresses into a store of strings, so that the
    difference between \<^verbatim>\<open>setenv\<close> and \<^verbatim>\<open>putenv\<close> shows.
  \<^item> \<^verbatim>\<open>Processes\<close> (\<^verbatim>\<open>ex05/vidlicky\<close>, \<^verbatim>\<open>ex05/spooky\<close>, \<^verbatim>\<open>ex06/abort\<close>, \<^verbatim>\<open>ex13/mmap0\<close>) and \<^verbatim>\<open>Thread_Ids\<close> (\<^verbatim>\<open>ex08/threads\<close>, \<^verbatim>\<open>ex08/gettid\<close>): the orders in
    which processes and threads print, with and without waiting; a command line built from input;
    signals and wait statuses.
  \<^item> \<^verbatim>\<open>Library_Calls\<close> (\<^verbatim>\<open>ex02/rtmath\<close>, \<^verbatim>\<open>ex02/datetime\<close>, \<^verbatim>\<open>ex04/argsort\<close>, \<^verbatim>\<open>ex04/hello\<close>): programs over a library that is a parameter.
  \<^item> \<^verbatim>\<open>Unfinished\<close> (\<^verbatim>\<open>ex11/flock\<close>, \<^verbatim>\<open>ex12/nettime\<close>): the two programs that do not compile, read without the slip that stops the compiler;
    what they promise to the programs they start, and how they fail.

  This theory adds what spans components: a copy made by \<^verbatim>\<open>slow\<close> passes \<^verbatim>\<open>crc32check\<close>.

  \<^bold>\<open>Not modelled.\<close>  Diagnostics that \<^verbatim>\<open>getopt\<close> itself prints, the texts of \<^verbatim>\<open>strerror\<close>, \<^verbatim>\<open>openlog\<close> and daemonisation, the
  interleaving of the output of threads, and weak memory: a step of a thread is one access to
  the shared state, in some total order.  Further \<^verbatim>\<open>queue_type_size\<close> (a \<^verbatim>\<open>sizeof\<close>), two functions that
  nothing calls (\<^verbatim>\<open>print_options\<close> of \<^verbatim>\<open>hw05\<close>, \<^verbatim>\<open>print_argv\<close> of \<^verbatim>\<open>ex10/pipe\<close>), the constructor and destructor of \<^verbatim>\<open>ex11/shattr\<close>
  (calls of OpenSSL), and the headers, which only declare.  Some branches for failures that the
  documentation excludes are left out where the theories say so.  Functions that occur twice with the same text are modelled once.
\<close>

section \<open>Properties that span components\<close>

text \<open>
  C33: a copy made by \<^verbatim>\<open>copy/slow\<close> passes the check of its source.  When \<^verbatim>\<open>slow\<close> reports success and the copy can
  be read back, \<^verbatim>\<open>crc32check\<close> accepts it under the checksum of the source, however all the reads and
  writes were cut into pieces.
\<close>

theorem copy_passes_check:
  assumes "progresses (ce_write env)" "ce_source env = Inr reads"
    and "slow_main env [prog, src, dst] = (evs, EXIT_SUCCESS, Some out)"
    and "plain_name dst" "readable fenv dst out"
  shows "crc32check_main fenv g True bundles (sum_line (crc_ref (read_data reads)) dst) [chk] =
    ([Stdout (dst @ '': OK'' @ [nl])], EXIT_SUCCESS)"
proof -
  have out: "out = read_data reads" by (rule slow_main_success [OF assms(1-3)])
  let ?w = "crc_ref (read_data reads)"
  have "input_lines (sum_line ?w dst) = [sum_line ?w dst]"
    using sum_line_is_line [OF assms(4), of ?w "[]"] by simp
  moreover have "bundle_loop fenv g ''stdin'' 0 0 [sum_line ?w dst] = ([Stdout (dst @ '': OK'' @ [nl])], 0)"
    using bundle_loop_verdicts [of fenv "\<lambda>_. out" "[(?w, dst)]" g "''stdin''" 0 0] assms(4,5) out
    by (simp add: verdict_def del: bundle_loop.simps)
  ultimately show ?thesis by (simp add: crc32check_main_def process_bundle_def)
qed

theorem copy_passes_check_witness:
  "crc32check_main Crc32.demo_env \<lparr>hash = 0\<rparr> True (\<lambda>_. None) (sum_line (crc_ref [0x31, 0x32]) ''a'') [''crc32check''] =
     ([Stdout (''a: OK'' @ [nl])], EXIT_SUCCESS)"
proof -
  let ?env = "\<lparr>ce_source = Inr [Got [0x31, 0x32]], ce_open_dest = 0, ce_write = (\<lambda>_. Inr 1), ce_close_dest = 0, ce_close_source = 0\<rparr>"
  have "slow_main ?env [''slow'', ''s'', ''a''] = ([], EXIT_SUCCESS, Some [0x31, 0x32])" by code_simp
  from copy_passes_check [OF _ _ this, of "[Got [0x31, 0x32]]" Crc32.demo_env] show ?thesis
    by (simp add: progresses_def plain_name_def nl_def nul_def demo_env_readable)
qed

end
